(* ===== verification/Prelude.thy ===== *)
theory Prelude
  imports Main "HOL-Library.Signed_Division"
begin

text \<open>
  Shared vocabulary of the smart planter development: the ways a C function can leave the
  defined behaviour (\<open>c_err\<close>), 32-bit signed arithmetic with the wrap-around written out,
  the generic lemmas on lists and sums that the components use, and the collections of
  rewrite rules the component proofs run on; the locale of transition systems and their
  invariants.
\<close>

section \<open>Collections of rules\<close>

named_theorems dev_defs \<open>definitions of the user level device operations\<close>
named_theorems drv_defs \<open>definitions of the kernel level driver operations\<close>
named_theorems ctl_defs \<open>definitions of the control logic of main.c\<close>

section \<open>Undefined behaviour as values\<close>

text \<open>
  Where the C code would leave the defined behaviour of the language the model returns one
  of these errors in the left component of a sum, at the place where it happens.
\<close>

datatype c_err =
    NullDeref          \<comment> \<open>a null pointer is dereferenced\<close>
  | UseAfterFree       \<comment> \<open>storage is read or printed after it was released\<close>
  | WildPointer        \<comment> \<open>an address that was never allocated is dereferenced\<close>
  | UninitFree         \<comment> \<open>an uninitialised pointer is passed to free\<close>
  | BufferOverflow     \<comment> \<open>a store past the end of a buffer\<close>
  | BufferUnderflow    \<comment> \<open>a store before the start of a buffer\<close>
  | BufferOverread     \<comment> \<open>a read past the end of a buffer\<close>
  | Unterminated       \<comment> \<open>a string function runs past the end of its buffer\<close>

type_synonym 'a result = "c_err + 'a"

definition rbind :: "'a result \<Rightarrow> ('a \<Rightarrow> 'b result) \<Rightarrow> 'b result" where
  "rbind r f = (case r of Inl e \<Rightarrow> Inl e | Inr x \<Rightarrow> f x)"

lemma rbind_simps [simp]:
  "rbind (Inl e) f = Inl e"
  "rbind (Inr x) f = f x"
  by (simp_all add: rbind_def)

lemma rbind_eq_Inr: "rbind r f = Inr y \<longleftrightarrow> (\<exists>x. r = Inr x \<and> f x = Inr y)"
  by (cases r) simp_all

lemma rbind_assoc: "rbind (rbind r f) g = rbind r (\<lambda>x. rbind (f x) g)"
  by (cases r) simp_all

lemma rbind_cong [fundef_cong]:
  "r = r' \<Longrightarrow> (\<And>x. r' = Inr x \<Longrightarrow> f x = f' x) \<Longrightarrow> rbind r f = rbind r' f'"
  by (cases r') simp_all

section \<open>Thirty-two bit signed integers\<close>

definition in_i32 :: "int \<Rightarrow> bool" where
  "in_i32 x \<longleftrightarrow> -2147483648 \<le> x \<and> x \<le> 2147483647"

definition wrap32 :: "int \<Rightarrow> int" where
  "wrap32 x = (x + 2147483648) mod 4294967296 - 2147483648"

lemma wrap32_id [simp]: "in_i32 x \<Longrightarrow> wrap32 x = x"
  by (simp add: in_i32_def wrap32_def)

lemma wrap32_over: "2147483647 < x \<Longrightarrow> x \<le> 6442450943 \<Longrightarrow> wrap32 x = x - 4294967296"
  using mod_pos_pos_trivial [of "x - 2147483648" 4294967296] mod_add_self2 [of "x - 2147483648" 4294967296]
  by (simp add: wrap32_def algebra_simps)

lemma in_i32_wrap32 [simp]: "in_i32 (wrap32 x)"
  using pos_mod_bound [of 4294967296 "x + 2147483648"] pos_mod_sign [of 4294967296 "x + 2147483648"]
  by (simp add: in_i32_def wrap32_def)

lemma wrap32_idem [simp]: "wrap32 (wrap32 x) = wrap32 x"
  by simp

lemma wrap32_add: "wrap32 (wrap32 x + y) = wrap32 (x + y)"
proof -
  have "((x + c) mod m - c + y + c) mod m = (x + y + c) mod m" for c m :: int
    using mod_add_left_eq [of "x + c" m y] by (simp add: algebra_simps)
  then show ?thesis unfolding wrap32_def by simp
qed

lemma wrap32_Suc [simp]: "wrap32 (wrap32 (int n) + 1) = wrap32 (int (Suc n))"
  using wrap32_add [of "int n" 1] by (simp add: add.commute)

lemma in_i32_0_1 [simp]: "in_i32 0" "in_i32 1"
  by (simp_all add: in_i32_def)

definition clamp32 :: "int \<Rightarrow> int" where
  "clamp32 x = max (-2147483648) (min 2147483647 x)"

lemma clamp32_id [simp]: "in_i32 x \<Longrightarrow> clamp32 x = x"
  by (simp add: in_i32_def clamp32_def)

lemma in_i32_clamp32 [simp]: "in_i32 (clamp32 x)"
  by (simp add: in_i32_def clamp32_def)

section \<open>Lists\<close>

lemma filter_neq_id: "x \<notin> set xs \<Longrightarrow> filter (\<lambda>y. y \<noteq> x) xs = xs"
  by (induction xs) auto

section \<open>Transition systems\<close>

text \<open>An invariant of a transition system holds in all its reachable states.\<close>

locale transition_system =
  fixes step :: "'s \<Rightarrow> 's \<Rightarrow> bool"
    and Inv :: "'s \<Rightarrow> bool"
  assumes inv_step: "Inv s \<Longrightarrow> step s s' \<Longrightarrow> Inv s'"
begin

lemma inv_reach: "step\<^sup>*\<^sup>* s s' \<Longrightarrow> Inv s \<Longrightarrow> Inv s'"
  by (induction rule: rtranclp_induct) (auto intro: inv_step)

lemma not_reach: "Inv s \<Longrightarrow> \<not> Inv s' \<Longrightarrow> \<not> step\<^sup>*\<^sup>* s s'"
  using inv_reach by blast

end

end
