(* ===== verification/CString.thy ===== *)
theory CString
  imports Prelude
begin

text \<open>
  The parts of the C library's string handling that the program relies on: character
  buffers with a terminating zero byte, \<open>strlen\<close> and \<open>strcpy\<close>/\<open>sprintf\<close> into a
  buffer of fixed size, the conversions \<open>%d\<close>, \<open>atoi\<close> and \<open>sscanf\<close> with \<open>%d\<close>,
  and \<open>strstr\<close>. A string value is the list of its characters, without the zero byte; a
  buffer is the list of all its bytes.
\<close>

section \<open>Buffers\<close>

definition nul :: char where
  "nul = CHR 0x00"

fun c_str :: "char list \<Rightarrow> string option" where
  "c_str [] = None"
| "c_str (c # cs) = (if c = nul then Some [] else map_option (Cons c) (c_str cs))"

definition put_str :: "string \<Rightarrow> char list \<Rightarrow> char list result" where
  "put_str s buf =
     (if length s < length buf then Inr (s @ nul # drop (Suc (length s)) buf)
      else Inl BufferOverflow)"

definition no_nul :: "string \<Rightarrow> bool" where
  "no_nul s \<longleftrightarrow> nul \<notin> set s"

lemma no_nul_simps [simp]:
  "no_nul []"
  "no_nul (c # s) \<longleftrightarrow> c \<noteq> nul \<and> no_nul s"
  "no_nul (s @ t) \<longleftrightarrow> no_nul s \<and> no_nul t"
  "no_nul (rev s) \<longleftrightarrow> no_nul s"
  by (auto simp: no_nul_def)

lemma c_str_append [simp]: "no_nul s \<Longrightarrow> c_str (s @ nul # rest) = Some s"
  by (induction s) auto

lemma c_str_split: "c_str buf = Some s \<Longrightarrow> \<exists>rest. buf = s @ nul # rest"
  by (induction buf arbitrary: s) (auto split: if_splits)

lemma c_str_length: "c_str buf = Some s \<Longrightarrow> length s < length buf"
  by (drule c_str_split) auto

lemma put_str_c_str:
  "no_nul s \<Longrightarrow> put_str s buf = Inr buf' \<Longrightarrow> c_str buf' = Some s \<and> length buf' = length buf"
  by (auto simp: put_str_def split: if_splits)

section \<open>Decimal output\<close>

definition digit :: "nat \<Rightarrow> char" where
  "digit n = char_of (48 + n)"

fun show_nat :: "nat \<Rightarrow> string" where
  "show_nat n = (if n < 10 then [digit n] else show_nat (n div 10) @ [digit (n mod 10)])"

declare show_nat.simps [simp del]

definition show_int :: "int \<Rightarrow> string" where
  "show_int x = (if x < 0 then CHR ''-'' # show_nat (nat (- x)) else show_nat (nat x))"

definition is_digit :: "char \<Rightarrow> bool" where
  "is_digit c \<longleftrightarrow> 48 \<le> (of_char c :: nat) \<and> (of_char c :: nat) \<le> 57"

definition is_space :: "char \<Rightarrow> bool" where
  "is_space c \<longleftrightarrow> (of_char c :: nat) = 32 \<or> (9 \<le> (of_char c :: nat) \<and> (of_char c :: nat) \<le> 13)"

lemma of_char_digit [simp]: "n < 10 \<Longrightarrow> (of_char (digit n) :: nat) = 48 + n"
  by (simp add: digit_def)

lemma digit_is_digit [simp]: "n < 10 \<Longrightarrow> is_digit (digit n)"
  by (simp add: is_digit_def)

lemma nul_not_digit [simp]: "\<not> is_digit nul"
  by (simp add: is_digit_def nul_def)

lemma show_nat_digits: "c \<in> set (show_nat n) \<Longrightarrow> is_digit c"
  by (induction n rule: show_nat.induct) (subst (asm) (2) show_nat.simps, auto split: if_splits)

lemma show_nat_not_Nil [simp]: "show_nat n \<noteq> []"
  by (subst show_nat.simps) simp

lemma no_nul_show_nat [simp]: "no_nul (show_nat n)"
  using show_nat_digits [of nul n] by (auto simp: no_nul_def)

lemma no_nul_show_int [simp]: "no_nul (show_int x)"
  by (simp add: show_int_def nul_def)

lemma show_nat_length: "n < 10 ^ Suc k \<Longrightarrow> length (show_nat n) \<le> Suc k"
proof (induction k arbitrary: n)
  case 0
  then show ?case by (subst show_nat.simps) simp
next
  case (Suc k)
  show ?case
  proof (cases "n < 10")
    case False
    from Suc.prems have "n div 10 < 10 ^ Suc k" by (simp add: less_mult_imp_div_less)
    with False Suc.IH [of "n div 10"] show ?thesis by (subst show_nat.simps) simp
  qed (subst show_nat.simps, simp)
qed

lemma show_int_length: "in_i32 x \<Longrightarrow> length (show_int x) \<le> 11"
proof -
  assume x: "in_i32 x"
  then have "nat x < 10 ^ Suc 9" "nat (- x) < 10 ^ Suc 9"
    by (auto simp: in_i32_def)
  from this [THEN show_nat_length] show ?thesis
    by (simp add: show_int_def)
qed

section \<open>Decimal input\<close>

fun read_digits :: "nat \<Rightarrow> string \<Rightarrow> nat \<times> string" where
  "read_digits acc [] = (acc, [])"
| "read_digits acc (c # cs) =
     (if is_digit c then read_digits (10 * acc + (of_char c - 48)) cs else (acc, c # cs))"

definition parse_digits :: "string \<Rightarrow> (nat \<times> string) option" where
  "parse_digits s =
     (case s of [] \<Rightarrow> None | c # cs \<Rightarrow> if is_digit c then Some (read_digits 0 s) else None)"

definition parse_int :: "string \<Rightarrow> (int \<times> string) option" where
  "parse_int s =
     (let t = dropWhile is_space s in
      if t \<noteq> [] \<and> hd t = CHR ''-'' then map_option (\<lambda>(n, r). (clamp32 (- int n), r)) (parse_digits (tl t))
      else if t \<noteq> [] \<and> hd t = CHR ''+'' then map_option (\<lambda>(n, r). (clamp32 (int n), r)) (parse_digits (tl t))
      else map_option (\<lambda>(n, r). (clamp32 (int n), r)) (parse_digits t))"

definition atoi :: "string \<Rightarrow> int" where
  "atoi s = (case parse_int s of None \<Rightarrow> 0 | Some (v, _) \<Rightarrow> v)"

text \<open>\<open>sscanf\<close> with \<open>n\<close> conversions \<open>%d\<close>: the values converted before the first failure.\<close>

fun scan_ints :: "nat \<Rightarrow> string \<Rightarrow> int list" where
  "scan_ints 0 s = []"
| "scan_ints (Suc n) s =
     (case parse_int s of None \<Rightarrow> [] | Some (v, r) \<Rightarrow> v # scan_ints n r)"

lemma read_digits_append:
  "(\<And>c. c \<in> set s \<Longrightarrow> is_digit c) \<Longrightarrow>
   read_digits acc (s @ rest) = read_digits (fst (read_digits acc s)) rest"
  by (induction s arbitrary: acc) auto

lemma read_digits_show_nat: "fst (read_digits 0 (show_nat n)) = n"
proof (induction n rule: show_nat.induct)
  case (1 n)
  show ?case
  proof (cases "n < 10")
    case False
    then show ?thesis
      using 1 by (subst show_nat.simps) (simp add: read_digits_append [OF show_nat_digits])
  qed (subst show_nat.simps, simp)
qed

lemma read_digits_stop:
  "rest = [] \<or> \<not> is_digit (hd rest) \<Longrightarrow> read_digits n rest = (n, rest)"
  by (cases rest) auto

lemma parse_digits_show_nat:
  assumes "rest = [] \<or> \<not> is_digit (hd rest)"
  shows "parse_digits (show_nat n @ rest) = Some (n, rest)"
proof -
  obtain c cs where sn: "show_nat n = c # cs" by (cases "show_nat n") auto
  have "is_digit c" using show_nat_digits [of c n] sn by simp
  moreover have "read_digits 0 (show_nat n @ rest) = (n, rest)"
    using assms
    by (simp add: read_digits_append [OF show_nat_digits] read_digits_show_nat read_digits_stop)
  ultimately show ?thesis using sn by (simp add: parse_digits_def)
qed

lemma hd_show_nat: "is_digit (hd (show_nat n))"
  by (rule show_nat_digits [of _ n]) simp

lemma digit_not_special: "is_digit c \<Longrightarrow> \<not> is_space c \<and> c \<noteq> CHR ''-'' \<and> c \<noteq> CHR ''+''"
  by (auto simp: is_digit_def is_space_def)

text \<open>Printing an \<open>int\<close> with \<open>%d\<close> and reading it back is the identity.\<close>

lemma parse_int_show_int:
  assumes "in_i32 x" and rest: "rest = [] \<or> \<not> is_digit (hd rest)"
  shows "parse_int (show_int x @ rest) = Some (x, rest)"
proof (cases "x < 0")
  case True
  then have "show_int x = CHR ''-'' # show_nat (nat (- x))" by (simp add: show_int_def)
  moreover have "\<not> is_space (CHR ''-'')" by (simp add: is_space_def)
  ultimately show ?thesis
    using True assms(1) parse_digits_show_nat [OF rest, of "nat (- x)"]
    by (simp add: parse_int_def)
next
  case False
  obtain c cs where sn: "show_nat (nat x) = c # cs" by (cases "show_nat (nat x)") auto
  then have "is_digit c" using hd_show_nat [of "nat x"] by simp
  then show ?thesis
    using False assms(1) sn digit_not_special [of c] parse_digits_show_nat [OF rest, of "nat x"]
    by (simp add: parse_int_def show_int_def)
qed

lemma atoi_show_int:
  "in_i32 x \<Longrightarrow> rest = [] \<or> \<not> is_digit (hd rest) \<Longrightarrow> atoi (show_int x @ rest) = x"
  by (simp add: atoi_def parse_int_show_int)

lemma parse_int_skip_space: "is_space c \<Longrightarrow> parse_int (c # s) = parse_int s"
  by (simp add: parse_int_def)

lemma parse_digits_bound: "parse_digits s = Some (n, r) \<Longrightarrow> length r < length s"
proof -
  have "length (snd (read_digits acc t)) \<le> length t" for acc t
    by (induction acc t rule: read_digits.induct) (auto simp: le_SucI)
  from this [of "0 * 10 + _" "tl s"] show "parse_digits s = Some (n, r) \<Longrightarrow> length r < length s"
    by (cases s) (auto simp: parse_digits_def split: if_splits, metis less_Suc_eq_le snd_conv)
qed

lemma parse_int_i32: "parse_int s = Some (v, r) \<Longrightarrow> in_i32 v"
  by (auto simp: parse_int_def Let_def split: if_splits)

lemma atoi_i32 [simp]: "in_i32 (atoi s)"
  by (auto simp: atoi_def dest: parse_int_i32 split: option.split)

lemma scan_ints_i32: "v \<in> set (scan_ints n s) \<Longrightarrow> in_i32 v"
proof (induction n arbitrary: s)
  case (Suc n)
  then show ?case by (cases "parse_int s") (auto dest: parse_int_i32)
qed simp

lemma scan_ints_length: "length (scan_ints n s) \<le> n"
  by (induction n s rule: scan_ints.induct) (auto split: option.split)

text \<open>A list of values printed one per line, as every reply of the server is.\<close>

definition lines_of :: "int list \<Rightarrow> string" where
  "lines_of xs = concat (map (\<lambda>x. show_int x @ [CHR 0x0A]) xs)"

lemma is_space_newline [simp]: "is_space (CHR 0x0A)"
  by (simp add: is_space_def)

lemma scan_ints_newline: "scan_ints n (CHR 0x0A # s) = scan_ints n s"
  by (cases n) (simp_all add: parse_int_skip_space)

lemma scan_ints_lines_of:
  "(\<And>x. x \<in> set xs \<Longrightarrow> in_i32 x) \<Longrightarrow> scan_ints (length xs) (lines_of xs) = xs"
proof (induction xs)
  case (Cons x xs)
  have "parse_int (show_int x @ CHR 0x0A # lines_of xs) = Some (x, CHR 0x0A # lines_of xs)"
    using Cons.prems by (intro parse_int_show_int) (auto simp: is_digit_def)
  then show ?case
    using Cons by (simp add: lines_of_def scan_ints_newline)
qed (simp add: lines_of_def)

section \<open>Searching\<close>

text \<open>\<open>strstr\<close>: the position of the first occurrence.\<close>

fun starts_with :: "string \<Rightarrow> string \<Rightarrow> bool" where
  "starts_with [] s = True"
| "starts_with (p # ps) [] = False"
| "starts_with (p # ps) (c # cs) = (p = c \<and> starts_with ps cs)"

fun strstr :: "string \<Rightarrow> string \<Rightarrow> nat option" where
  "strstr [] pat = (if pat = [] then Some 0 else None)"
| "strstr (c # cs) pat =
     (if starts_with pat (c # cs) then Some 0 else map_option Suc (strstr cs pat))"

lemma starts_with_iff: "starts_with p s \<longleftrightarrow> (\<exists>r. s = p @ r)"
  by (induction p s rule: starts_with.induct) auto

lemma strstr_Some: "strstr s pat = Some n \<Longrightarrow> \<exists>r. s = take n s @ pat @ r \<and> n + length pat \<le> length s"
proof (induction s pat arbitrary: n rule: strstr.induct)
  case (2 c cs pat)
  then show ?case
  proof (cases "starts_with pat (c # cs)")
    case True
    then obtain r where r: "c # cs = pat @ r" by (auto simp: starts_with_iff)
    then have "length pat \<le> length (c # cs)" by simp
    moreover from 2 True have "n = 0" by simp
    ultimately show ?thesis using r by auto
  next
    case False
    with 2 obtain m where "strstr cs pat = Some m" "n = Suc m" by auto
    with 2 False show ?thesis by auto
  qed
qed (auto split: if_splits)

lemma strstr_first: "strstr s pat = Some n \<Longrightarrow> k < n \<Longrightarrow> \<not> starts_with pat (drop k s)"
proof (induction s pat arbitrary: n k rule: strstr.induct)
  case (2 c cs pat)
  then show ?case
    by (cases k) (auto split: if_splits)
qed (auto split: if_splits)

end
