(* ===== verification/Itoa.thy ===== *)
theory Itoa
  imports CString
begin

text \<open>
  \<^verbatim>\<open>lib/itoa.c\<close>: \<open>reverse\<close> and \<open>itoa\<close>, on an explicit character buffer. A store past the
  end of the buffer and a \<open>strlen\<close> that finds no zero byte are errors. \<open>itoa\<close> calls
  \<open>reverse\<close> before it terminates the string, so its result depends on the bytes that
  were in the buffer before the call; the lemmas say exactly when it is right.
\<close>

section \<open>The operations\<close>

text \<open>The swapping loop of \<open>reverse\<close>: \<open>src\<close> and \<open>dst\<close> are offsets into the buffer.\<close>

function reverse_loop :: "nat \<Rightarrow> nat \<Rightarrow> char list \<Rightarrow> char list" where
  "reverse_loop src dst buf =
     (if src < dst then reverse_loop (Suc src) (dst - 1) (buf[src := buf ! dst, dst := buf ! src])
      else buf)"
  by pat_completeness auto
termination
  by (relation "measure (\<lambda>(src, dst, buf). dst - src)") auto

declare reverse_loop.simps [simp del]

definition reverse :: "char list option \<Rightarrow> char list option result" where
  "reverse str =
     (case str of None \<Rightarrow> Inr None
      | Some buf \<Rightarrow>
          (case c_str buf of None \<Rightarrow> Inl Unterminated
           | Some s \<Rightarrow>
               (let len = length s in
                if len > 1 then Inr (Some (reverse_loop 0 (len - 1) buf)) else Inr (Some buf))))"

definition put_char :: "nat \<Rightarrow> char \<Rightarrow> char list \<Rightarrow> char list result" where
  "put_char i c buf = (if i < length buf then Inr (buf[i := c]) else Inl BufferOverflow)"

text \<open>
  The \<open>do\<close> loop that generates the digits, in reverse order. \<open>n % 10 + '0'\<close> is stored in
  a \<open>char\<close>; for the smallest \<open>int\<close>, whose negation wraps to itself, it is not a digit.
\<close>

function itoa_digits :: "int \<Rightarrow> nat \<Rightarrow> char list \<Rightarrow> (nat \<times> char list) result" where
  "itoa_digits n i s =
     rbind (put_char i (char_of (n smod 10 + 48)) s)
       (\<lambda>s'. if n sdiv 10 > 0 then itoa_digits (n sdiv 10) (Suc i) s' else Inr (Suc i, s'))"
  by pat_completeness auto
termination
proof (relation "measure (\<lambda>(n, i, s). nat n)")
  fix n :: int and i :: nat and s s' :: "char list"
  assume "0 < n sdiv 10"
  then have "0 < n" and "n sdiv 10 = n div 10"
    by (auto simp: signed_divide_int_def sgn_if split: if_splits)
  then show "((n sdiv 10, Suc i, s'), n, i, s) \<in> measure (\<lambda>(n, i, s). nat n)"
    by simp
qed simp

declare itoa_digits.simps [simp del]

definition itoa :: "int \<Rightarrow> char list \<Rightarrow> char list result" where
  "itoa n s =
     (let sign = n; n = (if n < 0 then wrap32 (- n) else n) in
      rbind (itoa_digits n 0 s) (\<lambda>(i, s).
      rbind (if sign < 0 then rbind (put_char i (CHR ''-'') s) (\<lambda>s. Inr (Suc i, s)) else Inr (i, s)) (\<lambda>(i, s).
      rbind (reverse (Some s)) (\<lambda>r. put_char i nul (the r)))))"

section \<open>reverse reverses the string and leaves the rest of the buffer alone\<close>

lemma reverse_loop_window:
  "reverse_loop (length p) (length p + length m - 1) (p @ m @ q) = p @ rev m @ q"
proof (induction "length m" arbitrary: p m q rule: less_induct)
  case less
  show ?case
  proof (cases "length m < 2")
    case True
    then have "rev m = m" by (cases m) (auto simp: Suc_le_eq)
    with True show ?thesis by (subst reverse_loop.simps) auto
  next
    case False
    then obtain a m' b where m: "m = a # m' @ [b]"
      by (cases m; cases "tl m" rule: rev_cases) auto
    have "reverse_loop (length p) (length p + length m - 1) (p @ m @ q) =
          reverse_loop (length (p @ [b])) (length (p @ [b]) + length m' - 1) ((p @ [b]) @ m' @ a # q)"
      by (subst reverse_loop.simps)
        (cases m', auto simp: m nth_append list_update_append split: nat.split)
    also have "\<dots> = (p @ [b]) @ rev m' @ a # q"
      by (rule less) (simp add: m)
    finally show ?thesis by (simp add: m)
  qed
qed

lemma reverse_spec:
  assumes "no_nul s"
  shows "reverse (Some (s @ nul # rest)) = Inr (Some (rev s @ nul # rest))"
  using assms reverse_loop_window [of "[]" s "nul # rest"]
  by (cases s; cases "tl s") (auto simp: reverse_def Let_def)

section \<open>The digits\<close>

lemma itoa_digits_spec:
  assumes "0 \<le> n" and "i + length (show_nat (nat n)) \<le> length s"
  shows "itoa_digits n i s =
    Inr (i + length (show_nat (nat n)),
         take i s @ rev (show_nat (nat n)) @ drop (i + length (show_nat (nat n))) s)"
  using assms
proof (induction n i s rule: itoa_digits.induct)
  case (1 n i s)
  have q: "n sdiv 10 = n div 10" "n smod 10 = n mod 10" "nat (n div 10) = nat n div 10"
    using 1(2) by (auto simp: signed_divide_int_def signed_modulo_int_def sgn_if nat_div_distrib)
  have c: "(char_of (n mod 10 + 48) :: char) = digit (nat n mod 10)"
  proof -
    have "n mod 10 + 48 = int (48 + nat n mod 10)" using 1(2) by (simp add: zmod_int)
    then show ?thesis by (simp only: digit_def char_of_nat)
  qed
  show ?case
  proof (cases "n < 10")
    case True
    then have sn: "show_nat (nat n) = [digit (nat n)]" and "char_of (n + 48) = digit (nat n)"
      using 1(2) c by (subst show_nat.simps, simp_all)
    with True 1(2,3) show ?thesis
      by (subst itoa_digits.simps)
        (simp add: q c put_char_def take_Suc_conv_app_nth upd_conv_take_nth_drop)
  next
    case False
    let ?d = "digit (nat n mod 10)" and ?s = "s[i := digit (nat n mod 10)]"
    have sn: "show_nat (nat n) = show_nat (nat (n div 10)) @ [?d]"
      using False by (subst show_nat.simps) (simp add: q)
    have i: "i < length s" using 1(3) by (auto simp: sn)
    have pos: "0 < n sdiv 10" using False by (simp add: q)
    have "itoa_digits n i s = itoa_digits (n sdiv 10) (Suc i) ?s"
      using pos i by (subst itoa_digits.simps) (simp add: put_char_def q c)
    also have "\<dots> = Inr (Suc i + length (show_nat (nat (n sdiv 10))),
         take (Suc i) ?s @ rev (show_nat (nat (n sdiv 10))) @
         drop (Suc i + length (show_nat (nat (n sdiv 10)))) ?s)"
      using 1(3) pos i
      by (intro 1(1) [where x = ?s]) (auto simp: put_char_def q c sn)
    finally show ?thesis
      using i by (simp add: sn q take_Suc_conv_app_nth)
  qed
qed

text \<open>
  The buffer after the digits and the sign, before the call of \<open>reverse\<close>: the text is
  backwards and what follows it is whatever the buffer held before.
\<close>

lemma itoa_unfold:
  assumes n: "in_i32 n" "n \<noteq> -2147483648" and len: "length (show_int n) < length s"
  shows "itoa n s =
    rbind (reverse (Some (rev (show_int n) @ drop (length (show_int n)) s)))
      (\<lambda>r. put_char (length (show_int n)) nul (the r))"
proof (cases "n < 0")
  case True
  then have "wrap32 (- n) = - n" using n by (simp add: in_i32_def)
  moreover have "itoa_digits (- n) 0 s = Inr (length (show_nat (nat (- n))),
      rev (show_nat (nat (- n))) @ drop (length (show_nat (nat (- n)))) s)"
    using True len itoa_digits_spec [of "- n" 0 s] by (simp add: show_int_def)
  ultimately show ?thesis
    using True len
    by (simp add: itoa_def Let_def show_int_def put_char_def list_update_append
        upd_conv_take_nth_drop)
next
  case False
  then show ?thesis
    using len itoa_digits_spec [of n 0 s] by (simp add: itoa_def Let_def show_int_def)
qed

lemma reverse_unterminated_prefix:
  assumes "no_nul s" and "no_nul t"
  shows "reverse (Some (s @ t @ nul # rest)) = Inr (Some (rev t @ rev s @ nul # rest))"
  using reverse_spec [of "s @ t" rest] assms by simp

lemma itoa_general:
  assumes n: "in_i32 n" "n \<noteq> -2147483648"
    and s: "s = p @ t @ nul # rest" "length p = length (show_int n)" "no_nul t"
  shows "itoa n s =
    Inr (take (length (show_int n)) (rev t @ show_int n) @ nul #
         drop (Suc (length (show_int n))) (rev t @ show_int n @ nul # rest))"
proof -
  have "itoa n s = rbind (reverse (Some (rev (show_int n) @ t @ nul # rest)))
      (\<lambda>r. put_char (length (show_int n)) nul (the r))"
    using s by (subst itoa_unfold [OF n]) auto
  also have "\<dots> = put_char (length (show_int n)) nul (rev t @ show_int n @ nul # rest)"
    using reverse_unterminated_prefix [of "rev (show_int n)" t rest] s by simp
  finally show ?thesis
    by (simp add: put_char_def upd_conv_take_nth_drop)
qed

lemma itoa_clean:
  assumes "in_i32 n" "n \<noteq> -2147483648" "s = p @ nul # rest" "length p = length (show_int n)"
  shows "itoa n s = Inr (show_int n @ nul # rest)"
  using itoa_general [of n s p "[]" rest] assms by simp

section \<open>Properties\<close>

text \<open>
  C30: when the byte after the text is already zero (a cleared buffer), \<open>itoa\<close> writes the
  decimal representation of every \<open>int\<close> but the smallest, and \<open>atoi\<close> reads it back.
\<close>

theorem itoa_atoi_roundtrip:
  assumes "in_i32 n" and "n \<noteq> -2147483648" and "s = p @ nul # rest"
    and "length p = length (show_int n)"
  shows "\<exists>buf. itoa n s = Inr buf \<and> length buf = length s \<and>
    map_option atoi (c_str buf) = Some n"
  using assms itoa_clean [OF assms] atoi_show_int [OF assms(1), of "[]"] by simp

theorem itoa_atoi_roundtrip_witness:
  "\<exists>buf. itoa (- 42) (replicate 12 nul) = Inr buf \<and> length buf = 12 \<and>
    map_option atoi (c_str buf) = Some (- 42)"
proof -
  have "length (show_int (- 42)) = 3" by (simp add: show_int_def show_nat.simps)
  then show ?thesis
    using itoa_atoi_roundtrip [of "- 42" "replicate 12 nul" "replicate 3 nul" "replicate 8 nul"]
    by (simp add: in_i32_def numeral_eq_Suc)
qed

end
