(* ===== verification/Kernel.thy ===== *)
theory Kernel
  imports Prelude "HOL-Library.Word"
begin

text \<open>
  The kernel level drivers of \<^verbatim>\<open>drivers/kernel-level\<close> but for the DHT11 sensor (theory
  \<open>Dht11\<close>): relay, humidifier button, fan and servo PWM, on-board LED, moisture and magnetic
  sensor; their tables and the loading of the modules are in theory \<open>Modules\<close>. A driver entry point is a function from its arguments to the return code and the
  list of calls it makes into the kernel (\<open>kcall\<close>), in order. What these calls return
  (\<open>pwm_config\<close>, \<open>copy_from_user\<close>, \<open>gpio_get_value\<close>, the registration functions) is an
  argument. An ioctl command is kept as its four fields (direction, type, number, size), as
  the macros \<open>_IO\<close> and \<open>_IOW\<close> build it and \<open>_IOC_TYPE\<close> and \<open>_IOC_NR\<close> take it apart.
\<close>

section \<open>Commands, pins and calls\<close>

datatype ioc = Ioc (ioc_dir: nat) (ioc_type: char) (ioc_nr: nat) (ioc_size: nat)

definition io :: "char \<Rightarrow> nat \<Rightarrow> ioc" where
  "io t nr = Ioc 0 t nr 0"

definition iow :: "char \<Rightarrow> nat \<Rightarrow> nat \<Rightarrow> ioc" where
  "iow t nr sz = Ioc 1 t nr sz"

datatype pin = GPG nat | GPB nat

datatype pull = PullNone | PullDown | PullUp

datatype kcall =
    GpioSet pin int
  | GpioCfg pin nat
  | GpioPull pin pull
  | GpioFree pin
  | PwmRequest nat
  | PwmFree nat
  | PwmEnable nat
  | PwmDisable nat
  | PwmConfig nat int int
  | MiscRegister string int        \<comment> \<open>with what the registration returns, 0 for success\<close>
  | MiscDeregister string
  | DriverRegister string int
  | DriverUnregister string
  | DeviceRegister string int
  | DeviceUnregister string
  | ChrdevRegister nat string int
  | ChrdevUnregister nat string
  | Sleep nat             \<comment> \<open>microseconds, of the user level callers\<close>

definition EINVAL :: int where "EINVAL = 22"
definition EFAULT :: int where "EFAULT = 14"

text \<open>\<open>struct pwm_duty_t\<close>: two 32-bit integers, eight bytes.\<close>

record pwm_duty =
  pulse_width :: int
  period :: int

definition pwm_duty_size :: nat where "pwm_duty_size = 8"

section \<open>Reading a log of calls\<close>

text \<open>
  The level a pin was driven to last, and the configuration a PWM channel was given last: what
  the driver asked for in its last \<open>pwm_config\<close>, whatever that returned.
\<close>

fun level_step :: "pin \<Rightarrow> int option \<Rightarrow> kcall \<Rightarrow> int option" where
  "level_step p v (GpioSet q x) = (if q = p then Some x else v)"
| "level_step p v (GpioFree q) = (if q = p then None else v)"
| "level_step p v _ = v"

definition gpio_level :: "pin \<Rightarrow> kcall list \<Rightarrow> int option" where
  "gpio_level p cs = foldl (level_step p) None cs"

fun pwm_step :: "nat \<Rightarrow> (int \<times> int) option \<Rightarrow> kcall \<Rightarrow> (int \<times> int) option" where
  "pwm_step ch v (PwmConfig c w p) = (if c = ch then Some (w, p) else v)"
| "pwm_step ch v (PwmFree c) = (if c = ch then None else v)"
| "pwm_step ch v _ = v"

definition pwm_setting :: "nat \<Rightarrow> kcall list \<Rightarrow> (int \<times> int) option" where
  "pwm_setting ch cs = foldl (pwm_step ch) None cs"

lemma gpio_level_simps [simp]:
  "gpio_level p [] = None"
  "gpio_level p (cs @ [c]) = level_step p (gpio_level p cs) c"
  by (simp_all add: gpio_level_def)

lemma pwm_setting_simps [simp]:
  "pwm_setting ch [] = None"
  "pwm_setting ch (cs @ [c]) = pwm_step ch (pwm_setting ch cs) c"
  by (simp_all add: pwm_setting_def)

lemma gpio_level_append: "gpio_level p (cs @ ds) = foldl (level_step p) (gpio_level p cs) ds"
  by (simp add: gpio_level_def)

lemma pwm_setting_append: "pwm_setting ch (cs @ ds) = foldl (pwm_step ch) (pwm_setting ch cs) ds"
  by (simp add: pwm_setting_def)

section \<open>Relay: mds2450_szh_rlbg_012\<close>

definition RELAY_MAGIC :: char where "RELAY_MAGIC = CHR ''k''"
definition RELAY_MAXNR :: nat where "RELAY_MAXNR = 8"
definition RELAY_DEV_PATH :: string where "RELAY_DEV_PATH = ''/dev/mds2450_relay''"
definition RELAY_DEVICE_NAME :: string where "RELAY_DEVICE_NAME = ''mds2450_relay''"

definition IN1_LOW :: ioc where "IN1_LOW = io RELAY_MAGIC 0"
definition IN1_HIGH :: ioc where "IN1_HIGH = io RELAY_MAGIC 1"
definition IN2_LOW :: ioc where "IN2_LOW = io RELAY_MAGIC 2"
definition IN2_HIGH :: ioc where "IN2_HIGH = io RELAY_MAGIC 3"
definition IN3_LOW :: ioc where "IN3_LOW = io RELAY_MAGIC 4"
definition IN3_HIGH :: ioc where "IN3_HIGH = io RELAY_MAGIC 5"
definition IN4_LOW :: ioc where "IN4_LOW = io RELAY_MAGIC 6"
definition IN4_HIGH :: ioc where "IN4_HIGH = io RELAY_MAGIC 7"

lemmas relay_cmds = IN1_LOW_def IN1_HIGH_def IN2_LOW_def IN2_HIGH_def
  IN3_LOW_def IN3_HIGH_def IN4_LOW_def IN4_HIGH_def io_def RELAY_MAGIC_def

definition relay_ioctl :: "ioc \<Rightarrow> int \<times> kcall list" where
  "relay_ioctl cmd =
     (if ioc_type cmd \<noteq> RELAY_MAGIC then (- EINVAL, [])
      else if ioc_nr cmd \<ge> RELAY_MAXNR then (- EINVAL, [])
      else (0,
        if cmd = IN1_LOW then [GpioSet (GPG 7) 0]
        else if cmd = IN1_HIGH then [GpioSet (GPG 7) 1]
        else if cmd = IN2_LOW then [GpioSet (GPG 6) 0]
        else if cmd = IN2_HIGH then [GpioSet (GPG 6) 1]
        else if cmd = IN3_LOW then [GpioSet (GPG 5) 0]
        else if cmd = IN3_HIGH then [GpioSet (GPG 5) 1]
        else if cmd = IN4_LOW then [GpioSet (GPG 4) 0]
        else if cmd = IN4_HIGH then [GpioSet (GPG 4) 1]
        else []))"

definition RELAY_probe :: "int \<times> kcall list" where
  "RELAY_probe = (0,
     [GpioCfg (GPG 4) 1, GpioCfg (GPG 5) 1, GpioCfg (GPG 6) 1, GpioCfg (GPG 7) 1,
      GpioSet (GPG 4) 1, GpioSet (GPG 5) 1, GpioSet (GPG 6) 1, GpioSet (GPG 7) 1])"

definition RELAY_remove :: "int \<times> kcall list" where
  "RELAY_remove = (0, [GpioFree (GPG 4), GpioFree (GPG 5), GpioFree (GPG 6), GpioFree (GPG 7)])"

section \<open>Humidifier button: mds2450_humidifier\<close>

definition HUMIDIFIER_MAGIC :: char where "HUMIDIFIER_MAGIC = CHR ''k''"
definition HUMIDIFIER_MAXNR :: nat where "HUMIDIFIER_MAXNR = 2"
definition HUMIDIFIER_PATH :: string where "HUMIDIFIER_PATH = ''/dev/mds2450_humidifier''"
definition HUMIDIFIER_DEVICE_NAME :: string where "HUMIDIFIER_DEVICE_NAME = ''mds2450_humidifier''"
definition HUMIDIFIER_LOW :: ioc where "HUMIDIFIER_LOW = io HUMIDIFIER_MAGIC 0"
definition HUMIDIFIER_HIGH :: ioc where "HUMIDIFIER_HIGH = io HUMIDIFIER_MAGIC 1"

definition humidifier_ioctl :: "ioc \<Rightarrow> int \<times> kcall list" where
  "humidifier_ioctl cmd =
     (if ioc_type cmd \<noteq> HUMIDIFIER_MAGIC then (- EINVAL, [])
      else if ioc_nr cmd \<ge> HUMIDIFIER_MAXNR then (- EINVAL, [])
      else (0,
        if cmd = HUMIDIFIER_LOW then [GpioSet (GPG 15) 0]
        else if cmd = HUMIDIFIER_HIGH then [GpioSet (GPG 15) 1]
        else []))"

definition humidifier_probe :: "int \<times> kcall list" where
  "humidifier_probe = (0, [GpioCfg (GPG 15) 1, GpioSet (GPG 15) 1])"

definition humidifier_remove :: "int \<times> kcall list" where
  "humidifier_remove = (0, [GpioFree (GPG 15)])"

section \<open>Fan: mds2450_leadcool120\<close>

definition PWM_FAN_PERIOD :: int where "PWM_FAN_PERIOD = 40000"

definition PWM_FAN_SPEED :: "int \<Rightarrow> int" where
  "PWM_FAN_SPEED x = 4000 * (if x > 10 then 10 else if x < 0 then 0 else x)"

definition PWM_FAN_IOCTL_MAGIC :: char where "PWM_FAN_IOCTL_MAGIC = CHR ''p''"
definition PWM_FAN_IOCTL_MAXNR :: nat where "PWM_FAN_IOCTL_MAXNR = 3"
definition PWM_FAN_PATH :: string where "PWM_FAN_PATH = ''/dev/mds2450_leadcool120''"
definition FAN_DEVICE_NAME :: string where "FAN_DEVICE_NAME = ''mds2450_leadcool120''"
definition PWM_FAN_ENABLE :: ioc where "PWM_FAN_ENABLE = io PWM_FAN_IOCTL_MAGIC 0"
definition PWM_FAN_DISABLE :: ioc where "PWM_FAN_DISABLE = io PWM_FAN_IOCTL_MAGIC 1"
definition PWM_FAN_DUTYRATE :: ioc where
  "PWM_FAN_DUTYRATE = iow PWM_FAN_IOCTL_MAGIC 2 pwm_duty_size"

text \<open>
  What \<open>pwm_request\<close> returns: the device of a channel, or, as its documentation says, an error
  number encoded as a pointer (\<open>ERR_PTR\<close>). The drivers compare it with NULL only.
\<close>

datatype pwm_ptr = PwmNull | PwmDevice nat | PwmError int

text \<open>\<open>dev\<close> is what \<open>pwm_request\<close> returns.\<close>

definition FAN_open :: "pwm_ptr \<Rightarrow> int \<times> kcall list" where
  "FAN_open dev = (if dev = PwmNull then (-1, [PwmRequest 3]) else (0, [PwmRequest 3]))"

definition FAN_release :: "nat \<Rightarrow> int \<times> kcall list" where
  "FAN_release dev = (0, [PwmFree dev])"

text \<open>
  \<open>duty\<close> is the structure copied from user space, \<open>None\<close> when \<open>copy_from_user\<close> fails;
  \<open>cfg\<close> is what \<open>pwm_config\<close> returns for a channel, pulse width and period.
\<close>

definition FAN_ioctl ::
    "(nat \<Rightarrow> int \<Rightarrow> int \<Rightarrow> int) \<Rightarrow> nat \<Rightarrow> ioc \<Rightarrow> pwm_duty option \<Rightarrow> int \<times> kcall list" where
  "FAN_ioctl cfg dev cmd duty =
     (if ioc_type cmd \<noteq> PWM_FAN_IOCTL_MAGIC \<or> ioc_nr cmd \<ge> PWM_FAN_IOCTL_MAXNR
      then (- EINVAL, [])
      else if cmd = PWM_FAN_ENABLE then (0, [PwmEnable dev])
      else if cmd = PWM_FAN_DISABLE then (0, [PwmDisable dev])
      else if cmd = PWM_FAN_DUTYRATE then
        (case duty of None \<Rightarrow> (-1, [])
         | Some d \<Rightarrow>
            (if cfg dev (pulse_width d) (period d) < 0
             then (-1, [PwmConfig dev (pulse_width d) (period d)])
             else (0, [PwmConfig dev (pulse_width d) (period d)])))
      else (0, []))"

definition FAN_probe :: "int \<times> kcall list" where
  "FAN_probe = (0, [GpioCfg (GPB 3) 2, GpioPull (GPB 3) PullDown])"

definition FAN_remove :: "int \<times> kcall list" where
  "FAN_remove = (0, [GpioFree (GPB 3)])"

section \<open>Servo: mds2450_mg995 and mds2450_sg90\<close>

definition MG995_PWM_IOCTL_MAGIC :: char where "MG995_PWM_IOCTL_MAGIC = CHR ''p''"
definition MG995_PWM_PERIOD :: int where "MG995_PWM_PERIOD = 20000000"
definition MG995_PWM_DEGREE_0 :: int where "MG995_PWM_DEGREE_0 = 400000"
definition MG995_PWM_DEGREE_45 :: int where "MG995_PWM_DEGREE_45 = 900000"
definition MG995_PWM_DEGREE_90 :: int where "MG995_PWM_DEGREE_90 = 1450000"
definition MG995_PWM_DEGREE_135 :: int where "MG995_PWM_DEGREE_135 = 1950000"
definition MG995_PWM_DEGREE_180 :: int where "MG995_PWM_DEGREE_180 = 2400000"
definition MG995_PWM_IOCTL_MAXNR :: nat where "MG995_PWM_IOCTL_MAXNR = 3"
definition MG995_PWM_PATH :: string where "MG995_PWM_PATH = ''/dev/mds2450_mg995''"
definition MG995_DEVICE_NAME :: string where "MG995_DEVICE_NAME = ''mds2450_mg995''"
definition MG995_PWM_ENABLE :: ioc where "MG995_PWM_ENABLE = io MG995_PWM_IOCTL_MAGIC 0"
definition MG995_PWM_DISABLE :: ioc where "MG995_PWM_DISABLE = io MG995_PWM_IOCTL_MAGIC 1"
definition MG995_PWM_DUTYRATE :: ioc where
  "MG995_PWM_DUTYRATE = iow MG995_PWM_IOCTL_MAGIC 2 pwm_duty_size"

definition MG995_open :: "pwm_ptr \<Rightarrow> int \<times> kcall list" where
  "MG995_open dev = (if dev = PwmNull then (-1, [PwmRequest 2]) else (0, [PwmRequest 2]))"

definition MG995_release :: "nat \<Rightarrow> int \<times> kcall list" where
  "MG995_release dev = (0, [PwmFree dev])"

definition MG995_ioctl ::
    "(nat \<Rightarrow> int \<Rightarrow> int \<Rightarrow> int) \<Rightarrow> nat \<Rightarrow> ioc \<Rightarrow> pwm_duty option \<Rightarrow> int \<times> kcall list" where
  "MG995_ioctl cfg dev cmd duty =
     (if ioc_type cmd \<noteq> MG995_PWM_IOCTL_MAGIC \<or> ioc_nr cmd \<ge> MG995_PWM_IOCTL_MAXNR
      then (- EINVAL, [])
      else if cmd = MG995_PWM_ENABLE then (0, [PwmEnable dev])
      else if cmd = MG995_PWM_DISABLE then (0, [PwmDisable dev])
      else if cmd = MG995_PWM_DUTYRATE then
        (case duty of None \<Rightarrow> (-1, [])
         | Some d \<Rightarrow>
            (if cfg dev (pulse_width d) (period d) < 0
             then (-1, [PwmConfig dev (pulse_width d) (period d)])
             else (0, [PwmConfig dev (pulse_width d) (period d)])))
      else (0, []))"

definition MG995_probe :: "int \<times> kcall list" where
  "MG995_probe = (0, [GpioCfg (GPB 2) 2, GpioPull (GPB 2) PullUp])"

definition MG995_remove :: "int \<times> kcall list" where
  "MG995_remove = (0, [GpioFree (GPB 2)])"

definition SG90_PWM_IOCTL_MAGIC :: char where "SG90_PWM_IOCTL_MAGIC = CHR ''p''"
definition SG90_PWM_PERIOD :: int where "SG90_PWM_PERIOD = 20000000"
definition SG90_PWM_DEGREE_0 :: int where "SG90_PWM_DEGREE_0 = 650000"
definition SG90_PWM_DEGREE_90 :: int where "SG90_PWM_DEGREE_90 = 1650000"
definition SG90_PWM_IOCTL_MAXNR :: nat where "SG90_PWM_IOCTL_MAXNR = 3"
definition SG90_PWM_PATH :: string where "SG90_PWM_PATH = ''/dev/mds2450_sg90''"
definition SG90_PWM_MAJOR :: nat where "SG90_PWM_MAJOR = 30"
definition SG90_PWM_ENABLE :: ioc where "SG90_PWM_ENABLE = io SG90_PWM_IOCTL_MAGIC 0"
definition SG90_PWM_DISABLE :: ioc where "SG90_PWM_DISABLE = io SG90_PWM_IOCTL_MAGIC 1"
definition SG90_PWM_DUTYRATE :: ioc where
  "SG90_PWM_DUTYRATE = iow SG90_PWM_IOCTL_MAGIC 2 pwm_duty_size"

definition SG90_ioctl ::
    "(nat \<Rightarrow> int \<Rightarrow> int \<Rightarrow> int) \<Rightarrow> nat \<Rightarrow> ioc \<Rightarrow> pwm_duty option \<Rightarrow> int \<times> kcall list" where
  "SG90_ioctl cfg dev cmd duty =
     (if ioc_type cmd \<noteq> SG90_PWM_IOCTL_MAGIC \<or> ioc_nr cmd \<ge> SG90_PWM_IOCTL_MAXNR
      then (- EINVAL, [])
      else if cmd = SG90_PWM_ENABLE then (0, [PwmEnable dev])
      else if cmd = SG90_PWM_DISABLE then (0, [PwmDisable dev])
      else if cmd = SG90_PWM_DUTYRATE then
        (case duty of None \<Rightarrow> (-1, [])
         | Some d \<Rightarrow>
            (if cfg dev (pulse_width d) (period d) < 0
             then (-1, [PwmConfig dev (pulse_width d) (period d)])
             else (0, [PwmConfig dev (pulse_width d) (period d)])))
      else (0, []))"

definition SG90_open :: "pwm_ptr \<Rightarrow> int \<times> kcall list" where
  "SG90_open dev = (if dev = PwmNull then (-1, [PwmRequest 2]) else (0, [PwmRequest 2]))"

definition SG90_release :: "nat \<Rightarrow> int \<times> kcall list" where
  "SG90_release dev = (0, [PwmFree dev])"

text \<open>\<open>ret\<close> is what \<open>register_chrdev\<close> (here and below: the registration call) returns.\<close>

definition SG90_probe :: "int \<Rightarrow> int \<times> kcall list" where
  "SG90_probe ret =
     (ret, [GpioCfg (GPB 2) 2, GpioPull (GPB 2) PullUp, ChrdevRegister SG90_PWM_MAJOR ''mds2450_sg90'' ret])"

definition SG90_remove :: "int \<times> kcall list" where
  "SG90_remove = (0, [ChrdevUnregister SG90_PWM_MAJOR ''mds2450_sg90''])"

definition SG90_init :: "int \<Rightarrow> int \<times> kcall list" where
  "SG90_init ret = (ret, [DriverRegister ''mds2450_sg90'' ret])"

definition SG90_exit :: "kcall list" where
  "SG90_exit = [DriverUnregister ''mds2450_sg90'']"

section \<open>On-board LEDs: mds2450_led_onboard\<close>

definition LED_ONBOARD_MAGIC :: char where "LED_ONBOARD_MAGIC = CHR ''l''"
definition LED_ONBOARD_MAXNR :: nat where "LED_ONBOARD_MAXNR = 3"
definition LED_ONBOARD_MAJOR :: nat where "LED_ONBOARD_MAJOR = 31"
definition LED_ONBOARD_OFF :: ioc where "LED_ONBOARD_OFF = io LED_ONBOARD_MAGIC 0"
definition LED_ONBOARD_ON :: ioc where "LED_ONBOARD_ON = io LED_ONBOARD_MAGIC 1"
definition LED_ONBOARD_TOGGLE :: ioc where "LED_ONBOARD_TOGGLE = io LED_ONBOARD_MAGIC 2"

text \<open>\<open>get\<close> is \<open>gpio_get_value\<close>; \<open>arg\<close> is the number of the pin in port G.\<close>

definition mds2450_led_ioctl :: "(pin \<Rightarrow> int) \<Rightarrow> ioc \<Rightarrow> nat \<Rightarrow> int \<times> kcall list" where
  "mds2450_led_ioctl get cmd arg =
     (if ioc_type cmd \<noteq> LED_ONBOARD_MAGIC \<or> ioc_nr cmd \<ge> LED_ONBOARD_MAXNR then (- EINVAL, [])
      else (0,
        if cmd = LED_ONBOARD_OFF then [GpioSet (GPG arg) 1]
        else if cmd = LED_ONBOARD_ON then [GpioSet (GPG arg) 0]
        else if cmd = LED_ONBOARD_TOGGLE then [GpioSet (GPG arg) (xor (get (GPG arg)) 1)]
        else []))"

definition mds2450_led_open :: "int \<times> kcall list" where
  "mds2450_led_open = (0,
     [GpioSet (GPG 4) 1, GpioSet (GPG 5) 1, GpioSet (GPG 6) 1, GpioSet (GPG 7) 1,
      GpioCfg (GPG 4) 1, GpioCfg (GPG 5) 1, GpioCfg (GPG 6) 1, GpioCfg (GPG 7) 1,
      GpioPull (GPG 4) PullNone, GpioPull (GPG 5) PullNone,
      GpioPull (GPG 6) PullNone, GpioPull (GPG 7) PullNone])"

definition mds2450_led_release :: "int \<times> kcall list" where
  "mds2450_led_release =
     (0, [GpioSet (GPG 4) 1, GpioSet (GPG 5) 1, GpioSet (GPG 6) 1, GpioSet (GPG 7) 1])"

definition mds2450_led_probe :: "int \<Rightarrow> int \<times> kcall list" where
  "mds2450_led_probe ret = (ret, [ChrdevRegister LED_ONBOARD_MAJOR ''mds2450_led_onboard'' ret])"

definition mds2450_led_remove :: "int \<times> kcall list" where
  "mds2450_led_remove = (0, [ChrdevUnregister LED_ONBOARD_MAJOR ''mds2450_led_onboard''])"

definition mds2450_led_init :: "int \<Rightarrow> int \<times> kcall list" where
  "mds2450_led_init ret = (ret, [DriverRegister ''mds2450_led_onboard'' ret])"

definition mds2450_led_exit :: "kcall list" where
  "mds2450_led_exit = [DriverUnregister ''mds2450_led_onboard'']"

section \<open>Moisture and magnetic sensor: mds2450_fc_28 and mds2450_szh_ssbh_040\<close>

text \<open>The sensors answer \<open>read\<close> with the level of a pin as the return value.\<close>

definition soil_read :: "(pin \<Rightarrow> int) \<Rightarrow> int" where
  "soil_read get = get (GPG 2)"

definition soil_probe :: "int \<times> kcall list" where
  "soil_probe = (0, [GpioCfg (GPG 2) 0])"

definition soil_remove :: "int \<times> kcall list" where
  "soil_remove = (0, [GpioFree (GPG 2)])"

definition MAGNETIC_read :: "(pin \<Rightarrow> int) \<Rightarrow> int" where
  "MAGNETIC_read get = get (GPG 3)"

definition MAGNETIC_probe :: "int \<times> kcall list" where
  "MAGNETIC_probe = (0, [GpioCfg (GPG 3) 0])"

definition MAGNETIC_remove :: "int \<times> kcall list" where
  "MAGNETIC_remove = (0, [GpioFree (GPG 3)])"

definition MOISTURE_DEV_PATH :: string where "MOISTURE_DEV_PATH = ''/dev/mds2450_fc_28''"
definition SOIL_DEVICE_NAME :: string where "SOIL_DEVICE_NAME = ''mds2450_fc_28''"
definition MAGNETIC_DEV_PATH :: string where "MAGNETIC_DEV_PATH = ''/dev/mds2450_szh_ssbh_040''"
definition MAGNETIC_DEVICE_NAME :: string where "MAGNETIC_DEVICE_NAME = ''mds2450_szh_ssbh_040''"

section \<open>Facts about the entry points\<close>

lemma relay_ioctl_rejects:
  "ioc_type cmd \<noteq> RELAY_MAGIC \<or> RELAY_MAXNR \<le> ioc_nr cmd \<Longrightarrow> relay_ioctl cmd = (- EINVAL, [])"
  by (auto simp: relay_ioctl_def)

lemma relay_ioctl_cmds [simp]:
  "relay_ioctl IN1_LOW = (0, [GpioSet (GPG 7) 0])"
  "relay_ioctl IN1_HIGH = (0, [GpioSet (GPG 7) 1])"
  "relay_ioctl IN2_LOW = (0, [GpioSet (GPG 6) 0])"
  "relay_ioctl IN2_HIGH = (0, [GpioSet (GPG 6) 1])"
  "relay_ioctl IN3_LOW = (0, [GpioSet (GPG 5) 0])"
  "relay_ioctl IN3_HIGH = (0, [GpioSet (GPG 5) 1])"
  "relay_ioctl IN4_LOW = (0, [GpioSet (GPG 4) 0])"
  "relay_ioctl IN4_HIGH = (0, [GpioSet (GPG 4) 1])"
  by (simp_all add: relay_ioctl_def relay_cmds RELAY_MAXNR_def)

lemma humidifier_ioctl_cmds [simp]:
  "humidifier_ioctl HUMIDIFIER_LOW = (0, [GpioSet (GPG 15) 0])"
  "humidifier_ioctl HUMIDIFIER_HIGH = (0, [GpioSet (GPG 15) 1])"
  by (simp_all add: humidifier_ioctl_def HUMIDIFIER_LOW_def HUMIDIFIER_HIGH_def io_def
      HUMIDIFIER_MAGIC_def HUMIDIFIER_MAXNR_def)

lemmas pwm_cmds = PWM_FAN_ENABLE_def PWM_FAN_DISABLE_def PWM_FAN_DUTYRATE_def
  PWM_FAN_IOCTL_MAGIC_def PWM_FAN_IOCTL_MAXNR_def MG995_PWM_ENABLE_def MG995_PWM_DISABLE_def
  MG995_PWM_DUTYRATE_def MG995_PWM_IOCTL_MAGIC_def MG995_PWM_IOCTL_MAXNR_def io_def iow_def

lemma FAN_ioctl_cmds [simp]:
  "FAN_ioctl cfg dev PWM_FAN_ENABLE duty = (0, [PwmEnable dev])"
  "FAN_ioctl cfg dev PWM_FAN_DISABLE duty = (0, [PwmDisable dev])"
  "snd (FAN_ioctl cfg dev PWM_FAN_DUTYRATE (Some d)) = [PwmConfig dev (pulse_width d) (period d)]"
  "fst (FAN_ioctl cfg dev PWM_FAN_DUTYRATE (Some d)) =
     (if cfg dev (pulse_width d) (period d) < 0 then -1 else 0)"
  by (simp_all add: FAN_ioctl_def pwm_cmds)

lemma MG995_ioctl_cmds [simp]:
  "MG995_ioctl cfg dev MG995_PWM_ENABLE duty = (0, [PwmEnable dev])"
  "MG995_ioctl cfg dev MG995_PWM_DISABLE duty = (0, [PwmDisable dev])"
  "snd (MG995_ioctl cfg dev MG995_PWM_DUTYRATE (Some d)) = [PwmConfig dev (pulse_width d) (period d)]"
  "fst (MG995_ioctl cfg dev MG995_PWM_DUTYRATE (Some d)) =
     (if cfg dev (pulse_width d) (period d) < 0 then -1 else 0)"
  by (simp_all add: MG995_ioctl_def pwm_cmds)

lemma MG995_SG90_same: "SG90_ioctl cfg dev cmd duty = MG995_ioctl cfg dev cmd duty"
  by (simp add: SG90_ioctl_def MG995_ioctl_def SG90_PWM_IOCTL_MAGIC_def SG90_PWM_IOCTL_MAXNR_def
      SG90_PWM_ENABLE_def SG90_PWM_DISABLE_def SG90_PWM_DUTYRATE_def pwm_cmds)

lemma PWM_FAN_SPEED_bounds: "0 \<le> PWM_FAN_SPEED x \<and> PWM_FAN_SPEED x \<le> PWM_FAN_PERIOD"
  by (simp add: PWM_FAN_SPEED_def PWM_FAN_PERIOD_def)

end
