(* ===== verification/Dht11.thy ===== *)
theory Dht11
  imports Kernel
begin

unbundle bit_operations_syntax

text \<open>
  \<^verbatim>\<open>drivers/kernel-level/mds2450_dht11.c\<close>: the driver of the humidity and temperature
  sensor, which samples the level of one pin over time. The input line is a signal: its
  level at every microsecond. Time passes in \<open>udelay\<close> and \<open>msleep\<close> only. The two loops that
  wait for the sensor's response have no exit on their timeout, so they are partial: a line
  that never changes is \<open>None\<close>.
\<close>

type_synonym signal = "nat \<Rightarrow> bool"
type_synonym u8 = "8 word"

definition DHT11_DEVICE_NAME :: string where "DHT11_DEVICE_NAME = ''mds2450_dht11''"

section \<open>The driver\<close>

text \<open>
  \<open>while (pin == lvl) { udelay(2); delay_cnt--; if (!delay_cnt) timeout; }\<close>: whether it
  timed out, and the time after.
\<close>

fun wait_while :: "signal \<Rightarrow> bool \<Rightarrow> nat \<Rightarrow> nat \<Rightarrow> bool \<times> nat" where
  "wait_while s lvl 0 t = (True, t)"
| "wait_while s lvl (Suc delay_cnt) t =
     (if s t = lvl then wait_while s lvl delay_cnt (t + 2) else (False, t))"

text \<open>The loop over the bits, \<open>i\<close> down from 7; a timeout returns \<open>(unsigned char) -1\<close>.\<close>

fun DHT11_read_bits :: "signal \<Rightarrow> nat \<Rightarrow> u8 \<Rightarrow> nat \<Rightarrow> u8 \<times> nat" where
  "DHT11_read_bits s 0 b t = (b, t)"
| "DHT11_read_bits s (Suc i) b t =
     (case wait_while s False 30 t of (timeout, t1) \<Rightarrow>
        if timeout then (- 1, t1)
        else (let t2 = t1 + 32; b' = (if s t2 then b OR push_bit i 1 else b) in
          case wait_while s True 30 t2 of (timeout, t3) \<Rightarrow>
            if timeout then (- 1, t3) else DHT11_read_bits s i b' t3))"

definition DHT11_read_byte :: "signal \<Rightarrow> nat \<Rightarrow> u8 \<times> nat" where
  "DHT11_read_byte s t = DHT11_read_bits s 8 0 t"

text \<open>
  The response loops: \<open>while (pin == lvl) { delay_cnt--; udelay(2); if (!delay_cnt) err = 1; }\<close>.
\<close>

partial_function (option) wait_response ::
    "signal \<Rightarrow> bool \<Rightarrow> int \<Rightarrow> bool \<Rightarrow> nat \<Rightarrow> (bool \<times> nat) option" where
  "wait_response s lvl delay_cnt err t =
     (if s t = lvl
      then wait_response s lvl (wrap32 (delay_cnt - 1)) (err \<or> wrap32 (delay_cnt - 1) = 0) (t + 2)
      else Some (err, t))"

fun DHT11_read_data :: "signal \<Rightarrow> nat \<Rightarrow> nat \<Rightarrow> u8 list \<times> nat" where
  "DHT11_read_data s 0 t = ([], t)"
| "DHT11_read_data s (Suc n) t =
     (case DHT11_read_byte s t of (b, t1) \<Rightarrow>
      case DHT11_read_data s n t1 of (bs, t2) \<Rightarrow> (b # bs, t2))"

definition DHT11_checksum :: "u8 list \<Rightarrow> int" where
  "DHT11_checksum databuf = sum_list (map uint (take 4 databuf))"

text \<open>
  \<open>DHT11_read\<close>, called at time \<open>t\<close> with \<open>count\<close> bytes requested; \<open>copy_fails\<close> is the
  outcome of \<open>copy_to_user\<close>. Result: the return value, the bytes handed to user space, the
  calls made on the pin. A \<open>count\<close> above five copies bytes behind \<open>databuf\<close>.
\<close>

definition pin_restore :: "kcall list" where
  "pin_restore = [GpioCfg (GPG 1) 1, GpioSet (GPG 1) 1]"

definition DHT11_read ::
    "signal \<Rightarrow> nat \<Rightarrow> bool \<Rightarrow> nat \<Rightarrow> (int \<times> u8 list \<times> kcall list) result option" where
  "DHT11_read s count copy_fails t =
     (let start = [GpioCfg (GPG 1) 1, GpioSet (GPG 1) 0, GpioSet (GPG 1) 1, GpioCfg (GPG 1) 0] in
      case wait_while s True 15 (t + 19000) of (timeout, t1) \<Rightarrow>
      if timeout then Some (Inr (- EFAULT, [], start))
      else
        (case wait_response s False 45 False t1 of None \<Rightarrow> None
         | Some (err, t2) \<Rightarrow>
            if err then Some (Inr (- EFAULT, [], start @ pin_restore))
            else
              (case wait_response s True 45 False t2 of None \<Rightarrow> None
               | Some (err, t3) \<Rightarrow>
                  if err then Some (Inr (- EFAULT, [], start @ pin_restore))
                  else
                    (case DHT11_read_data s 5 t3 of (databuf, t4) \<Rightarrow>
                       if DHT11_checksum databuf \<noteq> uint (databuf ! 4)
                       then Some (Inr (- EFAULT, [], start @ pin_restore))
                       else if count > 5 then Some (Inl BufferOverread)
                       else if copy_fails then Some (Inr (- EFAULT, [], start @ pin_restore))
                       else Some (Inr (int count, take count databuf, start @ pin_restore))))))"

definition DHT11_probe :: "int \<times> kcall list" where
  "DHT11_probe = (0, [GpioCfg (GPG 1) 1, GpioSet (GPG 1) 1])"

definition DHT11_remove :: "int \<times> kcall list" where
  "DHT11_remove = (0, [GpioFree (GPG 1)])"

section \<open>The waiting loops\<close>

text \<open>A bounded wait sees the first sample that differs, if it comes before the count is used up.\<close>

lemma wait_while_edge:
  assumes "\<And>x. t \<le> x \<Longrightarrow> x < e \<Longrightarrow> s x = lvl" and "s e \<noteq> lvl" and "s (Suc e) \<noteq> lvl"
    and "t \<le> e" and "e + 2 \<le> t + 2 * n"
  shows "\<exists>t'. wait_while s lvl n t = (False, t') \<and> e \<le> t' \<and> t' \<le> Suc e"
  using assms
proof (induction n arbitrary: t)
  case (Suc n)
  show ?case
  proof (cases "t = e")
    case True
    with Suc.prems show ?thesis by auto
  next
    case False
    then have st: "s t = lvl" using Suc.prems by simp
    show ?thesis
    proof (cases "Suc t = e")
      case True
      with Suc.prems st show ?thesis by (cases n) auto
    next
      case False
      with \<open>t \<noteq> e\<close> Suc.prems have "t + 2 \<le> e" by simp
      with Suc.IH [of "t + 2"] Suc.prems st show ?thesis by auto
    qed
  qed
qed simp

lemma wait_while_timeout:
  "(\<And>k. k < n \<Longrightarrow> s (t + 2 * k) = lvl) \<Longrightarrow> wait_while s lvl n t = (True, t + 2 * n)"
proof (induction n arbitrary: t)
  case (Suc n)
  have "s (t + 2 + 2 * k) = lvl" if "k < n" for k
    using Suc.prems [of "Suc k"] that by (simp add: add.commute)
  with Suc.IH [of "t + 2"] Suc.prems [of 0] show ?case by simp
qed simp

lemma wait_while_result:
  "wait_while s lvl n t = (timeout, t') \<Longrightarrow> t \<le> t' \<and> t' \<le> t + 2 * n \<and> (\<not> timeout \<longrightarrow> s t' \<noteq> lvl)"
  by (induction n arbitrary: t) (fastforce split: if_splits)+

text \<open>The response loops stop at the first sample that differs, and never otherwise.\<close>

lemma wait_response_stops:
  assumes "\<And>k. k < n \<Longrightarrow> s (t + 2 * k) = lvl" and "s (t + 2 * n) \<noteq> lvl"
    and "0 < c" and "c \<le> 2147483647" and "int n \<le> c + 2147483648"
  shows "wait_response s lvl c err t = Some (err \<or> c \<le> int n, t + 2 * n)"
proof -
  have "wait_response s lvl (c - int k) (err \<or> c \<le> int k) (t + 2 * k) =
      Some (err \<or> c \<le> int n, t + 2 * n)" if "k \<le> n" for k
    using that
  proof (induction "n - k" arbitrary: k)
    case 0
    then show ?case using assms(2) by (subst wait_response.simps) simp
  next
    case (Suc m)
    then have k: "k < n" "m = n - Suc k" by simp_all
    have w: "wrap32 (c - int k - 1) = c - int (Suc k)"
      using assms(3-5) k by (simp add: in_i32_def)
    have e: "((err \<or> c \<le> int k) \<or> c - int (Suc k) = 0) = (err \<or> c \<le> int (Suc k))"
      by auto
    have "wait_response s lvl (c - int k) (err \<or> c \<le> int k) (t + 2 * k) =
        wait_response s lvl (c - int (Suc k)) (err \<or> c \<le> int (Suc k)) (t + 2 * Suc k)"
      using assms(1) [OF k(1)] by (subst wait_response.simps) (simp only: w e, simp)
    with Suc.hyps(1) [OF k(2)] k(1) show ?case by simp
  qed
  from this [of 0] assms(3) show ?thesis by simp
qed

lemma wait_response_result:
  assumes "wait_response s lvl c err t = Some r"
  shows "\<exists>k. snd r = t + 2 * k \<and> s (snd r) \<noteq> lvl"
proof (rule wait_response.raw_induct
    [where P = "\<lambda>s lvl c err t r. \<exists>k. snd r = t + 2 * k \<and> s (snd r) \<noteq> lvl", OF _ assms])
  fix f and s :: signal and lvl and c :: int and err and t :: nat and r :: "bool \<times> nat"
  assume IH: "\<And>s lvl c err t r. f s lvl c err t = Some r \<Longrightarrow> \<exists>k. snd r = t + 2 * k \<and> s (snd r) \<noteq> lvl"
    and eq: "(if s t = lvl then f s lvl (wrap32 (c - 1)) (err \<or> wrap32 (c - 1) = 0) (t + 2)
              else Some (err, t)) = Some r"
  show "\<exists>k. snd r = t + 2 * k \<and> s (snd r) \<noteq> lvl"
  proof (cases "s t = lvl")
    case True
    with eq have "f s lvl (wrap32 (c - 1)) (err \<or> wrap32 (c - 1) = 0) (t + 2) = Some r" by simp
    from IH [OF this] obtain k where "snd r = t + 2 * Suc k" "s (snd r) \<noteq> lvl" by auto
    then show ?thesis by blast
  next
    case False
    with eq show ?thesis by (intro exI [of _ 0]) auto
  qed
qed

lemma wait_response_stuck:
  assumes "\<And>k. s (t + 2 * k) = lvl"
  shows "wait_response s lvl c err t = None"
proof (cases "wait_response s lvl c err t")
  case (Some r)
  from wait_response_result [OF this] obtain k where "s (t + 2 * k) \<noteq> lvl" by auto
  with assms [of k] show ?thesis by simp
qed

section \<open>Decoding the sensor's frames\<close>

text \<open>
  \<open>carries s T bs\<close>: from time \<open>T\<close> the line shows the bits \<open>bs\<close>, each low for \<open>lo\<close> and
  then high for \<open>hi\<close> microseconds, and stays low after the last. The tolerances contain the
  sensor's nominal values: low 50, high 26 to 28 for a zero and 70 for a one.
\<close>

type_synonym pulse = "bool \<times> nat \<times> nat"

fun good_pulse :: "pulse \<Rightarrow> bool" where
  "good_pulse (b, lo, hi) \<longleftrightarrow> 34 \<le> lo \<and> lo \<le> 56 \<and> (if b then 34 \<le> hi \<and> hi \<le> 88 else 2 \<le> hi \<and> hi \<le> 32)"

fun carries :: "signal \<Rightarrow> nat \<Rightarrow> pulse list \<Rightarrow> bool" where
  "carries s T [] \<longleftrightarrow> (\<forall>x \<in> set [T ..< T + 34]. \<not> s x)"
| "carries s T ((b, lo, hi) # bs) \<longleftrightarrow>
     good_pulse (b, lo, hi) \<and> (\<forall>x \<in> set [T ..< T + lo]. \<not> s x) \<and>
     (\<forall>x \<in> set [T + lo ..< T + lo + hi]. s x) \<and> carries s (T + lo + hi) bs"

fun end_of :: "nat \<Rightarrow> pulse list \<Rightarrow> nat" where
  "end_of T [] = T"
| "end_of T ((b, lo, hi) # bs) = end_of (T + lo + hi) bs"

lemma carries_low: "carries s T bs \<Longrightarrow> T \<le> x \<Longrightarrow> x < T + 34 \<Longrightarrow> \<not> s x"
  by (cases bs) (auto simp: Ball_def)

lemma carries_end: "carries s T (bs @ cs) \<Longrightarrow> carries s (end_of T bs) cs"
  by (induction bs arbitrary: T) auto

text \<open>One bit: entered within the first 33 microseconds of its low phase, left so for the next.\<close>

lemma read_bit:
  assumes c: "carries s T ((b, lo, hi) # bs)" and t: "T \<le> t" "t \<le> T + 33"
  shows "\<exists>t1 t3. wait_while s False 30 t = (False, t1) \<and> s (t1 + 32) = b \<and>
    wait_while s True 30 (t1 + 32) = (False, t3) \<and> T + lo + hi \<le> t3 \<and> t3 \<le> T + lo + hi + 33"
proof -
  let ?R = "T + lo" and ?E = "T + lo + hi"
  have lo: "34 \<le> lo" "lo \<le> 56" using c by auto
  have low: "\<not> s x" if "T \<le> x" "x < ?R" for x using c that by auto
  have high: "s x" if "?R \<le> x" "x < ?E" for x using c that by auto
  have next_low: "\<not> s x" if "?E \<le> x" "x < ?E + 34" for x
    using c that carries_low [of s ?E bs x] by auto
  have hi: "if b then 34 \<le> hi \<and> hi \<le> 88 else 2 \<le> hi \<and> hi \<le> 32" using c by simp
  have "\<exists>t1. wait_while s False 30 t = (False, t1) \<and> ?R \<le> t1 \<and> t1 \<le> Suc ?R"
    using lo t hi low high by (intro wait_while_edge) (auto split: if_splits)
  then obtain t1 where t1: "wait_while s False 30 t = (False, t1)" "?R \<le> t1" "t1 \<le> Suc ?R" by auto
  show ?thesis
  proof (cases b)
    case True
    then have "s (t1 + 32) = b" using t1 hi high [of "t1 + 32"] by auto
    moreover have "\<exists>t3. wait_while s True 30 (t1 + 32) = (False, t3) \<and> ?E \<le> t3 \<and> t3 \<le> Suc ?E"
      using t1 hi True high next_low by (intro wait_while_edge) auto
    ultimately show ?thesis using t1 by force
  next
    case False
    then have "s (t1 + 32) = b" using t1 hi next_low [of "t1 + 32"] lo by auto
    moreover from this False have "wait_while s True 30 (t1 + 32) = (False, t1 + 32)"
      by (simp add: numeral_eq_Suc)
    ultimately show ?thesis using t1 False hi lo by (intro exI [of _ t1] exI [of _ "t1 + 32"]) auto
  qed
qed

fun bits_value :: "bool list \<Rightarrow> u8" where
  "bits_value [] = 0"
| "bits_value (b # bs) = (if b then push_bit (length bs) 1 else 0) OR bits_value bs"

lemma read_bits_spec:
  assumes "carries s T (bs @ cs)" and "T \<le> t" and "t \<le> T + 33"
  shows "\<exists>t'. DHT11_read_bits s (length bs) acc t = (acc OR bits_value (map fst bs), t') \<and>
    end_of T bs \<le> t' \<and> t' \<le> end_of T bs + 33"
  using assms
proof (induction bs arbitrary: T t acc)
  case (Cons p bs)
  obtain b lo hi where p: "p = (b, lo, hi)" by (cases p)
  obtain t1 t3 where w: "wait_while s False 30 t = (False, t1)" "s (t1 + 32) = b"
      "wait_while s True 30 (t1 + 32) = (False, t3)"
    and t3: "T + lo + hi \<le> t3" "t3 \<le> T + lo + hi + 33"
    using read_bit [of s T b lo hi "bs @ cs" t] Cons.prems p by auto
  let ?acc = "if b then acc OR push_bit (length bs) 1 else acc"
  have "carries s (T + lo + hi) (bs @ cs)" using Cons.prems p by simp
  from Cons.IH [OF this t3, of ?acc] w p show ?case
    by (cases b) (auto simp: or.assoc)
qed simp

definition byte_bits :: "u8 \<Rightarrow> bool list" where
  "byte_bits w = rev (map (bit w) [0 ..< 8])"

lemma bit_bits_value:
  "length bs \<le> 8 \<Longrightarrow> bit (bits_value bs) n \<longleftrightarrow> n < length bs \<and> rev bs ! n"
  by (induction bs) (auto simp: bit_simps nth_append less_Suc_eq)

lemma bits_value_byte_bits: "bits_value (byte_bits w) = w"
  by (rule bit_word_eqI) (simp add: bit_bits_value byte_bits_def)

lemma read_byte_spec:
  assumes "carries s T (bs @ cs)" and "T \<le> t" and "t \<le> T + 33" and "map fst bs = byte_bits w"
  shows "\<exists>t'. DHT11_read_byte s t = (w, t') \<and> end_of T bs \<le> t' \<and> t' \<le> end_of T bs + 33"
proof -
  have "length bs = 8" using arg_cong [OF assms(4), of length] by (simp add: byte_bits_def)
  with read_bits_spec [OF assms(1-3), of 0] assms(4) show ?thesis
    by (simp add: DHT11_read_byte_def bits_value_byte_bits)
qed

lemma read_data_spec:
  assumes "carries s T (concat fs @ cs)" and "T \<le> t" and "t \<le> T + 33"
    and "map (map fst) fs = map byte_bits ws"
  shows "\<exists>t'. DHT11_read_data s (length fs) t = (ws, t')"
  using assms
proof (induction fs arbitrary: T t ws)
  case (Cons f fs)
  then obtain w ws' where ws: "ws = w # ws'" "map fst f = byte_bits w" "map (map fst) fs = map byte_bits ws'"
    by (cases ws) auto
  obtain t1 where t1: "DHT11_read_byte s t = (w, t1)" "end_of T f \<le> t1" "t1 \<le> end_of T f + 33"
    using read_byte_spec [of s T f "concat fs @ cs" t w] Cons.prems ws by auto
  have "carries s (end_of T f) (concat fs @ cs)" using carries_end [of s T f] Cons.prems(1) by simp
  from Cons.IH [OF this t1(2,3) ws(3)] t1 ws show ?case by auto
qed simp

text \<open>
  A complete reply: after the start signal of the driver (19 ms) the line stays high for less
  than 28 microseconds, then low for less than 86, high for less than 86, then carries the
  bits of the five bytes.
\<close>

definition reply :: "signal \<Rightarrow> nat \<Rightarrow> nat \<Rightarrow> nat \<Rightarrow> nat \<Rightarrow> pulse list list \<Rightarrow> bool" where
  "reply s t up low high fs \<longleftrightarrow>
     (let a = t + 19000; b = a + up; c = b + low; d = c + high in
      up \<le> 28 \<and> 4 \<le> low \<and> low \<le> 86 \<and> 4 \<le> high \<and> high \<le> 86 \<and>
      (\<forall>x \<in> set [a ..< b]. s x) \<and> (\<forall>x \<in> set [b ..< c]. \<not> s x) \<and> (\<forall>x \<in> set [c ..< d]. s x) \<and>
      carries s d (concat fs))"

text \<open>Where the polling of a response loop ends: the first even distance past the edge.\<close>

lemma wait_response_edge:
  assumes "\<And>x. t \<le> x \<Longrightarrow> x < e \<Longrightarrow> s x = lvl" and "s e \<noteq> lvl" and "s (Suc e) \<noteq> lvl"
    and "t \<le> e" and "e \<le> t + 88"
  shows "\<exists>t'. wait_response s lvl 45 False t = Some (False, t') \<and> e \<le> t' \<and> t' \<le> Suc e"
proof -
  let ?n = "(e - t + 1) div 2"
  have n: "e \<le> t + 2 * ?n" "t + 2 * ?n \<le> Suc e" using assms(4) by linarith+
  then have "s (t + 2 * ?n) \<noteq> lvl" using assms(2,3) by (cases "t + 2 * ?n = e") (auto simp: le_Suc_eq)
  moreover have "s (t + 2 * k) = lvl" if "k < ?n" for k using that assms(1) by auto
  ultimately have "wait_response s lvl 45 False t = Some (False \<or> 45 \<le> int ?n, t + 2 * ?n)"
    using assms(5) by (intro wait_response_stops) auto
  moreover have "\<not> 45 \<le> int ?n" using assms(5) by linarith
  ultimately show ?thesis using n by auto
qed

lemma DHT11_read_reply:
  assumes r: "reply s t up low high fs" and ws: "map (map fst) fs = map byte_bits ws" "length ws = 5"
    and "count \<le> 5"
  shows "DHT11_read s count copy_fails t =
    Some (Inr (if DHT11_checksum ws = uint (ws ! 4) \<and> \<not> copy_fails then int count else - EFAULT,
      if DHT11_checksum ws = uint (ws ! 4) \<and> \<not> copy_fails then take count ws else [],
      [GpioCfg (GPG 1) 1, GpioSet (GPG 1) 0, GpioSet (GPG 1) 1, GpioCfg (GPG 1) 0] @ pin_restore))"
proof -
  let ?a = "t + 19000" let ?b = "?a + up" let ?c = "?b + low" let ?d = "?c + high"
  have lens: "up \<le> 28" "4 \<le> low" "low \<le> 86" "4 \<le> high" "high \<le> 86"
    and up: "\<And>x. ?a \<le> x \<Longrightarrow> x < ?b \<Longrightarrow> s x" and lo: "\<And>x. ?b \<le> x \<Longrightarrow> x < ?c \<Longrightarrow> \<not> s x"
    and hi: "\<And>x. ?c \<le> x \<Longrightarrow> x < ?d \<Longrightarrow> s x" and cs: "carries s ?d (concat fs @ [])"
    using r by (auto simp: reply_def Let_def)
  have len: "length fs = 5" using arg_cong [OF ws(1), of length] ws(2) by simp
  obtain t1 where t1: "wait_while s True 15 ?a = (False, t1)" "?b \<le> t1" "t1 \<le> Suc ?b"
    using wait_while_edge [of ?a ?b s True 15] up lo lens by auto
  obtain t2 where t2: "wait_response s False 45 False t1 = Some (False, t2)" "?c \<le> t2" "t2 \<le> Suc ?c"
    using wait_response_edge [of t1 ?c s False] t1 lo hi lens by auto
  have dl: "\<not> s x" if "?d \<le> x" "x < ?d + 34" for x using carries_low [OF cs that] .
  obtain t3 where t3: "wait_response s True 45 False t2 = Some (False, t3)" "?d \<le> t3" "t3 \<le> Suc ?d"
    using wait_response_edge [of t2 ?d s True] t2 hi dl lens by auto
  obtain t4 where "DHT11_read_data s 5 t3 = (ws, t4)"
    using read_data_spec [OF cs, of t3 ws] t3 ws len by auto
  with t1 t2 t3 assms(4) show ?thesis
    by (simp add: DHT11_read_def Let_def)
qed

end
