(* ===== verification/Modules.thy ===== *)
theory Modules
  imports Dht11
begin

text \<open>
  The drivers as kernel modules: the tables each of them hands to the kernel (file operations,
  misc device, platform device and platform driver), and the functions that load and unload
  it. The system calls of theory \<open>Devices\<close> reach a driver through these tables.
\<close>

section \<open>The tables\<close>

text \<open>
  The entry points of \<open>struct file_operations\<close> the drivers fill in. Their arguments are what the
  entry point uses: a plain ioctl its command; one on a PWM device also the results of
  \<open>pwm_config\<close>, the device and the structure copied from the caller; one on pins the levels
  and the argument.
\<close>

datatype ioctl_entry =
    IoctlPlain "ioc \<Rightarrow> int \<times> kcall list"
  | IoctlPwm "(nat \<Rightarrow> int \<Rightarrow> int \<Rightarrow> int) \<Rightarrow> nat \<Rightarrow> ioc \<Rightarrow> pwm_duty option \<Rightarrow> int \<times> kcall list"
  | IoctlPins "(pin \<Rightarrow> int) \<Rightarrow> ioc \<Rightarrow> nat \<Rightarrow> int \<times> kcall list"

datatype read_entry =
    ReadLevel "(pin \<Rightarrow> int) \<Rightarrow> int"
  | ReadWire "signal \<Rightarrow> nat \<Rightarrow> bool \<Rightarrow> nat \<Rightarrow> (int \<times> u8 list \<times> kcall list) result option"

record file_operations =
  fop_open :: "(pwm_ptr \<Rightarrow> int \<times> kcall list) option"
  fop_release :: "(nat \<Rightarrow> int \<times> kcall list) option"
  fop_ioctl :: "ioctl_entry option"
  fop_read :: "read_entry option"

text \<open>\<open>struct miscdevice\<close>, always with \<open>MISC_DYNAMIC_MINOR\<close>.\<close>

record miscdevice =
  misc_name :: string
  misc_fops :: file_operations

record device =
  dev_parent :: "nat option"

definition release_pdev :: "device \<Rightarrow> device" where
  "release_pdev dev = dev\<lparr>dev_parent := None\<rparr>"

record platform_device =
  pdev_name :: string
  pdev_id :: int
  pdev_release :: "device \<Rightarrow> device"

text \<open>Probing takes what the registration of a character device inside it returns.\<close>

record platform_driver =
  drv_name :: string
  drv_probe :: "int \<Rightarrow> int \<times> kcall list"
  drv_remove :: "int \<times> kcall list"

definition fops0 :: file_operations where
  "fops0 = \<lparr>fop_open = None, fop_release = None, fop_ioctl = None, fop_read = None\<rparr>"

definition relay_fops :: file_operations where
  "relay_fops = fops0\<lparr>fop_ioctl := Some (IoctlPlain relay_ioctl)\<rparr>"
definition humidifier_fops :: file_operations where
  "humidifier_fops = fops0\<lparr>fop_ioctl := Some (IoctlPlain humidifier_ioctl)\<rparr>"
definition FAN_fops :: file_operations where
  "FAN_fops = fops0\<lparr>fop_open := Some FAN_open, fop_release := Some FAN_release,
     fop_ioctl := Some (IoctlPwm FAN_ioctl)\<rparr>"
definition MG995_fops :: file_operations where
  "MG995_fops = fops0\<lparr>fop_open := Some MG995_open, fop_release := Some MG995_release,
     fop_ioctl := Some (IoctlPwm MG995_ioctl)\<rparr>"
definition SG90_fops :: file_operations where
  "SG90_fops = fops0\<lparr>fop_open := Some SG90_open, fop_release := Some SG90_release,
     fop_ioctl := Some (IoctlPwm SG90_ioctl)\<rparr>"
definition mds2450_led_fops :: file_operations where
  "mds2450_led_fops = fops0\<lparr>fop_open := Some (\<lambda>_. mds2450_led_open),
     fop_release := Some (\<lambda>_. mds2450_led_release), fop_ioctl := Some (IoctlPins mds2450_led_ioctl)\<rparr>"
definition soil_fops :: file_operations where
  "soil_fops = fops0\<lparr>fop_read := Some (ReadLevel soil_read)\<rparr>"
definition MAG_fops :: file_operations where
  "MAG_fops = fops0\<lparr>fop_read := Some (ReadLevel MAGNETIC_read)\<rparr>"
definition DHT11_fops :: file_operations where
  "DHT11_fops = fops0\<lparr>fop_read := Some (ReadWire DHT11_read)\<rparr>"

definition relay_misc :: miscdevice where
  "relay_misc = \<lparr>misc_name = RELAY_DEVICE_NAME, misc_fops = relay_fops\<rparr>"
definition humidifier_misc :: miscdevice where
  "humidifier_misc = \<lparr>misc_name = HUMIDIFIER_DEVICE_NAME, misc_fops = humidifier_fops\<rparr>"
definition fan_misc :: miscdevice where
  "fan_misc = \<lparr>misc_name = FAN_DEVICE_NAME, misc_fops = FAN_fops\<rparr>"
definition mg995_misc :: miscdevice where
  "mg995_misc = \<lparr>misc_name = MG995_DEVICE_NAME, misc_fops = MG995_fops\<rparr>"
definition soil_misc :: miscdevice where
  "soil_misc = \<lparr>misc_name = SOIL_DEVICE_NAME, misc_fops = soil_fops\<rparr>"
definition magnetic_misc :: miscdevice where
  "magnetic_misc = \<lparr>misc_name = MAGNETIC_DEVICE_NAME, misc_fops = MAG_fops\<rparr>"
definition dht11_misc :: miscdevice where
  "dht11_misc = \<lparr>misc_name = DHT11_DEVICE_NAME, misc_fops = DHT11_fops\<rparr>"

definition relay_pdev :: platform_device where
  "relay_pdev = \<lparr>pdev_name = RELAY_DEVICE_NAME, pdev_id = -1, pdev_release = release_pdev\<rparr>"
definition humidifier_pdev :: platform_device where
  "humidifier_pdev = \<lparr>pdev_name = HUMIDIFIER_DEVICE_NAME, pdev_id = -1, pdev_release = release_pdev\<rparr>"
definition fan_pdev :: platform_device where
  "fan_pdev = \<lparr>pdev_name = FAN_DEVICE_NAME, pdev_id = -1, pdev_release = release_pdev\<rparr>"
definition mg995_pdev :: platform_device where
  "mg995_pdev = \<lparr>pdev_name = MG995_DEVICE_NAME, pdev_id = -1, pdev_release = release_pdev\<rparr>"
definition soil_pdev :: platform_device where
  "soil_pdev = \<lparr>pdev_name = SOIL_DEVICE_NAME, pdev_id = -1, pdev_release = release_pdev\<rparr>"
definition magnetic_pdev :: platform_device where
  "magnetic_pdev = \<lparr>pdev_name = MAGNETIC_DEVICE_NAME, pdev_id = -1, pdev_release = release_pdev\<rparr>"
definition dht11_pdev :: platform_device where
  "dht11_pdev = \<lparr>pdev_name = DHT11_DEVICE_NAME, pdev_id = -1, pdev_release = release_pdev\<rparr>"

definition RELAY_device_driver :: platform_driver where
  "RELAY_device_driver =
     \<lparr>drv_name = RELAY_DEVICE_NAME, drv_probe = (\<lambda>_. RELAY_probe), drv_remove = RELAY_remove\<rparr>"
definition humidifier_device_driver :: platform_driver where
  "humidifier_device_driver =
     \<lparr>drv_name = HUMIDIFIER_DEVICE_NAME, drv_probe = (\<lambda>_. humidifier_probe), drv_remove = humidifier_remove\<rparr>"
definition FAN_device_driver :: platform_driver where
  "FAN_device_driver =
     \<lparr>drv_name = FAN_DEVICE_NAME, drv_probe = (\<lambda>_. FAN_probe), drv_remove = FAN_remove\<rparr>"
definition MG995_device_driver :: platform_driver where
  "MG995_device_driver =
     \<lparr>drv_name = MG995_DEVICE_NAME, drv_probe = (\<lambda>_. MG995_probe), drv_remove = MG995_remove\<rparr>"
definition SG90_device_driver :: platform_driver where
  "SG90_device_driver =
     \<lparr>drv_name = ''mds2450_sg90'', drv_probe = SG90_probe, drv_remove = SG90_remove\<rparr>"
definition mds2450_led_device_driver :: platform_driver where
  "mds2450_led_device_driver =
     \<lparr>drv_name = ''mds2450_led_onboard'', drv_probe = mds2450_led_probe, drv_remove = mds2450_led_remove\<rparr>"
definition soil_device_driver :: platform_driver where
  "soil_device_driver =
     \<lparr>drv_name = SOIL_DEVICE_NAME, drv_probe = (\<lambda>_. soil_probe), drv_remove = soil_remove\<rparr>"
definition MAGNETIC_device_driver :: platform_driver where
  "MAGNETIC_device_driver =
     \<lparr>drv_name = MAGNETIC_DEVICE_NAME, drv_probe = (\<lambda>_. MAGNETIC_probe), drv_remove = MAGNETIC_remove\<rparr>"
definition DHT11_device_driver :: platform_driver where
  "DHT11_device_driver =
     \<lparr>drv_name = DHT11_DEVICE_NAME, drv_probe = (\<lambda>_. DHT11_probe), drv_remove = DHT11_remove\<rparr>"

section \<open>Loading and unloading the modules\<close>

text \<open>
  \<open>rmisc\<close>, \<open>rdrv\<close> and \<open>rdev\<close> are what \<open>misc_register\<close>, \<open>platform_driver_register\<close> and
  \<open>platform_device_register\<close> return; the modules do not look at the first. The body they share,
  with the value the local variable \<open>ret\<close> ends with:
\<close>

definition platform_init ::
    "miscdevice \<Rightarrow> platform_driver \<Rightarrow> platform_device \<Rightarrow> int \<Rightarrow> int \<Rightarrow> int \<Rightarrow> int \<times> kcall list" where
  "platform_init misc drv pdev rmisc rdrv rdev =
     (let calls = [MiscRegister (misc_name misc) rmisc];
          ret = rdrv; calls = calls @ [DriverRegister (drv_name drv) ret] in
      if ret = 0 then
        (let ret = rdev; calls = calls @ [DeviceRegister (pdev_name pdev) ret] in
         if ret \<noteq> 0 then (ret, calls @ [DriverUnregister (drv_name drv)]) else (ret, calls))
      else (ret, calls))"

definition platform_exit :: "miscdevice \<Rightarrow> platform_driver \<Rightarrow> platform_device \<Rightarrow> kcall list" where
  "platform_exit misc drv pdev =
     [MiscDeregister (misc_name misc), DeviceUnregister (pdev_name pdev), DriverUnregister (drv_name drv)]"

definition RELAY_init :: "int \<Rightarrow> int \<Rightarrow> int \<Rightarrow> int \<times> kcall list" where
  "RELAY_init rmisc rdrv rdev = platform_init relay_misc RELAY_device_driver relay_pdev rmisc rdrv rdev"
definition RELAY_exit :: "kcall list" where
  "RELAY_exit = platform_exit relay_misc RELAY_device_driver relay_pdev"

definition humidifier_module_init :: "int \<Rightarrow> int \<Rightarrow> int \<Rightarrow> int \<times> kcall list" where
  "humidifier_module_init rmisc rdrv rdev =
     platform_init humidifier_misc humidifier_device_driver humidifier_pdev rmisc rdrv rdev"
definition humidifier_module_exit :: "kcall list" where
  "humidifier_module_exit = platform_exit humidifier_misc humidifier_device_driver humidifier_pdev"

definition FAN_init :: "int \<Rightarrow> int \<Rightarrow> int \<Rightarrow> int \<times> kcall list" where
  "FAN_init rmisc rdrv rdev = platform_init fan_misc FAN_device_driver fan_pdev rmisc rdrv rdev"
definition FAN_exit :: "kcall list" where
  "FAN_exit = platform_exit fan_misc FAN_device_driver fan_pdev"

definition DHT11_init :: "int \<Rightarrow> int \<Rightarrow> int \<Rightarrow> int \<times> kcall list" where
  "DHT11_init rmisc rdrv rdev = platform_init dht11_misc DHT11_device_driver dht11_pdev rmisc rdrv rdev"
definition DHT11_exit :: "kcall list" where
  "DHT11_exit = platform_exit dht11_misc DHT11_device_driver dht11_pdev"

text \<open>The servo, moisture and magnetic modules return 0 whatever the registrations said.\<close>

definition MG995_init :: "int \<Rightarrow> int \<Rightarrow> int \<Rightarrow> int \<times> kcall list" where
  "MG995_init rmisc rdrv rdev =
     (case platform_init mg995_misc MG995_device_driver mg995_pdev rmisc rdrv rdev of (ret, calls) \<Rightarrow> (0, calls))"
definition MG995_exit :: "kcall list" where
  "MG995_exit = platform_exit mg995_misc MG995_device_driver mg995_pdev"

definition soil_init :: "int \<Rightarrow> int \<Rightarrow> int \<Rightarrow> int \<times> kcall list" where
  "soil_init rmisc rdrv rdev =
     (case platform_init soil_misc soil_device_driver soil_pdev rmisc rdrv rdev of (ret, calls) \<Rightarrow> (0, calls))"
definition soil_exit :: "kcall list" where
  "soil_exit = platform_exit soil_misc soil_device_driver soil_pdev"

definition MAGNETIC_init :: "int \<Rightarrow> int \<Rightarrow> int \<Rightarrow> int \<times> kcall list" where
  "MAGNETIC_init rmisc rdrv rdev =
     (case platform_init magnetic_misc MAGNETIC_device_driver magnetic_pdev rmisc rdrv rdev of (ret, calls) \<Rightarrow> (0, calls))"
definition MAGNETIC_exit :: "kcall list" where
  "MAGNETIC_exit = platform_exit magnetic_misc MAGNETIC_device_driver magnetic_pdev"

text \<open>The seven modules, as the kernel loads them.\<close>

record kmodule =
  mod_misc :: miscdevice
  mod_driver :: platform_driver
  mod_pdev :: platform_device
  mod_init :: "int \<Rightarrow> int \<Rightarrow> int \<Rightarrow> int \<times> kcall list"
  mod_exit :: "kcall list"

definition modules :: "kmodule list" where
  "modules =
     [\<lparr>mod_misc = relay_misc, mod_driver = RELAY_device_driver, mod_pdev = relay_pdev,
       mod_init = RELAY_init, mod_exit = RELAY_exit\<rparr>,
      \<lparr>mod_misc = humidifier_misc, mod_driver = humidifier_device_driver, mod_pdev = humidifier_pdev,
       mod_init = humidifier_module_init, mod_exit = humidifier_module_exit\<rparr>,
      \<lparr>mod_misc = fan_misc, mod_driver = FAN_device_driver, mod_pdev = fan_pdev,
       mod_init = FAN_init, mod_exit = FAN_exit\<rparr>,
      \<lparr>mod_misc = mg995_misc, mod_driver = MG995_device_driver, mod_pdev = mg995_pdev,
       mod_init = MG995_init, mod_exit = MG995_exit\<rparr>,
      \<lparr>mod_misc = soil_misc, mod_driver = soil_device_driver, mod_pdev = soil_pdev,
       mod_init = soil_init, mod_exit = soil_exit\<rparr>,
      \<lparr>mod_misc = magnetic_misc, mod_driver = MAGNETIC_device_driver, mod_pdev = magnetic_pdev,
       mod_init = MAGNETIC_init, mod_exit = MAGNETIC_exit\<rparr>,
      \<lparr>mod_misc = dht11_misc, mod_driver = DHT11_device_driver, mod_pdev = dht11_pdev,
       mod_init = DHT11_init, mod_exit = DHT11_exit\<rparr>]"

text \<open>The file operations behind a path of the device directory.\<close>

definition device_path :: "miscdevice \<Rightarrow> string" where
  "device_path misc = ''/dev/'' @ misc_name misc"

definition fops_at :: "string \<Rightarrow> file_operations option" where
  "fops_at path = map_option misc_fops (find (\<lambda>m. device_path m = path) (map mod_misc modules))"

section \<open>What a module has registered\<close>

text \<open>Under a name, after a log of calls: misc device, platform driver, platform device.\<close>

fun reg_step :: "string \<Rightarrow> bool \<times> bool \<times> bool \<Rightarrow> kcall \<Rightarrow> bool \<times> bool \<times> bool" where
  "reg_step n (m, d, p) (MiscRegister k rc) = (m \<or> k = n \<and> rc = 0, d, p)"
| "reg_step n (m, d, p) (MiscDeregister k) = (m \<and> k \<noteq> n, d, p)"
| "reg_step n (m, d, p) (DriverRegister k rc) = (m, d \<or> k = n \<and> rc = 0, p)"
| "reg_step n (m, d, p) (DriverUnregister k) = (m, d \<and> k \<noteq> n, p)"
| "reg_step n (m, d, p) (DeviceRegister k rc) = (m, d, p \<or> k = n \<and> rc = 0)"
| "reg_step n (m, d, p) (DeviceUnregister k) = (m, d, p \<and> k \<noteq> n)"
| "reg_step n s _ = s"

definition registered :: "string \<Rightarrow> kcall list \<Rightarrow> bool \<times> bool \<times> bool" where
  "registered n cs = foldl (reg_step n) (False, False, False) cs"

lemmas misc_defs = relay_misc_def humidifier_misc_def fan_misc_def mg995_misc_def soil_misc_def
  magnetic_misc_def dht11_misc_def

lemmas fops_defs = relay_fops_def humidifier_fops_def FAN_fops_def MG995_fops_def soil_fops_def
  MAG_fops_def DHT11_fops_def fops0_def

lemmas pdev_defs = relay_pdev_def humidifier_pdev_def fan_pdev_def mg995_pdev_def soil_pdev_def
  magnetic_pdev_def dht11_pdev_def

lemmas driver_tables = RELAY_device_driver_def humidifier_device_driver_def FAN_device_driver_def
  MG995_device_driver_def soil_device_driver_def MAGNETIC_device_driver_def DHT11_device_driver_def

lemmas module_defs [drv_defs] = RELAY_init_def RELAY_exit_def humidifier_module_init_def
  humidifier_module_exit_def FAN_init_def FAN_exit_def MG995_init_def MG995_exit_def
  soil_init_def soil_exit_def MAGNETIC_init_def MAGNETIC_exit_def DHT11_init_def DHT11_exit_def

lemmas device_names = RELAY_DEVICE_NAME_def HUMIDIFIER_DEVICE_NAME_def FAN_DEVICE_NAME_def
  MG995_DEVICE_NAME_def SOIL_DEVICE_NAME_def MAGNETIC_DEVICE_NAME_def DHT11_DEVICE_NAME_def

text \<open>A misc device, its driver and its platform device carry one name.\<close>

definition one_name :: "kmodule \<Rightarrow> bool" where
  "one_name m \<longleftrightarrow> drv_name (mod_driver m) = misc_name (mod_misc m) \<and>
     pdev_name (mod_pdev m) = misc_name (mod_misc m)"

lemma modules_one_name: "\<forall>m \<in> set modules. one_name m"
  by (simp add: modules_def one_name_def misc_defs driver_tables pdev_defs)

lemma modules_init:
  "\<forall>m \<in> set modules. snd (mod_init m rmisc rdrv rdev) =
     snd (platform_init (mod_misc m) (mod_driver m) (mod_pdev m) rmisc rdrv rdev)"
  by (simp add: modules_def module_defs split: prod.split)

lemma modules_exit:
  "\<forall>m \<in> set modules. mod_exit m = platform_exit (mod_misc m) (mod_driver m) (mod_pdev m)"
  by (simp add: modules_def module_defs)

lemma platform_init_registered:
  assumes "drv_name drv = misc_name misc" and "pdev_name pdev = misc_name misc"
  shows "registered (misc_name misc) (snd (platform_init misc drv pdev rmisc rdrv rdev)) =
    (rmisc = 0, rdrv = 0 \<and> rdev = 0, rdrv = 0 \<and> rdev = 0)"
  using assms by (simp add: registered_def platform_init_def Let_def)

lemma platform_exit_registered:
  assumes "drv_name drv = misc_name misc" and "pdev_name pdev = misc_name misc"
  shows "registered (misc_name misc)
    (snd (platform_init misc drv pdev rmisc rdrv rdev) @ platform_exit misc drv pdev) = (False, False, False)"
  using assms platform_init_registered [OF assms, of rmisc rdrv rdev]
  by (simp add: registered_def platform_exit_def)

lemma modules_loaded:
  assumes "m \<in> set modules"
  shows "registered (misc_name (mod_misc m)) (snd (mod_init m rmisc rdrv rdev)) =
      (rmisc = 0, rdrv = 0 \<and> rdev = 0, rdrv = 0 \<and> rdev = 0)"
    "registered (misc_name (mod_misc m)) (snd (mod_init m rmisc rdrv rdev) @ mod_exit m) = (False, False, False)"
  using assms modules_one_name modules_init [of rmisc rdrv rdev] modules_exit
    platform_init_registered platform_exit_registered
  by (simp_all add: one_name_def)

lemma platform_init_rc: "fst (platform_init misc drv pdev rmisc rdrv rdev) = (if rdrv = 0 then rdev else rdrv)"
  by (simp add: platform_init_def Let_def)

lemma modules_init_rc:
  "\<forall>m \<in> set modules. fst (mod_init m rmisc rdrv rdev) =
     (if misc_name (mod_misc m) \<in> {MG995_DEVICE_NAME, SOIL_DEVICE_NAME, MAGNETIC_DEVICE_NAME} then 0
      else if rdrv = 0 then rdev else rdrv)"
  by (simp add: modules_def module_defs platform_init_rc split_beta misc_defs device_names)

section \<open>Paths\<close>

lemma fops_at_paths [simp]:
  "fops_at RELAY_DEV_PATH = Some relay_fops"
  "fops_at HUMIDIFIER_PATH = Some humidifier_fops"
  "fops_at PWM_FAN_PATH = Some FAN_fops"
  "fops_at MG995_PWM_PATH = Some MG995_fops"
  "fops_at MOISTURE_DEV_PATH = Some soil_fops"
  "fops_at MAGNETIC_DEV_PATH = Some MAG_fops"
  "fops_at (''/dev/'' @ DHT11_DEVICE_NAME) = Some DHT11_fops"
  by (simp_all add: fops_at_def modules_def device_path_def misc_defs device_names RELAY_DEV_PATH_def
      HUMIDIFIER_PATH_def PWM_FAN_PATH_def MG995_PWM_PATH_def MOISTURE_DEV_PATH_def MAGNETIC_DEV_PATH_def)

end
