(* ===== verification/Devices.thy ===== *)
theory Devices
  imports Modules
begin

text \<open>
  The user level device library \<^verbatim>\<open>drivers/lib\<close>, actuator side: relay, led, solenoid, dryer,
  fan, servo and humidifier. Its functions talk to the drivers of theory \<open>Kernel\<close> through
  \<open>open\<close>, \<open>ioctl\<close> and \<open>close\<close>; the state \<open>world\<close> holds the open device files, the static
  variables of the library and the log of the calls the drivers made on the hardware.
\<close>

section \<open>Device files and system calls\<close>

record world =
  os_open :: "string \<Rightarrow> int"                  \<comment> \<open>what \<open>open\<close> returns for a path\<close>
  pwm_result :: "nat \<Rightarrow> int \<Rightarrow> int \<Rightarrow> int"     \<comment> \<open>what \<open>pwm_config\<close> returns\<close>
  files :: "int \<Rightarrow> string option"              \<comment> \<open>the paths behind the open descriptors\<close>
  hw :: "kcall list"
  fd_relay :: int
  fd_fan :: int
  fd_servo :: int
  fd_humidifier :: int
  fan_duty :: pwm_duty
  servo_duty :: pwm_duty
  cnt :: int                                    \<comment> \<open>presses of the humidifier button\<close>

text \<open>
  The driver behind a path is found in its table. The program opens each device once, and
  \<open>pwm_request\<close> grants it the channel; what happens otherwise is in theory \<open>PwmDrivers\<close>.
\<close>

definition pwm_channel :: "file_operations \<Rightarrow> nat" where
  "pwm_channel f =
     (case fop_open f of None \<Rightarrow> 0
      | Some h \<Rightarrow> (case snd (h PwmNull) of [PwmRequest ch] \<Rightarrow> ch | _ \<Rightarrow> 0))"

definition driver_open :: "string \<Rightarrow> kcall list" where
  "driver_open path =
     (case fops_at path of None \<Rightarrow> []
      | Some f \<Rightarrow> (case fop_open f of None \<Rightarrow> [] | Some h \<Rightarrow> snd (h (PwmDevice (pwm_channel f)))))"

definition driver_release :: "string \<Rightarrow> kcall list" where
  "driver_release path =
     (case fops_at path of None \<Rightarrow> []
      | Some f \<Rightarrow> (case fop_release f of None \<Rightarrow> [] | Some h \<Rightarrow> snd (h (pwm_channel f))))"

definition driver_ioctl ::
    "(nat \<Rightarrow> int \<Rightarrow> int \<Rightarrow> int) \<Rightarrow> string \<Rightarrow> ioc \<Rightarrow> pwm_duty option \<Rightarrow> int \<times> kcall list" where
  "driver_ioctl cfg path cmd arg =
     (case fops_at path of None \<Rightarrow> (-1, [])
      | Some f \<Rightarrow>
          (case fop_ioctl f of
             Some (IoctlPlain h) \<Rightarrow> h cmd
           | Some (IoctlPwm h) \<Rightarrow> h cfg (pwm_channel f) cmd arg
           | _ \<Rightarrow> (-1, [])))"

definition sys_open :: "string \<Rightarrow> world \<Rightarrow> int \<times> world" where
  "sys_open path w =
     (let fd = os_open w path in
      if fd < 0 then (fd, w)
      else (fd, w\<lparr>files := (files w)(fd \<mapsto> path), hw := hw w @ driver_open path\<rparr>))"

definition sys_ioctl :: "int \<Rightarrow> ioc \<Rightarrow> pwm_duty option \<Rightarrow> world \<Rightarrow> world" where
  "sys_ioctl fd cmd arg w =
     (case files w fd of None \<Rightarrow> w
      | Some path \<Rightarrow> w\<lparr>hw := hw w @ snd (driver_ioctl (pwm_result w) path cmd arg)\<rparr>)"

definition sys_close :: "int \<Rightarrow> world \<Rightarrow> world" where
  "sys_close fd w =
     (case files w fd of None \<Rightarrow> w
      | Some path \<Rightarrow> w\<lparr>files := (files w)(fd := None), hw := hw w @ driver_release path\<rparr>)"

definition usleep :: "nat \<Rightarrow> world \<Rightarrow> world" where
  "usleep n w = w\<lparr>hw := hw w @ [Sleep n]\<rparr>"

section \<open>relay.c\<close>

definition relay_init :: "world \<Rightarrow> int \<times> world" where
  "relay_init w =
     (let (fd, w) = sys_open RELAY_DEV_PATH w; w = w\<lparr>fd_relay := fd\<rparr> in
      if fd < 0 then (0, w)
      else
        (1, sys_ioctl fd IN4_HIGH None (sys_ioctl fd IN3_HIGH None
              (sys_ioctl fd IN2_HIGH None (sys_ioctl fd IN1_HIGH None w)))))"

definition relay_connect :: "int \<Rightarrow> world \<Rightarrow> int \<times> world" where
  "relay_connect channel w =
     (if channel = 1 then (1, sys_ioctl (fd_relay w) IN1_LOW None w)
      else if channel = 2 then (1, sys_ioctl (fd_relay w) IN2_LOW None w)
      else if channel = 3 then (1, sys_ioctl (fd_relay w) IN3_LOW None w)
      else if channel = 4 then (1, sys_ioctl (fd_relay w) IN4_LOW None w)
      else (0, w))"

definition relay_disconnect :: "int \<Rightarrow> world \<Rightarrow> int \<times> world" where
  "relay_disconnect channel w =
     (if channel = 1 then (1, sys_ioctl (fd_relay w) IN1_HIGH None w)
      else if channel = 2 then (1, sys_ioctl (fd_relay w) IN2_HIGH None w)
      else if channel = 3 then (1, sys_ioctl (fd_relay w) IN3_HIGH None w)
      else if channel = 4 then (1, sys_ioctl (fd_relay w) IN4_HIGH None w)
      else (0, w))"

definition relay_deinit :: "world \<Rightarrow> world" where
  "relay_deinit w =
     (let fd = fd_relay w in
      sys_close fd (sys_ioctl fd IN4_HIGH None (sys_ioctl fd IN3_HIGH None
        (sys_ioctl fd IN2_HIGH None (sys_ioctl fd IN1_HIGH None w)))))"

section \<open>led.c, solenoid.c, dryer.c\<close>

definition led_on :: "world \<Rightarrow> world" where "led_on w = snd (relay_connect 1 w)"
definition led_off :: "world \<Rightarrow> world" where "led_off w = snd (relay_disconnect 1 w)"
definition solenoid_open :: "world \<Rightarrow> world" where "solenoid_open w = snd (relay_connect 2 w)"
definition solenoid_close :: "world \<Rightarrow> world" where "solenoid_close w = snd (relay_disconnect 2 w)"
definition dryer_on :: "world \<Rightarrow> world" where "dryer_on w = snd (relay_connect 4 w)"
definition dryer_off :: "world \<Rightarrow> world" where "dryer_off w = snd (relay_disconnect 4 w)"

text \<open>Their initialisations and deinitialisations are empty.\<close>

definition led_init :: "world \<Rightarrow> world" where [simp]: "led_init w = w"
definition led_deinit :: "world \<Rightarrow> world" where [simp]: "led_deinit w = w"
definition solenoid_init :: "world \<Rightarrow> world" where [simp]: "solenoid_init w = w"
definition solenoid_deinit :: "world \<Rightarrow> world" where [simp]: "solenoid_deinit w = w"
definition dryer_init :: "world \<Rightarrow> world" where [simp]: "dryer_init w = w"
definition dryer_deinit :: "world \<Rightarrow> world" where [simp]: "dryer_deinit w = w"

section \<open>fan.c\<close>

definition FAN_SPEED_NORMAL :: int where "FAN_SPEED_NORMAL = 0"
definition FAN_SPEED_FAST :: int where "FAN_SPEED_FAST = 6"
definition FAN_SPEED_VERY_FAST :: int where "FAN_SPEED_VERY_FAST = 10"

definition fan_init :: "world \<Rightarrow> int \<times> world" where
  "fan_init w =
     (let (fd, w) = sys_open PWM_FAN_PATH w; w = w\<lparr>fd_fan := fd\<rparr> in
      if fd < 0 then (0, w)
      else
        (let w = w\<lparr>fan_duty := (fan_duty w)\<lparr>period := PWM_FAN_PERIOD\<rparr>\<rparr>;
             w = sys_ioctl fd PWM_FAN_ENABLE None w
         in (1, usleep 1000000 w)))"

definition fan_rotate :: "int \<Rightarrow> world \<Rightarrow> int \<times> world" where
  "fan_rotate speed w =
     (let w = snd (relay_connect 3 w) in
      if speed \<ge> 0 \<and> speed < 11 then
        (let w = w\<lparr>fan_duty := (fan_duty w)\<lparr>pulse_width := PWM_FAN_SPEED speed\<rparr>\<rparr>
         in (1, sys_ioctl (fd_fan w) PWM_FAN_DUTYRATE (Some (fan_duty w)) w))
      else (0, w))"

definition fan_off :: "world \<Rightarrow> world" where
  "fan_off w = snd (relay_disconnect 3 w)"

definition fan_deinit :: "world \<Rightarrow> world" where
  "fan_deinit w =
     (let w = snd (relay_disconnect 3 w) in
      sys_close (fd_fan w) (sys_ioctl (fd_fan w) PWM_FAN_DISABLE None w))"

section \<open>servo.c\<close>

definition SERVO_0_DEGREE :: int where "SERVO_0_DEGREE = 1"
definition SERVO_45_DEGREE :: int where "SERVO_45_DEGREE = 2"
definition SERVO_90_DEGREE :: int where "SERVO_90_DEGREE = 3"
definition SERVO_135_DEGREE :: int where "SERVO_135_DEGREE = 4"
definition SERVO_180_DEGREE :: int where "SERVO_180_DEGREE = 5"

definition servo_set :: "int \<Rightarrow> world \<Rightarrow> world" where
  "servo_set pw w =
     (let w = w\<lparr>servo_duty := (servo_duty w)\<lparr>pulse_width := pw\<rparr>\<rparr>
      in usleep 1000000 (sys_ioctl (fd_servo w) MG995_PWM_DUTYRATE (Some (servo_duty w)) w))"

definition servo_init :: "world \<Rightarrow> int \<times> world" where
  "servo_init w =
     (let (fd, w) = sys_open MG995_PWM_PATH w; w = w\<lparr>fd_servo := fd\<rparr> in
      if fd < 0 then (0, w)
      else
        (let w = w\<lparr>servo_duty := (servo_duty w)\<lparr>period := MG995_PWM_PERIOD\<rparr>\<rparr>;
             w = sys_ioctl fd MG995_PWM_ENABLE None w
         in (1, servo_set MG995_PWM_DEGREE_0 w)))"

definition servo_rotate :: "int \<Rightarrow> world \<Rightarrow> int \<times> world" where
  "servo_rotate rotate_amount w =
     (if rotate_amount = 1 then (1, servo_set MG995_PWM_DEGREE_0 w)
      else if rotate_amount = 2 then (1, servo_set MG995_PWM_DEGREE_45 w)
      else if rotate_amount = 3 then (1, servo_set MG995_PWM_DEGREE_90 w)
      else if rotate_amount = 4 then (1, servo_set MG995_PWM_DEGREE_135 w)
      else if rotate_amount = 5 then (1, servo_set MG995_PWM_DEGREE_180 w)
      else (0, w))"

definition servo_deinit :: "world \<Rightarrow> world" where
  "servo_deinit w =
     (let w = servo_set MG995_PWM_DEGREE_0 w in
      sys_close (fd_servo w) (sys_ioctl (fd_servo w) MG995_PWM_DISABLE None w))"

section \<open>humidifier.c\<close>

text \<open>\<open>cnt % 3\<close> is C's remainder, which is negative for a negative \<open>cnt\<close>.\<close>

definition humidifier_init :: "world \<Rightarrow> int \<times> world" where
  "humidifier_init w =
     (let (fd, w) = sys_open HUMIDIFIER_PATH w; w = w\<lparr>fd_humidifier := fd\<rparr> in
      if fd < 0 then (0, w) else (1, sys_ioctl fd HUMIDIFIER_HIGH None w))"

definition humidifier_push :: "world \<Rightarrow> world" where
  "humidifier_push w =
     (let w = w\<lparr>cnt := wrap32 (cnt w + 1)\<rparr> in
      sys_ioctl (fd_humidifier w) HUMIDIFIER_HIGH None
        (usleep 200000 (sys_ioctl (fd_humidifier w) HUMIDIFIER_LOW None w)))"

definition humidifier_push_2 :: "world \<Rightarrow> world" where
  "humidifier_push_2 w = humidifier_push (usleep 500000 (humidifier_push w))"

definition humidifier_on :: "world \<Rightarrow> world" where
  "humidifier_on w =
     usleep 100000
       (if cnt w smod 3 = 0 then humidifier_push w
        else if cnt w smod 3 = 1 then w
        else humidifier_push_2 w)"

definition humidifier_off :: "world \<Rightarrow> world" where
  "humidifier_off w =
     usleep 100000
       (if cnt w smod 3 = 0 then w
        else if cnt w smod 3 = 1 then humidifier_push_2 w
        else humidifier_push w)"

definition humidifier_deinit :: "world \<Rightarrow> world" where
  "humidifier_deinit w = (let w = humidifier_off w in sys_close (fd_humidifier w) w)"

lemmas actuator_defs [dev_defs] = relay_connect_def relay_disconnect_def led_on_def led_off_def
  solenoid_open_def solenoid_close_def dryer_on_def dryer_off_def fan_rotate_def fan_off_def
  servo_rotate_def servo_set_def humidifier_on_def humidifier_off_def humidifier_push_def
  humidifier_push_2_def usleep_def sys_ioctl_def

text \<open>The four devices are different files.\<close>

lemma paths_distinct:
  "RELAY_DEV_PATH \<noteq> MG995_PWM_PATH" "RELAY_DEV_PATH \<noteq> PWM_FAN_PATH" "RELAY_DEV_PATH \<noteq> HUMIDIFIER_PATH"
  "MG995_PWM_PATH \<noteq> PWM_FAN_PATH" "MG995_PWM_PATH \<noteq> HUMIDIFIER_PATH" "PWM_FAN_PATH \<noteq> HUMIDIFIER_PATH"
  by (simp_all add: RELAY_DEV_PATH_def PWM_FAN_PATH_def MG995_PWM_PATH_def HUMIDIFIER_PATH_def)

section \<open>The abstract panel\<close>

text \<open>
  What the actuators do, read off the log of hardware calls: a relay is closed when its pin
  was last driven low (port G, pin 8 minus the channel), the PWM outputs have the setting
  they were asked for last (a refusal by \<open>pwm_config\<close> is not reflected), and the humidifier is in the mode that the number of its button
  presses since power-on selects (0 off, 1 misting, 2 continuous).
\<close>

record panel =
  led_lit :: bool
  valve_open :: bool
  fan_powered :: bool
  dryer_powered :: bool
  fan_pwm :: "(int \<times> int) option"
  drain_pwm :: "(int \<times> int) option"
  mist :: nat

definition relay_pin :: "int \<Rightarrow> pin" where
  "relay_pin channel = GPG (nat (8 - channel))"

definition relay_closed :: "int \<Rightarrow> world \<Rightarrow> bool" where
  "relay_closed channel w \<longleftrightarrow> gpio_level (relay_pin channel) (hw w) = Some 0"

definition presses :: "kcall list \<Rightarrow> nat" where
  "presses cs = length (filter (\<lambda>c. c = GpioSet (GPG 15) 0) cs)"

definition panel_of :: "world \<Rightarrow> panel" where
  "panel_of w =
     \<lparr>led_lit = relay_closed 1 w, valve_open = relay_closed 2 w, fan_powered = relay_closed 3 w,
      dryer_powered = relay_closed 4 w, fan_pwm = pwm_setting 3 (hw w),
      drain_pwm = pwm_setting 2 (hw w), mist = presses (hw w) mod 3\<rparr>"

text \<open>The devices are initialised: their files are open, the periods set, the button counted.\<close>

definition ready :: "world \<Rightarrow> bool" where
  "ready w \<longleftrightarrow>
     files w (fd_relay w) = Some RELAY_DEV_PATH \<and> files w (fd_fan w) = Some PWM_FAN_PATH \<and>
     files w (fd_servo w) = Some MG995_PWM_PATH \<and> files w (fd_humidifier w) = Some HUMIDIFIER_PATH \<and>
     period (fan_duty w) = PWM_FAN_PERIOD \<and> period (servo_duty w) = MG995_PWM_PERIOD \<and>
     cnt w = wrap32 (int (presses (hw w)))"

lemma driver_ioctl_paths [simp]:
  "driver_ioctl cfg RELAY_DEV_PATH cmd arg = relay_ioctl cmd"
  "driver_ioctl cfg HUMIDIFIER_PATH cmd arg = humidifier_ioctl cmd"
  "driver_ioctl cfg PWM_FAN_PATH cmd arg = FAN_ioctl cfg 3 cmd arg"
  "driver_ioctl cfg MG995_PWM_PATH cmd arg = MG995_ioctl cfg 2 cmd arg"
  by (simp_all add: driver_ioctl_def fops_defs pwm_channel_def FAN_open_def MG995_open_def)

lemma driver_open_paths [simp]:
  "driver_open RELAY_DEV_PATH = []" "driver_open HUMIDIFIER_PATH = []"
  "driver_open PWM_FAN_PATH = [PwmRequest 3]" "driver_open MG995_PWM_PATH = [PwmRequest 2]"
  by (simp_all add: driver_open_def fops_defs FAN_open_def MG995_open_def pwm_channel_def)

lemma driver_release_paths [simp]:
  "driver_release RELAY_DEV_PATH = []" "driver_release HUMIDIFIER_PATH = []"
  "driver_release PWM_FAN_PATH = [PwmFree 3]" "driver_release MG995_PWM_PATH = [PwmFree 2]"
  by (simp_all add: driver_release_def fops_defs FAN_open_def FAN_release_def MG995_open_def
      MG995_release_def pwm_channel_def)

lemma presses_simps [simp]:
  "presses [] = 0"
  "presses (cs @ ds) = presses cs + presses ds"
  "presses (c # cs) = (if c = GpioSet (GPG 15) 0 then Suc (presses cs) else presses cs)"
  by (auto simp: presses_def)

lemmas panel_simps = panel_of_def relay_closed_def relay_pin_def gpio_level_append
  pwm_setting_append

lemma relay_connect_panel:
  assumes "ready w"
  shows "ready (snd (relay_connect ch w))"
    "panel_of (led_on w) = (panel_of w)\<lparr>led_lit := True\<rparr>"
    "panel_of (solenoid_open w) = (panel_of w)\<lparr>valve_open := True\<rparr>"
    "panel_of (dryer_on w) = (panel_of w)\<lparr>dryer_powered := True\<rparr>"
    "panel_of (snd (relay_connect 3 w)) = (panel_of w)\<lparr>fan_powered := True\<rparr>"
  using assms by (simp_all add: ready_def dev_defs panel_simps)

lemma relay_disconnect_panel:
  assumes "ready w"
  shows "ready (snd (relay_disconnect ch w))"
    "panel_of (led_off w) = (panel_of w)\<lparr>led_lit := False\<rparr>"
    "panel_of (solenoid_close w) = (panel_of w)\<lparr>valve_open := False\<rparr>"
    "panel_of (dryer_off w) = (panel_of w)\<lparr>dryer_powered := False\<rparr>"
    "panel_of (fan_off w) = (panel_of w)\<lparr>fan_powered := False\<rparr>"
  using assms by (simp_all add: ready_def dev_defs panel_simps)

lemma fan_rotate_panel:
  assumes "ready w" and "0 \<le> speed" and "speed < 11"
  shows "ready (snd (fan_rotate speed w))"
    "panel_of (snd (fan_rotate speed w)) =
       (panel_of w)\<lparr>fan_powered := True, fan_pwm := Some (4000 * speed, PWM_FAN_PERIOD)\<rparr>"
  using assms by (simp_all add: ready_def dev_defs panel_simps PWM_FAN_SPEED_def)

lemma servo_set_panel:
  assumes "ready w"
  shows "ready (servo_set pw w)"
    "panel_of (servo_set pw w) = (panel_of w)\<lparr>drain_pwm := Some (pw, MG995_PWM_PERIOD)\<rparr>"
  using assms by (simp_all add: ready_def dev_defs panel_simps)

lemma humidifier_push_panel:
  assumes "ready w"
  shows "ready (humidifier_push w)" "presses (hw (humidifier_push w)) = Suc (presses (hw w))"
    "panel_of (humidifier_push w) = (panel_of w)\<lparr>mist := Suc (mist (panel_of w)) mod 3\<rparr>"
  using assms by (simp_all add: ready_def dev_defs panel_simps mod_Suc_eq wrap32_Suc)

lemma usleep_panel [simp]:
  "ready (usleep n w) = ready w" "panel_of (usleep n w) = panel_of w"
  "presses (hw (usleep n w)) = presses (hw w)"
  by (simp_all add: ready_def usleep_def panel_simps)

lemma mist_panel_of [simp]: "mist (panel_of w) = presses (hw w) mod 3"
  by (simp add: panel_of_def)

lemma panel_mist_id [simp]: "presses (hw w) mod 3 = k \<Longrightarrow> (panel_of w)\<lparr>mist := k\<rparr> = panel_of w"
  by (simp add: panel_of_def)

lemma humidifier_push_2_panel:
  assumes "ready w"
  shows "ready (humidifier_push_2 w)" "presses (hw (humidifier_push_2 w)) = presses (hw w) + 2"
    "panel_of (humidifier_push_2 w) = (panel_of w)\<lparr>mist := (presses (hw w) + 2) mod 3\<rparr>"
  using assms by (simp_all add: humidifier_push_2_def humidifier_push_panel mod_Suc_eq)

text \<open>As long as the count of presses fits an \<open>int\<close>, the remainder is the mode.\<close>

lemma cnt_mode:
  assumes "ready w" and "presses (hw w) \<le> 2147483647"
  shows "cnt w smod 3 = int (presses (hw w) mod 3)"
  using assms by (simp add: ready_def in_i32_def signed_modulo_int_def sgn_if zmod_int)

lemma humidifier_on_panel:
  assumes "ready w" and "presses (hw w) \<le> 2147483647"
  shows "ready (humidifier_on w)" "panel_of (humidifier_on w) = (panel_of w)\<lparr>mist := 1\<rparr>"
    "presses (hw (humidifier_on w)) \<le> presses (hw w) + 2"
proof -
  consider "presses (hw w) mod 3 = 0" | "presses (hw w) mod 3 = 1" | "presses (hw w) mod 3 = 2"
    by linarith
  then have "ready (humidifier_on w) \<and> panel_of (humidifier_on w) = (panel_of w)\<lparr>mist := 1\<rparr> \<and>
    presses (hw (humidifier_on w)) \<le> presses (hw w) + 2"
  proof cases
    case 3
    then have "(presses (hw w) + 2) mod 3 = 1" by presburger
    then show ?thesis
      using 3 assms by (simp add: humidifier_on_def cnt_mode humidifier_push_2_panel)
  qed (use assms in \<open>simp_all add: humidifier_on_def cnt_mode humidifier_push_panel\<close>)
  then show "ready (humidifier_on w)" "panel_of (humidifier_on w) = (panel_of w)\<lparr>mist := 1\<rparr>"
    "presses (hw (humidifier_on w)) \<le> presses (hw w) + 2" by simp_all
qed

lemma humidifier_off_panel:
  assumes "ready w" and "presses (hw w) \<le> 2147483647"
  shows "ready (humidifier_off w)" "panel_of (humidifier_off w) = (panel_of w)\<lparr>mist := 0\<rparr>"
    "presses (hw (humidifier_off w)) \<le> presses (hw w) + 2"
proof -
  consider "presses (hw w) mod 3 = 0" | "presses (hw w) mod 3 = 1" | "presses (hw w) mod 3 = 2"
    by linarith
  then have "ready (humidifier_off w) \<and> panel_of (humidifier_off w) = (panel_of w)\<lparr>mist := 0\<rparr> \<and>
    presses (hw (humidifier_off w)) \<le> presses (hw w) + 2"
  proof cases
    case 2
    then have "(presses (hw w) + 2) mod 3 = 0" by presburger
    then show ?thesis
      using 2 assms by (simp add: humidifier_off_def cnt_mode humidifier_push_2_panel)
  qed (use assms in \<open>simp_all add: humidifier_off_def cnt_mode humidifier_push_panel\<close>)
  then show "ready (humidifier_off w)" "panel_of (humidifier_off w) = (panel_of w)\<lparr>mist := 0\<rparr>"
    "presses (hw (humidifier_off w)) \<le> presses (hw w) + 2" by simp_all
qed

section \<open>The interface of a switch\<close>

text \<open>
  Every two-state actuator promises the same to the control logic: switching it changes its
  own part of the panel (\<open>put\<close>) and nothing else. \<open>ok n w\<close> says that the device works and
  may be switched \<open>n\<close> more times.
\<close>

fun run_switch :: "('w \<Rightarrow> 'w) \<Rightarrow> ('w \<Rightarrow> 'w) \<Rightarrow> bool list \<Rightarrow> 'w \<Rightarrow> 'w" where
  "run_switch on off [] w = w"
| "run_switch on off (b # bs) w = run_switch on off bs (if b then on w else off w)"

locale switch =
  fixes ok :: "nat \<Rightarrow> 'w \<Rightarrow> bool"
    and view :: "'w \<Rightarrow> 'p"
    and on off :: "'w \<Rightarrow> 'w"
    and put :: "bool \<Rightarrow> 'p \<Rightarrow> 'p"
  assumes on_ok: "ok (Suc n) w \<Longrightarrow> ok n (on w)"
    and off_ok: "ok (Suc n) w \<Longrightarrow> ok n (off w)"
    and on_view: "ok (Suc n) w \<Longrightarrow> view (on w) = put True (view w)"
    and off_view: "ok (Suc n) w \<Longrightarrow> view (off w) = put False (view w)"
    and put_put: "put a (put b p) = put a p"
begin

lemma run_ok: "ok (length bs + n) w \<Longrightarrow> ok n (run_switch on off bs w)"
  by (induction bs arbitrary: w) (auto intro: on_ok off_ok)

text \<open>The last command wins, whatever came before.\<close>

lemma run_last:
  "ok (length bs) w \<Longrightarrow> bs \<noteq> [] \<Longrightarrow> view (run_switch on off bs w) = put (last bs) (view w)"
proof (induction bs arbitrary: w)
  case (Cons b bs)
  let ?w = "if b then on w else off w"
  have w: "ok (length bs) ?w" "view ?w = put b (view w)"
    using Cons.prems(1) on_ok off_ok on_view off_view by auto
  show ?case
    using Cons.IH [OF w(1)] w(2) put_put by (cases "bs = []") auto
qed simp

lemma on_idem: "ok 2 w \<Longrightarrow> view (on (on w)) = view (on w)"
  using run_last [of "[True, True]" w] on_view [of 1 w] by (simp add: numeral_2_eq_2)

lemma off_idem: "ok 2 w \<Longrightarrow> view (off (off w)) = view (off w)"
  using run_last [of "[False, False]" w] off_view [of 1 w] by (simp add: numeral_2_eq_2)

end

text \<open>The humidifier has one button only; it is a switch as long as the presses can be counted.\<close>

definition mist_ok :: "nat \<Rightarrow> world \<Rightarrow> bool" where
  "mist_ok n w \<longleftrightarrow> ready w \<and> presses (hw w) + 2 * n \<le> 2147483649"

interpretation led: switch "\<lambda>_. ready" panel_of led_on led_off "\<lambda>b p. p\<lparr>led_lit := b\<rparr>"
  by unfold_locales
    (simp_all add: relay_connect_panel(2) relay_disconnect_panel(2),
     simp_all add: relay_connect_panel(1) relay_disconnect_panel(1) led_on_def led_off_def)

interpretation valve: switch "\<lambda>_. ready" panel_of solenoid_open solenoid_close "\<lambda>b p. p\<lparr>valve_open := b\<rparr>"
  by unfold_locales
    (simp_all add: relay_connect_panel(3) relay_disconnect_panel(3),
     simp_all add: relay_connect_panel(1) relay_disconnect_panel(1) solenoid_open_def solenoid_close_def)

interpretation dryer: switch "\<lambda>_. ready" panel_of dryer_on dryer_off "\<lambda>b p. p\<lparr>dryer_powered := b\<rparr>"
  by unfold_locales
    (simp_all add: relay_connect_panel(4) relay_disconnect_panel(4),
     simp_all add: relay_connect_panel(1) relay_disconnect_panel(1) dryer_on_def dryer_off_def)

interpretation mist: switch mist_ok panel_of humidifier_on humidifier_off
  "\<lambda>b p. p\<lparr>mist := if b then 1 else 0\<rparr>"
proof unfold_locales
  fix n w assume "mist_ok (Suc n) w"
  then have w: "ready w" "presses (hw w) \<le> 2147483647" "presses (hw w) + 2 + 2 * n \<le> 2147483649"
    by (auto simp: mist_ok_def)
  show "mist_ok n (humidifier_on w)" "mist_ok n (humidifier_off w)"
    using humidifier_on_panel [OF w(1,2)] humidifier_off_panel [OF w(1,2)] w(3)
    by (auto simp: mist_ok_def)
  show "panel_of (humidifier_on w) = (panel_of w)\<lparr>mist := if True then 1 else 0\<rparr>"
    "panel_of (humidifier_off w) = (panel_of w)\<lparr>mist := if False then 1 else 0\<rparr>"
    using humidifier_on_panel [OF w(1,2)] humidifier_off_panel [OF w(1,2)] by simp_all
qed simp

section \<open>What an operation adds to the log\<close>

lemma relay_init_log:
  assumes "os_open w RELAY_DEV_PATH = fd" and "0 \<le> fd"
  shows "snd (relay_init w) = w\<lparr>files := (files w)(fd \<mapsto> RELAY_DEV_PATH), fd_relay := fd,
    hw := hw w @ [GpioSet (GPG 7) 1, GpioSet (GPG 6) 1, GpioSet (GPG 5) 1, GpioSet (GPG 4) 1]\<rparr>"
  using assms by (simp add: relay_init_def sys_open_def sys_ioctl_def)

lemma relay_connect_log:
  assumes "files w (fd_relay w) = Some RELAY_DEV_PATH"
  shows "relay_connect ch w = (if ch \<in> {1, 2, 3, 4}
    then (1, w\<lparr>hw := hw w @ [GpioSet (relay_pin ch) 0]\<rparr>) else (0, w))"
  using assms by (auto simp: relay_connect_def sys_ioctl_def relay_pin_def)

lemma relay_disconnect_log:
  assumes "files w (fd_relay w) = Some RELAY_DEV_PATH"
  shows "relay_disconnect ch w = (if ch \<in> {1, 2, 3, 4}
    then (1, w\<lparr>hw := hw w @ [GpioSet (relay_pin ch) 1]\<rparr>) else (0, w))"
  using assms by (auto simp: relay_disconnect_def sys_ioctl_def relay_pin_def)

lemma relay_deinit_log:
  assumes "files w (fd_relay w) = Some RELAY_DEV_PATH"
  shows "relay_deinit w = w\<lparr>files := (files w)(fd_relay w := None),
    hw := hw w @ [GpioSet (GPG 7) 1, GpioSet (GPG 6) 1, GpioSet (GPG 5) 1, GpioSet (GPG 4) 1]\<rparr>"
  using assms by (simp add: relay_deinit_def sys_close_def sys_ioctl_def)

lemma usleep_log: "usleep n w = w\<lparr>hw := hw w @ [Sleep n]\<rparr>"
  by (simp add: usleep_def)

lemma humidifier_push_log:
  assumes "files v (fd_humidifier v) = Some HUMIDIFIER_PATH"
  shows "humidifier_push v = v\<lparr>cnt := wrap32 (cnt v + 1),
    hw := hw v @ [GpioSet (GPG 15) 0, Sleep 200000, GpioSet (GPG 15) 1]\<rparr>"
  using assms by (simp add: humidifier_push_def usleep_def sys_ioctl_def)

lemma humidifier_init_log:
  assumes "os_open w HUMIDIFIER_PATH = fd" and "0 \<le> fd"
  shows "humidifier_init w = (1, w\<lparr>files := (files w)(fd \<mapsto> HUMIDIFIER_PATH), fd_humidifier := fd,
    hw := hw w @ [GpioSet (GPG 15) 1]\<rparr>)"
  using assms by (simp add: humidifier_init_def sys_open_def sys_ioctl_def)

lemmas op_logs = relay_init_log relay_connect_log relay_disconnect_log relay_deinit_log usleep_log
  humidifier_push_log humidifier_init_log

section \<open>Initialisation\<close>

text \<open>
  The state before \<open>devices_init\<close>: nothing open, static variables zero, nothing driven.
  \<open>opens\<close>: the environment grants the four device files, on distinct descriptors.
\<close>

definition world0 :: "(string \<Rightarrow> int) \<Rightarrow> (nat \<Rightarrow> int \<Rightarrow> int \<Rightarrow> int) \<Rightarrow> world" where
  "world0 openf cfg =
     \<lparr>os_open = openf, pwm_result = cfg, files = (\<lambda>_. None), hw = [],
      fd_relay = 0, fd_fan = 0, fd_servo = 0, fd_humidifier = 0,
      fan_duty = \<lparr>pulse_width = 0, period = 0\<rparr>, servo_duty = \<lparr>pulse_width = 0, period = 0\<rparr>, cnt = 0\<rparr>"

definition opens :: "(string \<Rightarrow> int) \<Rightarrow> bool" where
  "opens openf \<longleftrightarrow>
     (\<forall>p \<in> set [RELAY_DEV_PATH, PWM_FAN_PATH, MG995_PWM_PATH, HUMIDIFIER_PATH]. 0 \<le> openf p) \<and>
     distinct (map openf [RELAY_DEV_PATH, PWM_FAN_PATH, MG995_PWM_PATH, HUMIDIFIER_PATH])"

text \<open>The actuators in the order \<open>devices_init\<close> of main.c initialises them.\<close>

definition actuators_init :: "world \<Rightarrow> world" where
  "actuators_init w = snd (humidifier_init (snd (fan_init (snd (servo_init (snd (relay_init w)))))))"

lemma actuators_init_panel:
  assumes "opens openf"
  shows "ready (actuators_init (world0 openf cfg))"
    "panel_of (actuators_init (world0 openf cfg)) =
       \<lparr>led_lit = False, valve_open = False, fan_powered = False, dryer_powered = False,
        fan_pwm = None, drain_pwm = Some (MG995_PWM_DEGREE_0, MG995_PWM_PERIOD), mist = 0\<rparr>"
proof -
  note defs = actuators_init_def world0_def relay_init_def servo_init_def fan_init_def
    humidifier_init_def sys_open_def Let_def
    sys_ioctl_def usleep_def servo_set_def
  show "ready (actuators_init (world0 openf cfg))"
    using assms paths_distinct paths_distinct [symmetric]
    by (simp add: defs opens_def ready_def)
  show "panel_of (actuators_init (world0 openf cfg)) =
       \<lparr>led_lit = False, valve_open = False, fan_powered = False, dryer_powered = False,
        fan_pwm = None, drain_pwm = Some (MG995_PWM_DEGREE_0, MG995_PWM_PERIOD), mist = 0\<rparr>"
    using assms paths_distinct paths_distinct [symmetric]
    by (simp add: defs opens_def panel_simps gpio_level_def pwm_setting_def)
qed

end
