(* ===== verification/Sensors.thy ===== *)
theory Sensors
  imports Modules
begin

text \<open>
  The user level device library \<^verbatim>\<open>drivers/lib\<close>, sensor side: moisture, magnetic, humitemp
  and photo. What the pins carry is a function from pins to levels, what the DHT11 driver
  delivers a return code with the bytes copied, and the photo sensor's bus the results of
  its transfers.
\<close>

section \<open>State\<close>

record sensors =
  s_open :: "string \<Rightarrow> int"                 \<comment> \<open>what \<open>open\<close> returns for a path\<close>
  s_files :: "int \<Rightarrow> string option"
  fd_moisture :: int
  fd_humitemp :: int
  humitemp_buf :: "u8 list"
  fd_magnetic :: int
  fd_photo :: int

definition HUMITEMP_DEV_PATH :: string where "HUMITEMP_DEV_PATH = ''/dev/mds2450_dht11''"
definition PHOTO_PATH :: string where "PHOTO_PATH = ''/dev/i2c-0''"
definition PHOTO_INIT_OK :: int where "PHOTO_INIT_OK = 1"
definition PHOTO_INIT_FILE_OPEN_FAIL :: int where "PHOTO_INIT_FILE_OPEN_FAIL = -1"
definition PHOTO_INIT_I2C_FAIL :: int where "PHOTO_INIT_I2C_FAIL = -2"
definition NIGHT_TIME :: int where "NIGHT_TIME = 1"
definition MAGNETIC_DETECTED :: int where "MAGNETIC_DETECTED = 1"
definition MOISTURE_FULL :: int where "MOISTURE_FULL = 1"

definition c_not :: "int \<Rightarrow> int" where
  "c_not x = (if x = 0 then 1 else 0)"

definition s_sys_open :: "string \<Rightarrow> sensors \<Rightarrow> int \<times> sensors" where
  "s_sys_open path s =
     (let fd = s_open s path in
      (fd, if fd < 0 then s else s\<lparr>s_files := (s_files s)(fd \<mapsto> path)\<rparr>))"

definition s_sys_close :: "int \<Rightarrow> sensors \<Rightarrow> sensors" where
  "s_sys_close fd s = s\<lparr>s_files := (s_files s)(fd := None)\<rparr>"

text \<open>\<open>read(fd, NULL, 0)\<close> on the two level sensors; -1 when the descriptor is not open.\<close>

definition read_level :: "(pin \<Rightarrow> int) \<Rightarrow> int \<Rightarrow> sensors \<Rightarrow> int" where
  "read_level get fd s =
     (case s_files s fd of None \<Rightarrow> -1
      | Some path \<Rightarrow>
          (case fops_at path of None \<Rightarrow> -1
           | Some f \<Rightarrow> (case fop_read f of Some (ReadLevel h) \<Rightarrow> h get | _ \<Rightarrow> -1)))"

section \<open>moisture.c\<close>

definition moisture_init :: "sensors \<Rightarrow> int \<times> sensors" where
  "moisture_init s =
     (let (fd, s) = s_sys_open MOISTURE_DEV_PATH s; s = s\<lparr>fd_moisture := fd\<rparr>
      in (if fd < 0 then 0 else 1, s))"

definition moisture_is_full :: "(pin \<Rightarrow> int) \<Rightarrow> sensors \<Rightarrow> int" where
  "moisture_is_full get s = c_not (read_level get (fd_moisture s) s)"

definition moisture_deinit :: "sensors \<Rightarrow> sensors" where
  "moisture_deinit s = s_sys_close (fd_moisture s) s"

section \<open>magnetic.c\<close>

definition magnetic_init :: "sensors \<Rightarrow> int \<times> sensors" where
  "magnetic_init s =
     (let (fd, s) = s_sys_open MAGNETIC_DEV_PATH s; s = s\<lparr>fd_magnetic := fd\<rparr>
      in (if fd < 0 then 0 else 1, s))"

definition magnetic_is_detected :: "(pin \<Rightarrow> int) \<Rightarrow> sensors \<Rightarrow> int" where
  "magnetic_is_detected get s = c_not (read_level get (fd_magnetic s) s)"

text \<open>Two readings, two seconds apart: \<open>get\<close> and \<open>later\<close>.\<close>

definition mag_valid_detectection :: "(pin \<Rightarrow> int) \<Rightarrow> (pin \<Rightarrow> int) \<Rightarrow> sensors \<Rightarrow> int" where
  "mag_valid_detectection get later s =
     (if magnetic_is_detected get s \<noteq> 0 then
        if magnetic_is_detected later s \<noteq> 0 then 1 else 0
      else 0)"

definition magnetic_deinit :: "sensors \<Rightarrow> sensors" where
  "magnetic_deinit s = s_sys_close (fd_magnetic s) s"

section \<open>humitemp.c\<close>

definition humitemp_init :: "sensors \<Rightarrow> int \<times> sensors" where
  "humitemp_init s =
     (let (fd, s) = s_sys_open HUMITEMP_DEV_PATH s; s = s\<lparr>fd_humitemp := fd\<rparr>
      in (if fd < 0 then 0 else 1, s))"

text \<open>The value of a plain \<open>char\<close>, which is signed on some machines and unsigned on others.\<close>

definition char_value :: "bool \<Rightarrow> u8 \<Rightarrow> int" where
  "char_value char_signed c = (if char_signed then sint c else uint c)"

text \<open>
  \<open>humitemp_read\<close>: \<open>read\<close> returns \<open>count\<close> and has stored \<open>bytes\<close> at the front of the static
  buffer. The result is the pair stored into the caller's array, \<open>None\<close> on
  \<open>!HUMITEMP_READ_OK\<close>.
\<close>

definition humitemp_read :: "bool \<Rightarrow> int \<times> u8 list \<Rightarrow> sensors \<Rightarrow> (int \<times> int) option \<times> sensors" where
  "humitemp_read char_signed delivered s =
     (let (count, bytes) =
            (if s_files s (fd_humitemp s) = Some HUMITEMP_DEV_PATH then delivered else (-1, []));
          buf = bytes @ drop (length bytes) (humitemp_buf s);
          s = s\<lparr>humitemp_buf := buf\<rparr>
      in if count = 5 \<and> char_value char_signed (buf ! 0) \<noteq> -1 \<and> char_value char_signed (buf ! 2) \<noteq> -1
         then (Some (char_value char_signed (buf ! 0), char_value char_signed (buf ! 2)), s)
         else (None, s))"

definition humitemp_deinit :: "sensors \<Rightarrow> sensors" where
  "humitemp_deinit s = s_sys_close (fd_humitemp s) s"

section \<open>photo.c\<close>

definition photo_init :: "int \<Rightarrow> sensors \<Rightarrow> int \<times> sensors" where
  "photo_init ioctl_rc s =
     (let (fd, s) = s_sys_open PHOTO_PATH s; s = s\<lparr>fd_photo := fd\<rparr> in
      if fd < 0 then (PHOTO_INIT_FILE_OPEN_FAIL, s)
      else if ioctl_rc < 0 then (PHOTO_INIT_I2C_FAIL, s)
      else (PHOTO_INIT_OK, s))"

text \<open>
  \<open>photo_get_intensity\<close>: \<open>wr i\<close> is what the write number \<open>i\<close> returns, \<open>rd\<close> what the read
  returns and \<open>temp\<close> the two bytes it leaves. The second component of the result is the
  bytes written. The division of an integer below \<open>2 ^ 16\<close> by the \<open>double\<close> 1.2, truncated, is
  the integer division by 6/5: a quotient that is not an integer is at least 1/6 away from
  the next one, and multiples of 6 divide exactly.
\<close>

definition photo_get_intensity :: "(nat \<Rightarrow> int) \<Rightarrow> int \<Rightarrow> u8 \<times> u8 \<Rightarrow> int \<times> int list" where
  "photo_get_intensity wr rd temp =
     (if wr 0 = -1 then (wr 0, [0x01])
      else if wr 1 = -1 then (wr 1, [0x01, 0x07])
      else if wr 2 = -1 then (wr 2, [0x01, 0x07, 0x46])
      else if wr 3 = -1 then (wr 3, [0x01, 0x07, 0x46, 0x20])
      else if wr 4 = -1 then (wr 4, [0x01, 0x07, 0x46, 0x20, 0x47])
      else if rd = -1 then (rd, [0x01, 0x07, 0x46, 0x20, 0x47])
      else
        (let intensity = uint (fst temp) * 256 + uint (snd temp)
         in (intensity * 5 div 6, [0x01, 0x07, 0x46, 0x20, 0x47])))"

text \<open>\<open>check_night\<close>: its \<open>while (1)\<close> returns in the first round, by the hour of local time.\<close>

definition check_night :: "int \<Rightarrow> int" where
  "check_night tm_hour = (if tm_hour \<ge> 8 \<and> tm_hour < 18 then c_not NIGHT_TIME else NIGHT_TIME)"

definition photo_deinit :: "sensors \<Rightarrow> sensors" where
  "photo_deinit s = s_sys_close (fd_photo s) s"

section \<open>Facts\<close>

lemma sensor_paths [simp]:
  "MOISTURE_DEV_PATH \<noteq> MAGNETIC_DEV_PATH" "MAGNETIC_DEV_PATH \<noteq> MOISTURE_DEV_PATH"
  by (simp_all add: MOISTURE_DEV_PATH_def MAGNETIC_DEV_PATH_def)

lemma read_level_open [simp]:
  "s_files s fd = Some MOISTURE_DEV_PATH \<Longrightarrow> read_level get fd s = get (GPG 2)"
  "s_files s fd = Some MAGNETIC_DEV_PATH \<Longrightarrow> read_level get fd s = get (GPG 3)"
  "s_files s fd = None \<Longrightarrow> read_level get fd s = -1"
  by (simp_all add: read_level_def fops_defs soil_read_def MAGNETIC_read_def)

text \<open>A sensor that could not be opened reads as "nothing detected", not as an error.\<close>

lemma moisture_is_full_cases:
  "s_files s (fd_moisture s) = Some MOISTURE_DEV_PATH \<Longrightarrow> moisture_is_full get s = c_not (get (GPG 2))"
  "s_files s (fd_moisture s) = None \<Longrightarrow> moisture_is_full get s = 0"
  by (simp_all add: moisture_is_full_def c_not_def)

lemma mag_valid_open:
  "s_files s (fd_magnetic s) = Some MAGNETIC_DEV_PATH \<Longrightarrow>
   mag_valid_detectection get later s = (if get (GPG 3) = 0 \<and> later (GPG 3) = 0 then 1 else 0)"
  by (simp add: mag_valid_detectection_def magnetic_is_detected_def c_not_def)

lemma mag_valid_range: "mag_valid_detectection get later s \<in> {0, 1}"
  by (simp add: mag_valid_detectection_def)

lemma moisture_range: "moisture_is_full get s \<in> {0, 1}"
  by (simp add: moisture_is_full_def c_not_def)

lemma u8_bounds: "0 \<le> uint (c :: u8)" "uint (c :: u8) < 256" "-128 \<le> sint (c :: u8)" "sint (c :: u8) < 128"
  using uint_range_size [of c] sint_range_size [of c] by (simp_all add: word_size)

lemma char_value_bounds: "-128 \<le> char_value char_signed c" "char_value char_signed c < 256"
proof -
  obtain u where u: "uint c = u" by simp
  then show "-128 \<le> char_value char_signed c" "char_value char_signed c < 256"
    using u8_bounds [of c] unfolding char_value_def u by auto
qed

lemma humitemp_read_bounds:
  assumes "humitemp_read char_signed delivered s = (Some (humi, temp), s')"
  shows "-128 \<le> humi" "humi < 256" "-128 \<le> temp" "temp < 256"
  using assms char_value_bounds by (auto simp: humitemp_read_def Let_def split: prod.splits if_splits)

text \<open>
  The intensity is between 0 and 54612, so that -1 reports a failed transfer and nothing else.
\<close>

lemma photo_intensity_range:
  "fst (photo_get_intensity wr rd temp) = -1 \<and> (rd = -1 \<or> (\<exists>i < 5. wr i = -1)) \<or>
   0 \<le> fst (photo_get_intensity wr rd temp) \<and> fst (photo_get_intensity wr rd temp) \<le> 54612 \<and>
     rd \<noteq> -1 \<and> (\<forall>i < 5. wr i \<noteq> -1)"
proof -
  have less5: "(\<forall>i < 5. P i) \<longleftrightarrow> P 0 \<and> P 1 \<and> P 2 \<and> P 3 \<and> P (4 :: nat)" for P
    by (auto simp: less_Suc_eq numeral_eq_Suc)
  obtain a b where ab: "uint (fst temp) = a" "uint (snd temp) = b" by simp
  then have "0 \<le> a" "a < 256" "0 \<le> b" "b < 256"
    using u8_bounds [of "fst temp"] u8_bounds [of "snd temp"] by simp_all
  then have "0 \<le> (a * 256 + b) * 5 div 6" "(a * 256 + b) * 5 div 6 \<le> 54612" by auto
  then show ?thesis
    using less5 [of "\<lambda>i. wr i \<noteq> -1"] unfolding photo_get_intensity_def Let_def ab by auto
qed

end
