(* ===== verification/Database.thy ===== *)
theory Database
  imports CString
begin

text \<open>
  \<^verbatim>\<open>lib/database.c\<close>: the sensor log in SQLite. The library is a parameter: \<open>open_ok\<close> and
  \<open>exec_ok\<close> say whether \<open>sqlite3_open\<close> and \<open>sqlite3_exec\<close> return \<open>SQLITE_OK\<close> (the latter as
  a function of the statements executed before), \<open>rows\<close> the rows a query hands to the callback. The state is
  the handle and the texts executed successfully. As in theory \<open>LinkedList\<close>, \<open>stale\<close> says
  whether released storage can still be read.
\<close>

section \<open>State\<close>

record database =
  db_exec_ok :: "string list \<Rightarrow> string \<Rightarrow> bool"
  db_rows :: "string list \<Rightarrow> string \<Rightarrow> string list"
  db_live :: bool
  db_stmts :: "string list"

definition DATABASE_HUMI :: int where "DATABASE_HUMI = 1"
definition DATABASE_TEMP :: int where "DATABASE_TEMP = 2"
definition DATABASE_PHOTO :: int where "DATABASE_PHOTO = 3"
definition DATABASE_MAGNET :: int where "DATABASE_MAGNET = 4"
definition DATABASE_MOISTURE :: int where "DATABASE_MOISTURE = 5"
definition DATABASE_SQL_SIZE :: nat where "DATABASE_SQL_SIZE = 128"

lemmas table_defs = DATABASE_HUMI_def DATABASE_TEMP_def DATABASE_PHOTO_def DATABASE_MAGNET_def
  DATABASE_MOISTURE_def

section \<open>The operations\<close>

text \<open>\<open>sqlite3_exec\<close>: on a closed handle it is a use after release.\<close>

definition sqlite_exec :: "string \<Rightarrow> database \<Rightarrow> (bool \<times> database) result" where
  "sqlite_exec sql d =
     (if \<not> db_live d then Inl UseAfterFree
      else if db_exec_ok d (db_stmts d) sql then Inr (True, d\<lparr>db_stmts := db_stmts d @ [sql]\<rparr>)
      else Inr (False, d))"

definition create_tables :: string where
  "create_tables =
     ''CREATE TABLE IF NOT EXISTS            humi(id INTEGER PRIMARY KEY, humi INT);'' @
     ''        CREATE TABLE IF NOT EXISTS            temp(id INTEGER PRIMARY KEY, temp INT);'' @
     ''         CREATE TABLE IF NOT EXISTS            photo(id INTEGER PRIMARY KEY, photo INT);'' @
     ''         CREATE TABLE IF NOT EXISTS            magnet(id INTEGER PRIMARY KEY, magnet INT);'' @
     ''         CREATE TABLE IF NOT EXISTS            moisture(id INTEGER PRIMARY KEY, moisture INT);''"

text \<open>
  \<open>database_init\<close> reports a failed open and goes on; it prints the message of a failed
  \<open>exec\<close> before it releases it, and closes the handle once more.
\<close>

definition database_init :: "bool \<Rightarrow> database \<Rightarrow> database result" where
  "database_init open_ok d =
     (let d = d\<lparr>db_live := open_ok\<rparr> in
      case sqlite_exec create_tables d of Inl e \<Rightarrow> Inl e
      | Inr (ok, d') \<Rightarrow> if ok then Inr d' else Inr (d'\<lparr>db_live := False\<rparr>))"

definition database_deinit :: "database \<Rightarrow> database result" where
  "database_deinit d = (if db_live d then Inr (d\<lparr>db_live := False\<rparr>) else Inl UseAfterFree)"

definition insert_text :: "int \<Rightarrow> int \<Rightarrow> string option" where
  "insert_text table data =
     (if table = DATABASE_HUMI then Some (''INSERT INTO humi (humi) VALUES ('' @ show_int data @ '');'')
      else if table = DATABASE_TEMP then Some (''INSERT INTO temp (temp) VALUES ('' @ show_int data @ '');'')
      else if table = DATABASE_PHOTO then Some (''INSERT INTO photo (photo) VALUES ('' @ show_int data @ '');'')
      else if table = DATABASE_MAGNET then Some (''INSERT INTO magnet (magnet) VALUES ('' @ show_int data @ '');'')
      else if table = DATABASE_MOISTURE then Some (''INSERT INTO moisture (moisture) VALUES ('' @ show_int data @ '');'')
      else None)"

text \<open>
  \<open>sprintf\<close> into \<open>sql[128]\<close>, \<open>sqlite3_exec\<close>, and on failure: release \<open>err_msg\<close>, print the
  released message, close the handle.
\<close>

definition database_insert :: "bool \<Rightarrow> int \<Rightarrow> int \<Rightarrow> database \<Rightarrow> database result" where
  "database_insert stale table data d =
     (case insert_text table data of None \<Rightarrow> Inr d
      | Some text \<Rightarrow>
         rbind (put_str text (replicate DATABASE_SQL_SIZE nul)) (\<lambda>sql.
         rbind (sqlite_exec (takeWhile (\<lambda>c. c \<noteq> nul) sql) d) (\<lambda>(ok, d').
           if ok then Inr d'
           else if stale then Inr (d'\<lparr>db_live := False\<rparr>)
           else Inl UseAfterFree)))"

definition select_text :: "int \<Rightarrow> string option" where
  "select_text sensor =
     (if sensor = DATABASE_HUMI then Some ''SELECT humi FROM humi;''
      else if sensor = DATABASE_TEMP then Some ''SELECT temp FROM temp;''
      else if sensor = DATABASE_PHOTO then Some ''SELECT photo FROM photo;''
      else if sensor = DATABASE_MAGNET then Some ''SELECT magnet FROM magnet;''
      else if sensor = DATABASE_MOISTURE then Some ''SELECT moisture FROM moisture;''
      else None)"

text \<open>
  \<open>database_data_socket_transfer\<close>: the callback sends each row followed by a newline and
  goes on when a send fails. A query that fails may have delivered rows before. Result: the
  texts sent, in order.
\<close>

definition transfer_callback :: "string \<Rightarrow> string result" where
  "transfer_callback data0 = map_sum id (\<lambda>_. data0 @ [CHR 0x0A]) (put_str (data0 @ [CHR 0x0A]) (replicate 1024 nul))"

fun transfer_rows :: "string list \<Rightarrow> string list \<Rightarrow> string list result" where
  "transfer_rows [] sent = Inr sent"
| "transfer_rows (r # rs) sent =
     (case transfer_callback r of Inl e \<Rightarrow> Inl e | Inr text \<Rightarrow> transfer_rows rs (sent @ [text]))"

definition database_data_socket_transfer ::
    "bool \<Rightarrow> int \<Rightarrow> database \<Rightarrow> (string list \<times> database) result" where
  "database_data_socket_transfer stale sensor d =
     (case select_text sensor of None \<Rightarrow> Inr ([], d)
      | Some sql \<Rightarrow>
         if \<not> db_live d then Inl UseAfterFree
         else
           rbind (transfer_rows (db_rows d (db_stmts d) sql) []) (\<lambda>sent.
             if db_exec_ok d (db_stmts d) sql then Inr (sent, d)
             else if stale then Inr (sent, d\<lparr>db_live := False\<rparr>)
             else Inl UseAfterFree))"

section \<open>Facts\<close>

lemma takeWhile_put:
  "no_nul s \<Longrightarrow> takeWhile (\<lambda>c. c \<noteq> nul) (s @ nul # rest) = s"
  by (induction s) auto

lemma insert_text_ok:
  assumes "insert_text table data = Some text" and "in_i32 data"
  shows "no_nul text" and "length text < DATABASE_SQL_SIZE"
  using assms show_int_length [of data]
  by (auto simp: insert_text_def DATABASE_SQL_SIZE_def nul_def split: if_splits)

text \<open>The statement never overflows its buffer; what is executed is the statement for the value.\<close>

lemma database_insert_spec:
  assumes "in_i32 data"
  shows "database_insert stale table data d =
    (case insert_text table data of None \<Rightarrow> Inr d
     | Some text \<Rightarrow>
        if \<not> db_live d then Inl UseAfterFree
        else if db_exec_ok d (db_stmts d) text then Inr (d\<lparr>db_stmts := db_stmts d @ [text]\<rparr>)
        else if stale then Inr (d\<lparr>db_live := False\<rparr>)
        else Inl UseAfterFree)"
  using insert_text_ok [OF _ assms]
  by (auto simp: database_insert_def put_str_def sqlite_exec_def takeWhile_put split: option.split)

lemma insert_text_Some: "1 \<le> table \<Longrightarrow> table \<le> 5 \<Longrightarrow> \<exists>text. insert_text table data = Some text"
  by (auto simp: insert_text_def table_defs)

text \<open>
  Logging: what an insertion appends to the executed statements, and that a live handle on
  which every statement succeeds stays live.
\<close>

definition db_healthy :: "database \<Rightarrow> bool" where
  "db_healthy d \<longleftrightarrow> db_live d \<and> (\<forall>h s. db_exec_ok d h s)"

definition log_entry :: "int \<Rightarrow> int \<Rightarrow> string" where
  "log_entry table data = (case insert_text table data of None \<Rightarrow> [] | Some t \<Rightarrow> t)"

lemma database_insert_healthy:
  assumes "db_healthy d" and "in_i32 data" and "1 \<le> table" and "table \<le> 5"
  shows "database_insert stale table data d =
    Inr (d\<lparr>db_stmts := db_stmts d @ [log_entry table data]\<rparr>)"
  using assms insert_text_Some [OF assms(3,4), of data]
  by (auto simp: database_insert_spec db_healthy_def log_entry_def)

lemma db_healthy_upd [simp]: "db_healthy (d\<lparr>db_stmts := s\<rparr>) = db_healthy d"
  by (simp add: db_healthy_def)

text \<open>Distinct values have distinct statements: nothing is lost on the way into the table.\<close>

lemma show_int_inj: "in_i32 x \<Longrightarrow> in_i32 y \<Longrightarrow> show_int x = show_int y \<Longrightarrow> x = y"
  using atoi_show_int [of x "[]"] atoi_show_int [of y "[]"] by simp

lemma log_entry_inj:
  "in_i32 x \<Longrightarrow> in_i32 y \<Longrightarrow> 1 \<le> table \<Longrightarrow> table \<le> 5 \<Longrightarrow>
   log_entry table x = log_entry table y \<Longrightarrow> x = y"
  by (auto simp: log_entry_def insert_text_def table_defs intro: show_int_inj split: if_splits)

end
