(* ===== verification/LinkedList.thy ===== *)
theory LinkedList
  imports Prelude
begin

text \<open>
  \<^verbatim>\<open>lib/list.h\<close> and \<^verbatim>\<open>lib/list.c\<close>: the singly linked list, on an explicit heap of list
  elements. A heap cell is live or released; a released cell keeps the bytes it had, and
  whether reading it is an error or yields these bytes is the parameter \<open>stale\<close> of the
  operations (\<open>False\<close>: the C standard; \<open>True\<close>: an allocator that leaves released
  storage untouched). The result of \<open>malloc\<close> is the argument \<open>new\<close>, \<open>None\<close> for NULL.
\<close>

section \<open>Elements, lists and the heap\<close>

type_synonym addr = nat

record 'd list_elmt =
  list_data :: 'd
  list_next :: "addr option"

record clist =
  list_size :: int
  list_has_destroy :: bool
  list_head :: "addr option"
  list_tail :: "addr option"

datatype 'd cell = Live "'d list_elmt" | Freed "'d list_elmt"

type_synonym 'd heap = "addr \<Rightarrow> 'd cell option"

definition read_elmt :: "bool \<Rightarrow> 'd heap \<Rightarrow> addr option \<Rightarrow> 'd list_elmt result" where
  "read_elmt stale h p =
     (case p of None \<Rightarrow> Inl NullDeref
      | Some a \<Rightarrow> (case h a of None \<Rightarrow> Inl WildPointer
          | Some (Live e) \<Rightarrow> Inr e
          | Some (Freed e) \<Rightarrow> if stale then Inr e else Inl UseAfterFree))"

definition set_next :: "bool \<Rightarrow> 'd heap \<Rightarrow> addr option \<Rightarrow> addr option \<Rightarrow> 'd heap result" where
  "set_next stale h p n =
     (case p of None \<Rightarrow> Inl NullDeref
      | Some a \<Rightarrow> (case h a of None \<Rightarrow> Inl WildPointer
          | Some (Live e) \<Rightarrow> Inr (h(a \<mapsto> Live (e\<lparr>list_next := n\<rparr>)))
          | Some (Freed e) \<Rightarrow>
              if stale then Inr (h(a \<mapsto> Freed (e\<lparr>list_next := n\<rparr>))) else Inl UseAfterFree))"

definition free_elmt :: "'d heap \<Rightarrow> addr option \<Rightarrow> 'd heap result" where
  "free_elmt h p =
     (case p of None \<Rightarrow> Inr h
      | Some a \<Rightarrow> (case h a of None \<Rightarrow> Inl WildPointer
          | Some (Live e) \<Rightarrow> Inr (h(a \<mapsto> Freed e))
          | Some (Freed e) \<Rightarrow> Inl UseAfterFree))"

section \<open>The operations\<close>

definition list_init :: "bool \<Rightarrow> clist" where
  "list_init destroy =
     \<lparr>list_size = 0, list_has_destroy = destroy, list_head = None, list_tail = None\<rparr>"

definition list_ins_next ::
    "bool \<Rightarrow> addr option \<Rightarrow> clist \<Rightarrow> addr option \<Rightarrow> 'd \<Rightarrow> 'd heap \<Rightarrow> (int \<times> clist \<times> 'd heap) result" where
  "list_ins_next stale new l element data h =
     (case new of None \<Rightarrow> Inr (-1, l, h)
      | Some a \<Rightarrow>
         if element = None then
           (let l1 = (if list_size l = 0 then l\<lparr>list_tail := Some a\<rparr> else l);
                h1 = h(a \<mapsto> Live \<lparr>list_data = data, list_next = list_head l1\<rparr>);
                l2 = l1\<lparr>list_head := Some a\<rparr>
            in Inr (0, l2\<lparr>list_size := list_size l2 + 1\<rparr>, h1))
         else
           rbind (read_elmt stale h element) (\<lambda>e.
             let l1 = (if list_next e = None then l\<lparr>list_tail := Some a\<rparr> else l);
                 h1 = h(a \<mapsto> Live \<lparr>list_data = data, list_next = list_next e\<rparr>)
             in rbind (set_next stale h1 element (Some a)) (\<lambda>h2.
                  Inr (0, l1\<lparr>list_size := list_size l1 + 1\<rparr>, h2))))"

text \<open>The third component of the result is what is stored through \<open>data\<close>, if anything is.\<close>

definition list_rem_next ::
    "bool \<Rightarrow> clist \<Rightarrow> addr option \<Rightarrow> 'd heap \<Rightarrow> (int \<times> 'd option \<times> clist \<times> 'd heap) result" where
  "list_rem_next stale l element h =
     (if list_size l = 0 then Inr (-1, None, l, h)
      else if element = None then
        rbind (read_elmt stale h (list_head l)) (\<lambda>old.
          let l1 = l\<lparr>list_head := list_next old\<rparr>;
              l2 = (if list_size l1 = 1 then l1\<lparr>list_tail := None\<rparr> else l1)
          in rbind (free_elmt h (list_head l)) (\<lambda>h1.
               Inr (0, Some (list_data old), l2\<lparr>list_size := list_size l2 - 1\<rparr>, h1)))
      else
        rbind (read_elmt stale h element) (\<lambda>e.
          if list_next e = None then Inr (-1, None, l, h)
          else rbind (read_elmt stale h (list_next e)) (\<lambda>old.
            rbind (set_next stale h element (list_next old)) (\<lambda>h1.
              let l1 = (if list_next old = None then l\<lparr>list_tail := element\<rparr> else l)
              in rbind (free_elmt h1 (list_next e)) (\<lambda>h2.
                   Inr (0, Some (list_data old), l1\<lparr>list_size := list_size l1 - 1\<rparr>, h2))))))"

lemma list_rem_first_size:
  "list_rem_next stale l None h = Inr (rc, data, l', h') \<Longrightarrow> list_size l \<noteq> 0 \<Longrightarrow>
   rc = 0 \<and> list_size l' = list_size l - 1"
  by (auto simp: list_rem_next_def rbind_eq_Inr Let_def split: if_splits)

text \<open>
  The loop of \<open>list_destroy\<close>; \<open>log\<close> holds the data handed to the user's \<open>destroy\<close>
  function so far, in order. The final \<open>memset\<close> is the empty list without \<open>destroy\<close>.
\<close>

function list_destroy_loop ::
    "bool \<Rightarrow> clist \<Rightarrow> 'd heap \<Rightarrow> 'd list \<Rightarrow> ('d list \<times> clist \<times> 'd heap) result" where
  "list_destroy_loop stale l h log =
     (if list_size l > 0 then
        (case list_rem_next stale l None h of Inl e \<Rightarrow> Inl e
         | Inr (rc, data, l', h') \<Rightarrow>
             list_destroy_loop stale l' h'
               (if rc = 0 \<and> list_has_destroy l' then log @ [the data] else log))
      else Inr (log, l, h))"
  by pat_completeness auto

termination
  by (relation "measure (\<lambda>(stale, l, h, log). nat (list_size l))")
    (auto dest!: list_rem_first_size)

declare list_destroy_loop.simps [simp del]

definition list_destroy :: "bool \<Rightarrow> clist \<Rightarrow> 'd heap \<Rightarrow> ('d list \<times> clist \<times> 'd heap) result" where
  "list_destroy stale l h =
     rbind (list_destroy_loop stale l h []) (\<lambda>(log, _, h'). Inr (log, list_init False, h'))"

section \<open>What a list on the heap represents\<close>

text \<open>\<open>chain h p xs q\<close>: from \<open>p\<close>, the live elements \<open>xs\<close> (addresses and data) lead to \<open>q\<close>.\<close>

fun chain :: "'d heap \<Rightarrow> addr option \<Rightarrow> (addr \<times> 'd) list \<Rightarrow> addr option \<Rightarrow> bool" where
  "chain h p [] q = (p = q)"
| "chain h p ((a, d) # xs) q =
     (p = Some a \<and>
      (case h a of Some (Live e) \<Rightarrow> list_data e = d \<and> chain h (list_next e) xs q | _ \<Rightarrow> False))"

definition last_addr :: "(addr \<times> 'd) list \<Rightarrow> addr option" where
  "last_addr xs = (if xs = [] then None else Some (fst (last xs)))"

definition is_list :: "clist \<Rightarrow> 'd heap \<Rightarrow> (addr \<times> 'd) list \<Rightarrow> bool" where
  "is_list l h xs \<longleftrightarrow> chain h (list_head l) xs None \<and> distinct (map fst xs) \<and>
     list_size l = int (length xs) \<and> list_tail l = last_addr xs"

text \<open>An address \<open>malloc\<close> may return: not one of the live cells.\<close>

definition unused :: "'d heap \<Rightarrow> addr \<Rightarrow> bool" where
  "unused h a \<longleftrightarrow> (case h a of Some (Live _) \<Rightarrow> False | _ \<Rightarrow> True)"

lemma chain_append:
  "chain h p (xs @ ys) q \<longleftrightarrow> (\<exists>r. chain h p xs r \<and> chain h r ys q)"
  by (induction xs arbitrary: p) (auto split: option.splits cell.splits)

lemma chain_upd: "a \<notin> fst ` set xs \<Longrightarrow> chain (h(a := c)) p xs q = chain h p xs q"
  by (induction xs arbitrary: p) (auto split: option.splits cell.splits)

lemma chain_live:
  "chain h p xs q \<Longrightarrow> a \<in> fst ` set xs \<Longrightarrow> \<exists>e. h a = Some (Live e)"
proof (induction xs arbitrary: p)
  case (Cons x xs)
  then obtain e where e: "h (fst x) = Some (Live e)" "chain h (list_next e) xs q"
    by (cases x) (auto split: option.splits cell.splits)
  with Cons show ?case by (cases "a = fst x") auto
qed simp

lemma chain_unused: "chain h p xs q \<Longrightarrow> unused h a \<Longrightarrow> a \<notin> fst ` set xs"
  by (auto simp: unused_def dest: chain_live)

lemma chain_unique: "chain h p xs None \<Longrightarrow> chain h p ys None \<Longrightarrow> xs = ys"
proof (induction xs arbitrary: p ys)
  case Nil
  then show ?case by (cases ys) auto
next
  case (Cons x xs)
  then show ?case
    by (cases ys; cases x; cases "hd ys") (auto split: option.splits cell.splits)
qed

lemma last_addr_simps [simp]:
  "last_addr [] = None"
  "last_addr (xs @ [x]) = Some (fst x)"
  "ys \<noteq> [] \<Longrightarrow> last_addr (xs @ ys) = last_addr ys"
  "last_addr (x # xs) = (if xs = [] then Some (fst x) else last_addr xs)"
  by (auto simp: last_addr_def)

lemma last_addr_eq_None [simp]: "last_addr xs = None \<longleftrightarrow> xs = []"
  by (simp add: last_addr_def)

lemma chain_None_iff: "chain h p xs None \<Longrightarrow> p = None \<longleftrightarrow> xs = []"
  by (cases xs) auto

section \<open>Correctness of the operations\<close>

lemma is_list_init: "is_list (list_init d) h []"
  by (simp add: is_list_def list_init_def)

lemma list_ins_next_no_memory: "list_ins_next stale None l element d h = Inr (-1, l, h)"
  by (simp add: list_ins_next_def)

lemma list_ins_next_head:
  assumes "is_list l h xs" and "unused h a"
  shows "\<exists>l' h'. list_ins_next stale (Some a) l None d h = Inr (0, l', h') \<and>
    is_list l' h' ((a, d) # xs) \<and> (\<forall>b. b \<noteq> a \<longrightarrow> h' b = h b)"
  using assms chain_unused [of h "list_head l" xs None a]
  by (auto simp: list_ins_next_def is_list_def Let_def chain_upd image_iff
      split: if_splits)

lemma list_ins_next_after:
  assumes l: "is_list l h (xs @ (b, c) # ys)" and a: "unused h a"
  shows "\<exists>l' h'. list_ins_next stale (Some a) l (Some b) d h = Inr (0, l', h') \<and>
    is_list l' h' (xs @ (b, c) # (a, d) # ys) \<and> (\<forall>x. x \<noteq> a \<longrightarrow> x \<noteq> b \<longrightarrow> h' x = h x)"
proof -
  from l obtain n where ch: "chain h (list_head l) xs (Some b)"
    and b: "h b = Some (Live \<lparr>list_data = c, list_next = n\<rparr>)" and ys: "chain h n ys None"
    and dist: "distinct (map fst (xs @ (b, c) # ys))"
    by (auto simp: is_list_def chain_append split: option.splits cell.splits)
       (metis list_elmt.surjective old.unit.exhaust)
  have na: "a \<notin> fst ` set xs" "a \<noteq> b" "a \<notin> fst ` set ys"
    using chain_unused [OF ch a] chain_unused [OF ys a] b a by (auto simp: unused_def)
  then show ?thesis
    using l ch b ys dist chain_None_iff [OF ys]
    by (auto simp: list_ins_next_def is_list_def Let_def read_elmt_def set_next_def chain_append
        chain_upd last_addr_def image_iff)
qed

lemma list_rem_next_empty:
  "is_list l h [] \<Longrightarrow> list_rem_next stale l element h = Inr (-1, None, l, h)"
  by (simp add: list_rem_next_def is_list_def)

lemma list_rem_next_last:
  "is_list l h (xs @ [(b, c)]) \<Longrightarrow> list_rem_next stale l (Some b) h = Inr (-1, None, l, h)"
  by (auto simp: list_rem_next_def is_list_def chain_append read_elmt_def
      split: option.splits cell.splits)

lemma list_rem_next_head:
  assumes "is_list l h ((a, d) # xs)"
  shows "\<exists>l' h' e. list_rem_next stale l None h = Inr (0, Some d, l', h') \<and>
    is_list l' h' xs \<and> h' = h(a \<mapsto> Freed e) \<and> list_next e = list_head l' \<and>
    list_has_destroy l' = list_has_destroy l"
proof -
  from assms obtain e where e: "list_head l = Some a" "h a = Some (Live e)" "list_data e = d"
    "chain h (list_next e) xs None" "a \<notin> fst ` set xs"
    by (auto simp: is_list_def split: option.splits cell.splits)
  with assms show ?thesis
    by (auto simp: list_rem_next_def is_list_def Let_def read_elmt_def free_elmt_def chain_upd
        last_addr_def)
qed

lemma list_rem_next_after:
  assumes l: "is_list l h (xs @ (b, c) # (a, d) # ys)"
  shows "\<exists>l' h' e. list_rem_next stale l (Some b) h = Inr (0, Some d, l', h') \<and>
    is_list l' h' (xs @ (b, c) # ys) \<and> h' a = Some (Freed e) \<and>
    chain h' (list_next e) ys None \<and> (\<forall>x. x \<noteq> a \<longrightarrow> x \<noteq> b \<longrightarrow> h' x = h x) \<and>
    list_has_destroy l' = list_has_destroy l"
proof -
  from l obtain e f where ch: "chain h (list_head l) xs (Some b)"
    and b: "h b = Some (Live e)" "list_data e = c" "list_next e = Some a"
    and a: "h a = Some (Live f)" "list_data f = d" and ys: "chain h (list_next f) ys None"
    and dist: "distinct (map fst (xs @ (b, c) # (a, d) # ys))"
    by (auto simp: is_list_def chain_append split: option.splits cell.splits)
  then show ?thesis
    using l chain_None_iff [OF ys]
    by (auto simp: list_rem_next_def is_list_def Let_def read_elmt_def set_next_def free_elmt_def
        chain_append chain_upd last_addr_def image_iff)
qed

text \<open>Destroying a list hands every datum to \<open>destroy\<close>, in order, and releases every element.\<close>

lemma list_destroy_loop_spec:
  assumes "is_list l h xs"
  shows "\<exists>l' h'. list_destroy_loop stale l h log =
      Inr (log @ (if list_has_destroy l then map snd xs else []), l', h') \<and>
    (\<forall>a \<in> fst ` set xs. unused h' a) \<and> (\<forall>a. a \<notin> fst ` set xs \<longrightarrow> h' a = h a)"
  using assms
proof (induction xs arbitrary: l h log)
  case Nil
  then show ?case
    by (subst list_destroy_loop.simps) (auto simp: is_list_def)
next
  case (Cons x xs)
  obtain a d where x: "x = (a, d)" by (cases x)
  obtain l1 h1 e where rem: "list_rem_next stale l None h = Inr (0, Some d, l1, h1)"
    and l1: "is_list l1 h1 xs" and h1: "h1 = h(a \<mapsto> Freed e)"
    and dst: "list_has_destroy l1 = list_has_destroy l"
    using list_rem_next_head [of l h a d xs stale] Cons.prems x by blast
  have na: "a \<notin> fst ` set xs" using Cons.prems x by (auto simp: is_list_def)
  let ?log = "if list_has_destroy l then log @ [d] else log"
  have "list_destroy_loop stale l h log = list_destroy_loop stale l1 h1 ?log"
    using Cons.prems rem dst by (subst list_destroy_loop.simps) (simp add: is_list_def)
  with Cons.IH [OF l1, of ?log] obtain l' h' where
    "list_destroy_loop stale l h log =
       Inr (?log @ (if list_has_destroy l then map snd xs else []), l', h')"
    "\<forall>b \<in> fst ` set xs. unused h' b" "\<forall>b. b \<notin> fst ` set xs \<longrightarrow> h' b = h1 b"
    using dst by auto
  then show ?case
    using x na h1 by (auto simp: unused_def)
qed

end
