(* ===== verification/Music.thy ===== *)
theory Music
  imports LinkedList CString
begin

text \<open>
  \<^verbatim>\<open>lib/music.c\<close>: the playlist, a linked list of heap allocated titles without duplicates.
  Loops over the elements follow the \<open>next\<close> pointers of the heap, so they are partial
  functions: \<open>None\<close> is a traversal that does not end, \<open>Some (Inl e)\<close> undefined behaviour.
  The C library calls the module makes (\<open>malloc\<close>, \<open>opendir\<close>/\<open>readdir\<close>, \<open>remove\<close>) enter
  as arguments.
\<close>

section \<open>State and environment\<close>

type_synonym music = "clist \<times> string heap"

record malloc_env =
  elmt_malloc :: "string heap \<Rightarrow> addr option"   \<comment> \<open>storage for a list element\<close>
  str_malloc :: "string \<Rightarrow> bool"                 \<comment> \<open>whether storage for a title is granted\<close>

section \<open>The operations\<close>

partial_function (option) music_find ::
    "bool \<Rightarrow> string heap \<Rightarrow> addr option \<Rightarrow> string \<Rightarrow> bool result option" where
  "music_find stale h head name =
     (case head of None \<Rightarrow> Some (Inr False)
      | Some a \<Rightarrow>
         (case read_elmt stale h (Some a) of Inl e \<Rightarrow> Some (Inl e)
          | Inr e \<Rightarrow>
             if list_data e = name then Some (Inr True)
             else music_find stale h (list_next e) name))"

definition music_add :: "bool \<Rightarrow> malloc_env \<Rightarrow> string \<Rightarrow> music \<Rightarrow> music result option" where
  "music_add stale env name m =
     (let (l, h) = m in
      case music_find stale h (list_head l) name of None \<Rightarrow> None
      | Some (Inl e) \<Rightarrow> Some (Inl e)
      | Some (Inr True) \<Rightarrow> Some (Inr (l, h))
      | Some (Inr False) \<Rightarrow>
          if \<not> str_malloc env name then Some (Inl NullDeref)
          else Some (rbind (list_ins_next stale (elmt_malloc env h) l (list_tail l) name h)
                       (\<lambda>(rc, l', h'). Inr (l', h'))))"

definition is_mp3 :: "string \<Rightarrow> bool" where
  "is_mp3 d_name =
     (case strstr d_name ''.mp3'' of None \<Rightarrow> False
      | Some n \<Rightarrow> int n = int (length d_name) - 4)"

fun music_add_entries :: "bool \<Rightarrow> malloc_env \<Rightarrow> string list \<Rightarrow> music \<Rightarrow> music result option" where
  "music_add_entries stale env [] m = Some (Inr m)"
| "music_add_entries stale env (d_name # entries) m =
     (if is_mp3 d_name then
        (case music_add stale env d_name m of None \<Rightarrow> None
         | Some (Inl e) \<Rightarrow> Some (Inl e)
         | Some (Inr m') \<Rightarrow> music_add_entries stale env entries m')
      else music_add_entries stale env entries m)"

definition music_get_from_directory ::
    "bool \<Rightarrow> malloc_env \<Rightarrow> string list option \<Rightarrow> music \<Rightarrow> music result option" where
  "music_get_from_directory stale env dir m =
     (case dir of None \<Rightarrow> Some (Inr m) | Some entries \<Rightarrow> music_add_entries stale env entries m)"

definition music_init :: "bool \<Rightarrow> malloc_env \<Rightarrow> string list option \<Rightarrow> string heap \<Rightarrow> music result option" where
  "music_init stale env dir h = music_get_from_directory stale env dir (list_init True, h)"

definition music_deinit :: "bool \<Rightarrow> music \<Rightarrow> (string list \<times> music) result" where
  "music_deinit stale m = (let (l, h) = m in list_destroy stale l h)"

text \<open>
  \<open>music_remove\<close>: the loop goes on after the removal and reads \<open>next\<close> of the element that
  \<open>list_rem_next\<close> has released. \<open>removed\<close> is what \<open>data_removed\<close> holds, \<open>None\<close> as long
  as it is uninitialised.
\<close>

partial_function (option) music_remove_loop ::
    "bool \<Rightarrow> string \<Rightarrow> addr option \<Rightarrow> addr option \<Rightarrow> string option \<Rightarrow> clist \<Rightarrow> string heap \<Rightarrow>
     (string option \<times> music) result option" where
  "music_remove_loop stale name head prehead removed l h =
     (case head of None \<Rightarrow> Some (Inr (removed, l, h))
      | Some a \<Rightarrow>
         (case read_elmt stale h (Some a) of Inl e \<Rightarrow> Some (Inl e)
          | Inr e \<Rightarrow>
             if name = list_data e then
               (case list_rem_next stale l prehead h of Inl er \<Rightarrow> Some (Inl er)
                | Inr r \<Rightarrow>
                   (let removed' = (case fst (snd r) of None \<Rightarrow> removed | Some d \<Rightarrow> Some d);
                        l' = fst (snd (snd r)); h' = snd (snd (snd r)) in
                    case read_elmt stale h' (Some a) of Inl er \<Rightarrow> Some (Inl er)
                    | Inr e' \<Rightarrow>
                        music_remove_loop stale name (list_next e') (Some a) removed' l' h'))
             else music_remove_loop stale name (list_next e) (Some a) removed l h))"

definition music_remove :: "bool \<Rightarrow> string \<Rightarrow> music \<Rightarrow> music result option" where
  "music_remove stale name m =
     (let (l, h) = m in
      case put_str (''./'' @ name) (replicate 254 nul) of Inl e \<Rightarrow> Some (Inl e)
      | Inr path \<Rightarrow>
         (case music_remove_loop stale name (list_head l) None None l h of None \<Rightarrow> None
          | Some (Inl e) \<Rightarrow> Some (Inl e)
          | Some (Inr (removed, m')) \<Rightarrow>
              (case removed of None \<Rightarrow> Some (Inl UninitFree) | Some d \<Rightarrow> Some (Inr m'))))"

text \<open>The titles in list order, as \<open>music_print\<close> and the \<open>FOREACH_MUSIC\<close> loop visit them.\<close>

partial_function (option) music_titles ::
    "bool \<Rightarrow> string heap \<Rightarrow> addr option \<Rightarrow> string list \<Rightarrow> string list result option" where
  "music_titles stale h head seen =
     (case head of None \<Rightarrow> Some (Inr seen)
      | Some a \<Rightarrow>
         (case read_elmt stale h (Some a) of Inl e \<Rightarrow> Some (Inl e)
          | Inr e \<Rightarrow> music_titles stale h (list_next e) (seen @ [list_data e])))"

definition music_print :: "bool \<Rightarrow> music \<Rightarrow> string list result option" where
  "music_print stale m = (let (l, h) = m in music_titles stale h (list_head l) [])"

section \<open>The interface of a playlist\<close>

text \<open>
  What the server relies on: \<open>rep s ts\<close> says that the store \<open>s\<close> holds the titles \<open>ts\<close> in
  order; \<open>ready\<close> says that the environment can supply storage for one more title, \<open>fits\<close>
  that a title is short enough for the path buffer of the removal.
\<close>

locale playlist =
  fixes rep :: "'s \<Rightarrow> string list \<Rightarrow> bool"
    and ready :: "'e \<Rightarrow> string \<Rightarrow> 's \<Rightarrow> bool"
    and fits :: "string \<Rightarrow> bool"
    and add :: "'e \<Rightarrow> string \<Rightarrow> 's \<Rightarrow> 's result option"
    and remove :: "string \<Rightarrow> 's \<Rightarrow> 's result option"
    and titles :: "'s \<Rightarrow> string list result option"
  assumes titles_rep: "rep s ts \<Longrightarrow> titles s = Some (Inr ts)"
    and add_old: "rep s ts \<Longrightarrow> name \<in> set ts \<Longrightarrow> add env name s = Some (Inr s)"
    and add_new: "rep s ts \<Longrightarrow> name \<notin> set ts \<Longrightarrow> ready env name s \<Longrightarrow>
      \<exists>s'. add env name s = Some (Inr s') \<and> rep s' (ts @ [name])"
    and remove_member: "rep s ts \<Longrightarrow> name \<in> set ts \<Longrightarrow> fits name \<Longrightarrow>
      \<exists>s'. remove name s = Some (Inr s') \<and> rep s' (filter (\<lambda>t. t \<noteq> name) ts)"
begin

lemma add_total:
  assumes "rep s ts" and "ready env name s"
  shows "\<exists>s'. add env name s = Some (Inr s') \<and> rep s' (if name \<in> set ts then ts else ts @ [name])"
  using assms add_old [of s ts name env] add_new [of s ts name env] by auto

lemma add_then_listed:
  assumes "rep s ts" and "ready env name s"
  shows "\<exists>s' us. add env name s = Some (Inr s') \<and> titles s' = Some (Inr us) \<and> name \<in> set us"
proof -
  obtain s' where "add env name s = Some (Inr s')"
    and r: "rep s' (if name \<in> set ts then ts else ts @ [name])"
    using add_total [OF assms] by blast
  then show ?thesis by (auto simp: titles_rep [OF r])
qed

lemma add_then_remove:
  assumes "rep s ts" and "name \<notin> set ts" and "ready env name s" and "fits name"
  shows "\<exists>s1 s2. add env name s = Some (Inr s1) \<and> remove name s1 = Some (Inr s2) \<and>
    titles s2 = Some (Inr ts)"
proof -
  obtain s1 where s1: "add env name s = Some (Inr s1)" "rep s1 (ts @ [name])"
    using add_new assms by blast
  obtain s2 where "remove name s1 = Some (Inr s2)" "rep s2 (filter (\<lambda>t. t \<noteq> name) (ts @ [name]))"
    using remove_member [OF s1(2) _ assms(4)] by auto
  moreover have "filter (\<lambda>t. t \<noteq> name) (ts @ [name]) = ts"
    using assms(2) by (simp add: filter_neq_id)
  ultimately show ?thesis using s1 titles_rep by metis
qed

lemma remove_then_not_listed:
  assumes "rep s ts" and "name \<in> set ts" and "fits name"
  shows "\<exists>s' us. remove name s = Some (Inr s') \<and> titles s' = Some (Inr us) \<and> name \<notin> set us"
proof -
  obtain s' where "remove name s = Some (Inr s')"
    and r: "rep s' (filter (\<lambda>t. t \<noteq> name) ts)"
    using remove_member [OF assms] by blast
  then show ?thesis by (auto simp: titles_rep [OF r])
qed

end

section \<open>The traversals on a well-formed list\<close>

definition music_rep :: "music \<Rightarrow> string list \<Rightarrow> bool" where
  "music_rep m ts \<longleftrightarrow> (\<exists>xs. is_list (fst m) (snd m) xs \<and> map snd xs = ts) \<and> distinct ts"

definition music_ready :: "malloc_env \<Rightarrow> string \<Rightarrow> music \<Rightarrow> bool" where
  "music_ready env name m \<longleftrightarrow> str_malloc env name \<and>
     (case elmt_malloc env (snd m) of None \<Rightarrow> False | Some a \<Rightarrow> unused (snd m) a)"

definition path_fits :: "string \<Rightarrow> bool" where
  "path_fits name \<longleftrightarrow> length name + 2 < 254"

lemma chain_Cons_read:
  assumes "chain h p (x # xs) q"
  obtains e where "p = Some (fst x)" "read_elmt stale h p = Inr e" "list_data e = snd x"
    "chain h (list_next e) xs q"
  using assms by (cases x) (auto simp: read_elmt_def split: option.splits cell.splits)

lemma music_find_spec:
  "chain h p xs None \<Longrightarrow> music_find stale h p name = Some (Inr (name \<in> snd ` set xs))"
proof (induction xs arbitrary: p)
  case Nil
  then show ?case by (subst music_find.simps) simp
next
  case (Cons x xs)
  obtain e where "p = Some (fst x)" "read_elmt stale h p = Inr e" "list_data e = snd x"
    "chain h (list_next e) xs None"
    using Cons.prems(1) by (rule chain_Cons_read)
  with Cons.IH show ?case by (subst music_find.simps) auto
qed

lemma music_titles_spec:
  "chain h p xs None \<Longrightarrow> music_titles stale h p seen = Some (Inr (seen @ map snd xs))"
proof (induction xs arbitrary: p seen)
  case Nil
  then show ?case by (subst music_titles.simps) simp
next
  case (Cons x xs)
  obtain e where "p = Some (fst x)" "read_elmt stale h p = Inr e" "list_data e = snd x"
    "chain h (list_next e) xs None"
    using Cons.prems(1) by (rule chain_Cons_read)
  with Cons.IH show ?case by (subst music_titles.simps) auto
qed

lemma music_remove_loop_absent:
  "chain h p xs None \<Longrightarrow> name \<notin> snd ` set xs \<Longrightarrow>
   music_remove_loop stale name p prehead removed l h = Some (Inr (removed, l, h))"
proof (induction xs arbitrary: p prehead)
  case Nil
  then show ?case by (subst music_remove_loop.simps) simp
next
  case (Cons x xs)
  obtain e where "p = Some (fst x)" "read_elmt stale h p = Inr e" "list_data e = snd x"
    "chain h (list_next e) xs None"
    using Cons.prems(1) by (rule chain_Cons_read)
  with Cons show ?case by (subst music_remove_loop.simps) auto
qed

text \<open>The removal step: the predecessor in the list is the element visited before.\<close>

lemma list_rem_next_at:
  assumes "is_list l h (pre @ (a, d) # post)"
  shows "\<exists>l' h' e. list_rem_next stale l (last_addr pre) h = Inr (0, Some d, l', h') \<and>
    is_list l' h' (pre @ post) \<and> h' a = Some (Freed e) \<and> chain h' (list_next e) post None"
proof (cases pre rule: rev_cases)
  case Nil
  then show ?thesis
    using list_rem_next_head [of l h a d post stale] assms by (auto simp: is_list_def)
next
  case (snoc pre' x)
  then show ?thesis
    using list_rem_next_after [of l h pre' "fst x" "snd x" a d post stale] assms by auto
qed

lemma music_remove_loop_found:
  assumes "is_list l h (pre @ mid @ (a, name) # post)"
    and "name \<notin> snd ` set mid" and "name \<notin> snd ` set post"
    and "chain h head (mid @ (a, name) # post) None"
  shows "if stale
    then \<exists>l' h'. music_remove_loop stale name head (last_addr pre) removed l h =
           Some (Inr (Some name, l', h')) \<and> is_list l' h' (pre @ mid @ post)
    else music_remove_loop stale name head (last_addr pre) removed l h = Some (Inl UseAfterFree)"
  using assms
proof (induction mid arbitrary: pre head)
  case Nil
  obtain l' h' e where rem: "list_rem_next stale l (last_addr pre) h = Inr (0, Some name, l', h')"
    and l': "is_list l' h' (pre @ post)" and e: "h' a = Some (Freed e)"
    and post: "chain h' (list_next e) post None"
    using list_rem_next_at [of l h pre a name post stale] Nil.prems(1) by auto
  obtain f where "head = Some a" "read_elmt stale h head = Inr f" "list_data f = name"
    using Nil.prems(4) chain_Cons_read [of h head "(a, name)" post None stale] by auto
  moreover have "read_elmt stale h' (Some a) = (if stale then Inr e else Inl UseAfterFree)"
    using e by (simp add: read_elmt_def)
  ultimately show ?case
    using rem l' music_remove_loop_absent [OF post, of name stale "Some a" "Some name" l'] Nil.prems(3)
    by (subst (1 2) music_remove_loop.simps) auto
next
  case (Cons x mid)
  obtain e where e: "head = Some (fst x)" "read_elmt stale h head = Inr e" "list_data e = snd x"
    "chain h (list_next e) (mid @ (a, name) # post) None"
    using Cons.prems(4) unfolding append_Cons by (rule chain_Cons_read)
  have "music_remove_loop stale name head (last_addr pre) removed l h =
        music_remove_loop stale name (list_next e) (last_addr (pre @ [x])) removed l h"
    using e Cons.prems(2) by (subst music_remove_loop.simps) auto
  with Cons.IH [of "pre @ [x]", OF _ _ _ e(4)] Cons.prems show ?case
    by (cases stale) auto
qed

lemma path_fits_put_str:
  "put_str (CHR ''.'' # CHR ''/'' # name) (replicate 254 nul) =
   (if path_fits name then Inr (''./'' @ name @ nul # replicate (251 - length name) nul)
    else Inl BufferOverflow)"
  by (auto simp: put_str_def path_fits_def)

text \<open>Every outcome of \<open>music_remove\<close> on a playlist.\<close>

lemma music_remove_spec:
  assumes "music_rep m ts"
  shows "if \<not> path_fits name then music_remove stale name m = Some (Inl BufferOverflow)
    else if name \<notin> set ts then music_remove stale name m = Some (Inl UninitFree)
    else if \<not> stale then music_remove stale name m = Some (Inl UseAfterFree)
    else \<exists>m'. music_remove stale name m = Some (Inr m') \<and> music_rep m' (filter (\<lambda>t. t \<noteq> name) ts)"
proof -
  obtain l h xs where m: "m = (l, h)" "is_list l h xs" "map snd xs = ts" and dist: "distinct ts"
    using assms by (cases m) (auto simp: music_rep_def)
  then have ch: "chain h (list_head l) xs None" by (simp add: is_list_def)
  show ?thesis
  proof (cases "name \<in> set ts")
    case False
    then have "name \<notin> snd ` set xs" using m(3) by force
    from music_remove_loop_absent [OF ch this] False show ?thesis
      by (simp add: music_remove_def m path_fits_put_str)
  next
    case True
    then obtain a where "(a, name) \<in> set xs" using m by auto
    then obtain pre post where xs: "xs = pre @ (a, name) # post"
      by (auto dest: split_list)
    then have nm: "name \<notin> snd ` set pre" "name \<notin> snd ` set post"
      using dist xs unfolding m(3) [symmetric] by simp_all
    then have "filter (\<lambda>t. t \<noteq> name) ts = map snd (pre @ post)"
      using xs unfolding m(3) [symmetric] by (simp add: filter_neq_id)
    moreover have "distinct (map snd (pre @ post))"
      using dist xs unfolding m(3) [symmetric] by simp
    ultimately show ?thesis
      using music_remove_loop_found [of l h "[]" pre a name post "list_head l" stale None] nm m ch xs True
      by (cases stale)
        (auto simp: music_remove_def path_fits_put_str music_rep_def intro!: exI [of _ "pre @ post"])
  qed
qed

lemma music_add_old:
  "music_rep m ts \<Longrightarrow> name \<in> set ts \<Longrightarrow> music_add stale env name m = Some (Inr m)"
proof -
  assume "music_rep m ts" and name: "name \<in> set ts"
  then obtain l h xs where m: "m = (l, h)" "chain h (list_head l) xs None" "map snd xs = ts"
    by (cases m) (auto simp: music_rep_def is_list_def)
  from name have "name \<in> snd ` set xs" using m(3) by force
  then show ?thesis using m by (simp add: music_add_def music_find_spec [OF m(2)])
qed

lemma music_add_new:
  assumes "music_rep m ts" and "name \<notin> set ts" and "music_ready env name m"
  shows "\<exists>m'. music_add stale env name m = Some (Inr m') \<and> music_rep m' (ts @ [name])"
proof -
  obtain l h xs where m: "m = (l, h)" "is_list l h xs" "map snd xs = ts" and dist: "distinct ts"
    using assms by (cases m) (auto simp: music_rep_def)
  obtain a where a: "elmt_malloc env h = Some a" "unused h a" "str_malloc env name"
    using assms(3) m by (auto simp: music_ready_def split: option.splits)
  have "name \<notin> snd ` set xs" using m(3) assms(2) by force
  then have find: "music_find stale h (list_head l) name = Some (Inr False)"
    using m(2) by (simp add: is_list_def music_find_spec [of h _ xs])
  have "\<exists>l' h'. list_ins_next stale (Some a) l (list_tail l) name h = Inr (0, l', h') \<and>
      is_list l' h' (xs @ [(a, name)])"
  proof (cases xs rule: rev_cases)
    case Nil
    then have "list_tail l = None" using m by (simp add: is_list_def)
    with list_ins_next_head [of l h "[]" a stale name] a m Nil show ?thesis by auto
  next
    case (snoc ys y)
    then have "list_tail l = Some (fst y)" using m by (simp add: is_list_def)
    with list_ins_next_after [of l h ys "fst y" "snd y" "[]" a stale name] a m snoc
    show ?thesis by auto
  qed
  then obtain l' h' where ins: "list_ins_next stale (Some a) l (list_tail l) name h = Inr (0, l', h')"
    and "is_list l' h' (xs @ [(a, name)])" by blast
  moreover from this have "music_rep (l', h') (ts @ [name])"
    using m assms(2) dist by (auto simp: music_rep_def intro!: exI [of _ "xs @ [(a, name)]"])
  ultimately show ?thesis
    using find a m by (simp add: music_add_def)
qed

text \<open>The playlist of the program is a playlist, under an allocator that leaves released storage alone.\<close>

interpretation pl: playlist music_rep music_ready path_fits
  "music_add True" "music_remove True" "music_print True"
proof unfold_locales
  show "music_print True s = Some (Inr ts)" if "music_rep s ts" for s ts
    using that by (cases s) (auto simp: music_rep_def music_print_def is_list_def music_titles_spec)
  show "music_add True env name s = Some (Inr s)" if "music_rep s ts" "name \<in> set ts" for s ts name env
    using that by (rule music_add_old)
  show "\<exists>s'. music_add True env name s = Some (Inr s') \<and> music_rep s' (ts @ [name])"
    if "music_rep s ts" "name \<notin> set ts" "music_ready env name s" for s ts name env
    using that by (rule music_add_new)
  show "\<exists>s'. music_remove True name s = Some (Inr s') \<and> music_rep s' (filter (\<lambda>t. t \<noteq> name) ts)"
    if "music_rep s ts" "name \<in> set ts" "path_fits name" for s ts name
    using music_remove_spec [OF that(1), of name True] that(2,3) by simp
qed

text \<open>The shutdown releases every title and every element, and nothing else.\<close>

lemma music_deinit_spec:
  assumes "music_rep m ts" and "list_has_destroy (fst m)"
  shows "\<exists>h. music_deinit stale m = Inr (ts, list_init False, h) \<and>
    (\<forall>a. snd m a \<noteq> h a \<longrightarrow> unused h a) \<and> music_rep (list_init False, h) []"
proof -
  obtain xs where xs: "is_list (fst m) (snd m) xs" "map snd xs = ts"
    using assms(1) by (auto simp: music_rep_def)
  obtain l h where d: "list_destroy_loop stale (fst m) (snd m) [] = Inr (ts, l, h)"
    "\<forall>a \<in> fst ` set xs. unused h a" "\<forall>a. a \<notin> fst ` set xs \<longrightarrow> h a = snd m a"
    using list_destroy_loop_spec [OF xs(1), of stale "[]"] xs(2) assms(2) by auto
  have "music_deinit stale m = Inr (ts, list_init False, h)"
    by (cases m) (use d(1) in \<open>simp add: music_deinit_def list_destroy_def\<close>)
  moreover have "\<forall>a. snd m a \<noteq> h a \<longrightarrow> unused h a" using d(2,3) by metis
  moreover have "music_rep (list_init False, h) []" by (simp add: music_rep_def is_list_init)
  ultimately show ?thesis by blast
qed

end
