(* ===== verification/Control.thy ===== *)
theory Control
  imports Devices Sensors Database Music
begin

text \<open>
  The control core of \<^verbatim>\<open>main.c\<close>: the global state, the command constants, the message queue
  between the sensor threads and the main loop, the message handler that drives the devices,
  one iteration of each sensor thread, and initialisation and release. A sensor thread has
  its own four byte buffer \<open>cmd\<close>, so its operations act on a pair of buffer and global state.
  \<open>printf\<close> output is not modelled; \<open>ERR_HANDLE\<close> only prints and execution goes on after it.
\<close>

section \<open>Constants\<close>

definition MQ_MAX_MSG :: nat where "MQ_MAX_MSG = 64"
definition MQ_MSG_SIZE :: nat where "MQ_MSG_SIZE = 4"

definition MQ_CMD_LED_ON :: int where "MQ_CMD_LED_ON = 1"
definition MQ_CMD_LED_OFF :: int where "MQ_CMD_LED_OFF = 2"
definition MQ_CMD_FAN_ON :: int where "MQ_CMD_FAN_ON = 3"
definition MQ_CMD_FAN_OFF :: int where "MQ_CMD_FAN_OFF = 4"
definition MQ_CMD_DRAIN_OPEN :: int where "MQ_CMD_DRAIN_OPEN = 5"
definition MQ_CMD_DRAIN_CLOSE :: int where "MQ_CMD_DRAIN_CLOSE = 6"
definition MQ_CMD_SOLENOID_OPEN :: int where "MQ_CMD_SOLENOID_OPEN = 7"
definition MQ_CMD_SOLENOID_CLOSE :: int where "MQ_CMD_SOLENOID_CLOSE = 8"
definition MQ_CMD_HUMIDIFIER_ON :: int where "MQ_CMD_HUMIDIFIER_ON = 9"
definition MQ_CMD_HUMIDIFIER_OFF :: int where "MQ_CMD_HUMIDIFIER_OFF = 10"
definition MQ_CMD_DRYER_ON :: int where "MQ_CMD_DRYER_ON = 11"
definition MQ_CMD_DRYER_OFF :: int where "MQ_CMD_DRYER_OFF = 12"
definition MQ_CMD_FAN_VERY_FAST :: int where "MQ_CMD_FAN_VERY_FAST = 13"

definition STATE_LED_ON :: int where "STATE_LED_ON = MQ_CMD_LED_ON"
definition STATE_LED_OFF :: int where "STATE_LED_OFF = MQ_CMD_LED_OFF"
definition STATE_FAN_ON :: int where "STATE_FAN_ON = MQ_CMD_FAN_ON"
definition STATE_FAN_OFF :: int where "STATE_FAN_OFF = MQ_CMD_FAN_OFF"
definition STATE_DRAIN_OPEN :: int where "STATE_DRAIN_OPEN = MQ_CMD_DRAIN_OPEN"
definition STATE_DRAIN_CLOSE :: int where "STATE_DRAIN_CLOSE = MQ_CMD_DRAIN_CLOSE"
definition STATE_SOLENOID_OPEN :: int where "STATE_SOLENOID_OPEN = MQ_CMD_SOLENOID_OPEN"
definition STATE_SOLENOID_CLOSE :: int where "STATE_SOLENOID_CLOSE = MQ_CMD_SOLENOID_CLOSE"
definition STATE_HUMIDIFIER_ON :: int where "STATE_HUMIDIFIER_ON = MQ_CMD_HUMIDIFIER_ON"
definition STATE_HUMIDIFIER_OFF :: int where "STATE_HUMIDIFIER_OFF = MQ_CMD_HUMIDIFIER_OFF"
definition STATE_DRYER_ON :: int where "STATE_DRYER_ON = MQ_CMD_DRYER_ON"
definition STATE_DRYER_OFF :: int where "STATE_DRYER_OFF = MQ_CMD_DRYER_OFF"
definition STATE_FAN_VERY_FAST :: int where "STATE_FAN_VERY_FAST = MQ_CMD_FAN_VERY_FAST"

lemmas cmd_defs [ctl_defs] =
  MQ_CMD_LED_ON_def STATE_LED_ON_def MQ_CMD_LED_OFF_def STATE_LED_OFF_def
  MQ_CMD_FAN_ON_def STATE_FAN_ON_def MQ_CMD_FAN_OFF_def STATE_FAN_OFF_def
  MQ_CMD_DRAIN_OPEN_def STATE_DRAIN_OPEN_def MQ_CMD_DRAIN_CLOSE_def STATE_DRAIN_CLOSE_def
  MQ_CMD_SOLENOID_OPEN_def STATE_SOLENOID_OPEN_def MQ_CMD_SOLENOID_CLOSE_def STATE_SOLENOID_CLOSE_def
  MQ_CMD_HUMIDIFIER_ON_def STATE_HUMIDIFIER_ON_def MQ_CMD_HUMIDIFIER_OFF_def STATE_HUMIDIFIER_OFF_def
  MQ_CMD_DRYER_ON_def STATE_DRYER_ON_def MQ_CMD_DRYER_OFF_def STATE_DRYER_OFF_def
  MQ_CMD_FAN_VERY_FAST_def STATE_FAN_VERY_FAST_def

definition MODE_AUTO :: int where "MODE_AUTO = 0"
definition MODE_MANUAL :: int where "MODE_MANUAL = 1"

definition HUMI_UNDER_HUMIDIFER :: int where "HUMI_UNDER_HUMIDIFER = 30"
definition HUMI_UPPER_FAN :: int where "HUMI_UPPER_FAN = 45"
definition TEMP_UNDER_DRYER :: int where "TEMP_UNDER_DRYER = 20"
definition TEMP_UPPER_COOLER :: int where "TEMP_UPPER_COOLER = 35"
definition PHOTO_UNDER_LED :: int where "PHOTO_UNDER_LED = 500"
definition BIAS_HUMI :: int where "BIAS_HUMI = 5"
definition BIAS_TEMP :: int where "BIAS_TEMP = 5"
definition BIAS_PHOTO :: int where "BIAS_PHOTO = 200"

lemmas boundary_consts = HUMI_UNDER_HUMIDIFER_def HUMI_UPPER_FAN_def TEMP_UNDER_DRYER_def
  TEMP_UPPER_COOLER_def PHOTO_UNDER_LED_def BIAS_HUMI_def BIAS_TEMP_def BIAS_PHOTO_def

section \<open>The global state\<close>

record planter =
  dev :: world
  sens :: sensors
  db :: database
  titles :: music
  current_music :: string
  disk :: "string \<Rightarrow> string option"    \<comment> \<open>the files of the working directory\<close>
  shell :: "string list"               \<comment> \<open>the commands run by \<open>system\<close>, oldest first\<close>
  mqd_main :: int
  mq :: "char list list"               \<comment> \<open>the messages queued, oldest first\<close>
  g_state_led :: int
  g_state_fan :: int
  g_state_solenoid :: int
  g_state_drain :: int
  g_state_humidifier :: int
  g_state_dryer :: int
  g_temp :: int
  g_humi :: int
  g_photo :: int
  g_magnet :: int
  g_moisture :: int
  g_mode :: int
  g_humi_upper_fan :: int
  g_humi_under_fan :: int
  g_humi_upper_humidifier :: int
  g_humi_under_humidifier :: int
  g_temp_upper_dryer :: int
  g_temp_under_dryer :: int
  g_temp_upper_cooler :: int
  g_temp_under_cooler :: int
  g_photo_upper_led :: int
  g_photo_under_led :: int

type_synonym thread = "char list \<times> planter"

section \<open>The message queue\<close>

text \<open>
  The queue is non-blocking: a send to a full queue and a receive from an empty one return -1
  at once. \<open>send_cmd\<close> is the pair of \<open>sprintf(cmd, "%d", ...)\<close> and \<open>mq_send\<close> whose result
  the callers ignore.
\<close>

definition mq_send :: "char list \<Rightarrow> planter \<Rightarrow> int \<times> planter" where
  "mq_send m p =
     (if mqd_main p = -1 \<or> length (mq p) \<ge> MQ_MAX_MSG then (-1, p)
      else (0, p\<lparr>mq := mq p @ [m]\<rparr>))"

definition mq_receive :: "planter \<Rightarrow> char list option \<times> planter" where
  "mq_receive p =
     (if mqd_main p = -1 then (None, p)
      else (case mq p of [] \<Rightarrow> (None, p) | m # ms \<Rightarrow> (Some m, p\<lparr>mq := ms\<rparr>)))"

definition send_cmd :: "int \<Rightarrow> thread \<Rightarrow> thread result" where
  "send_cmd c t =
     rbind (put_str (show_int c) (fst t)) (\<lambda>cmd. Inr (cmd, snd (mq_send cmd (snd t))))"

text \<open>The kernel keeps a queue of this name between runs: \<open>left\<close> are the messages found in it.\<close>

definition message_queue_init :: "int \<Rightarrow> char list list \<Rightarrow> planter \<Rightarrow> planter" where
  "message_queue_init mq_open_rc left p =
     p\<lparr>mqd_main := mq_open_rc, mq := if mq_open_rc = -1 then [] else left\<rparr>"

definition message_queue_deinit :: "planter \<Rightarrow> planter" where
  "message_queue_deinit p = p\<lparr>mqd_main := -1\<rparr>"

section \<open>The message handler\<close>

definition drain_open :: "world \<Rightarrow> world" where
  "drain_open w = snd (servo_rotate SERVO_45_DEGREE w)"

definition drain_close :: "world \<Rightarrow> world" where
  "drain_close w = snd (servo_rotate SERVO_0_DEGREE w)"

definition message_queue_handler :: "int \<Rightarrow> planter \<Rightarrow> planter" where
  "message_queue_handler mq_cmd p =
     (if mq_cmd = MQ_CMD_LED_ON then p\<lparr>dev := led_on (dev p), g_state_led := STATE_LED_ON\<rparr>
      else if mq_cmd = MQ_CMD_LED_OFF then p\<lparr>dev := led_off (dev p), g_state_led := STATE_LED_OFF\<rparr>
      else if mq_cmd = MQ_CMD_FAN_ON then
        p\<lparr>dev := snd (fan_rotate FAN_SPEED_FAST (dev p)), g_state_fan := STATE_FAN_ON\<rparr>
      else if mq_cmd = MQ_CMD_FAN_OFF then p\<lparr>dev := fan_off (dev p), g_state_fan := STATE_FAN_OFF\<rparr>
      else if mq_cmd = MQ_CMD_DRAIN_OPEN then
        p\<lparr>dev := drain_open (dev p), g_state_drain := STATE_DRAIN_OPEN\<rparr>
      else if mq_cmd = MQ_CMD_DRAIN_CLOSE then
        p\<lparr>dev := drain_close (dev p), g_state_drain := STATE_DRAIN_CLOSE\<rparr>
      else if mq_cmd = MQ_CMD_SOLENOID_OPEN then
        p\<lparr>dev := solenoid_open (dev p), g_state_solenoid := STATE_SOLENOID_OPEN\<rparr>
      else if mq_cmd = MQ_CMD_SOLENOID_CLOSE then
        p\<lparr>dev := solenoid_close (dev p), g_state_solenoid := STATE_SOLENOID_CLOSE\<rparr>
      else if mq_cmd = MQ_CMD_HUMIDIFIER_ON then
        p\<lparr>dev := humidifier_on (dev p), g_state_humidifier := STATE_HUMIDIFIER_ON\<rparr>
      else if mq_cmd = MQ_CMD_HUMIDIFIER_OFF then
        p\<lparr>dev := humidifier_off (dev p), g_state_humidifier := STATE_HUMIDIFIER_OFF\<rparr>
      else if mq_cmd = MQ_CMD_DRYER_ON then
        p\<lparr>dev := dryer_on (dev p), g_state_dryer := STATE_DRYER_ON\<rparr>
      else if mq_cmd = MQ_CMD_DRYER_OFF then
        p\<lparr>dev := dryer_off (dev p), g_state_dryer := STATE_DRYER_OFF\<rparr>
      else if mq_cmd = MQ_CMD_FAN_VERY_FAST then
        p\<lparr>dev := snd (fan_rotate FAN_SPEED_VERY_FAST (dev p)), g_state_fan := STATE_FAN_VERY_FAST\<rparr>
      else p)"

text \<open>
  The message half of an iteration of the main loop, and \<open>n\<close> iterations of it. \<open>atoi\<close> of
  a message without a terminating zero runs past the buffer.
\<close>

definition mq_poll :: "planter \<Rightarrow> planter result" where
  "mq_poll p =
     (case mq_receive p of (None, p') \<Rightarrow> Inr p'
      | (Some m, p') \<Rightarrow>
          (case c_str m of None \<Rightarrow> Inl Unterminated
           | Some s \<Rightarrow> Inr (message_queue_handler (atoi s) p')))"

fun mq_polls :: "nat \<Rightarrow> planter \<Rightarrow> planter result" where
  "mq_polls 0 p = Inr p"
| "mq_polls (Suc n) p = rbind (mq_poll p) (mq_polls n)"

section \<open>The sensor threads\<close>

text \<open>The four control decisions of \<open>humitemp_handler\<close>, in the order of the code.\<close>

definition fan_auto :: "thread \<Rightarrow> thread result" where
  "fan_auto t =
     (let p = snd t in
      if g_humi p > g_humi_upper_fan p \<and> g_state_fan p = STATE_FAN_OFF then send_cmd MQ_CMD_FAN_ON t
      else if g_humi p < g_humi_under_fan p \<and> g_state_fan p = STATE_FAN_ON then
        send_cmd MQ_CMD_FAN_OFF t
      else Inr t)"

definition humidifier_auto :: "thread \<Rightarrow> thread result" where
  "humidifier_auto t =
     (let p = snd t in
      if g_humi p < g_humi_under_humidifier p \<and> g_state_humidifier p = STATE_HUMIDIFIER_OFF then
        send_cmd MQ_CMD_HUMIDIFIER_ON t
      else if g_humi p > g_humi_upper_humidifier p \<and> g_state_humidifier p = STATE_HUMIDIFIER_ON then
        send_cmd MQ_CMD_HUMIDIFIER_OFF t
      else Inr t)"

definition dryer_auto :: "thread \<Rightarrow> thread result" where
  "dryer_auto t =
     (let p = snd t in
      if g_temp p < g_temp_under_dryer p \<and> g_state_dryer p = STATE_DRYER_OFF then
        send_cmd MQ_CMD_DRYER_ON t
      else if g_temp p > g_temp_upper_dryer p \<and> g_state_dryer p = STATE_DRYER_ON then
        send_cmd MQ_CMD_DRYER_OFF t
      else Inr t)"

definition cooler_auto :: "thread \<Rightarrow> thread result" where
  "cooler_auto t =
     (let p = snd t in
      if g_temp p > g_temp_upper_cooler p \<and>
         (g_state_fan p = STATE_FAN_OFF \<or> g_state_fan p = STATE_FAN_ON) then
        send_cmd MQ_CMD_FAN_VERY_FAST t
      else if g_temp p < g_temp_under_cooler p \<and> g_state_fan p = STATE_FAN_VERY_FAST then
        if g_humi p < g_humi_under_fan p then send_cmd MQ_CMD_FAN_OFF t
        else send_cmd MQ_CMD_FAN_ON t
      else Inr t)"

definition humitemp_control :: "thread \<Rightarrow> thread result" where
  "humitemp_control t =
     rbind (fan_auto t) (\<lambda>t. rbind (humidifier_auto t) (\<lambda>t. rbind (dryer_auto t) cooler_auto))"

definition log_value :: "bool \<Rightarrow> int \<Rightarrow> int \<Rightarrow> planter \<Rightarrow> planter result" where
  "log_value stale table v p =
     rbind (database_insert stale table v (db p)) (\<lambda>d. Inr (p\<lparr>db := d\<rparr>))"

text \<open>One round of the loop of \<open>humitemp_handler\<close>; \<open>delivered\<close> is what the driver delivers.\<close>

definition humitemp_handler :: "bool \<Rightarrow> bool \<Rightarrow> int \<times> u8 list \<Rightarrow> thread \<Rightarrow> thread result" where
  "humitemp_handler char_signed stale delivered t =
     (let (cmd, p) = t; (rc, s) = humitemp_read char_signed delivered (sens p); p = p\<lparr>sens := s\<rparr> in
      case rc of None \<Rightarrow> Inr (cmd, p)
      | Some (humi, temp) \<Rightarrow>
          (let p = p\<lparr>g_humi := humi, g_temp := temp\<rparr> in
           rbind (if g_mode p = MODE_AUTO then humitemp_control (cmd, p) else Inr (cmd, p)) (\<lambda>(cmd, p).
           rbind (log_value stale DATABASE_HUMI (g_humi p) p) (\<lambda>p.
           rbind (log_value stale DATABASE_TEMP (g_temp p) p) (\<lambda>p. Inr (cmd, p))))))"

definition led_auto :: "thread \<Rightarrow> thread result" where
  "led_auto t =
     (let p = snd t in
      if g_photo p < g_photo_under_led p \<and> g_state_led p = STATE_LED_OFF then send_cmd MQ_CMD_LED_ON t
      else if g_photo p > g_photo_upper_led p \<and> g_state_led p = STATE_LED_ON then
        send_cmd MQ_CMD_LED_OFF t
      else Inr t)"

text \<open>One round of \<open>photo_handler\<close>; \<open>intensity\<close> is what \<open>photo_get_intensity\<close> returns.\<close>

definition photo_handler :: "bool \<Rightarrow> int \<Rightarrow> thread \<Rightarrow> thread result" where
  "photo_handler stale intensity t =
     (let (cmd, p) = t; p = p\<lparr>g_photo := intensity\<rparr> in
      if g_photo p = -1 then Inr (cmd, p)
      else
        rbind (if g_mode p = MODE_AUTO then led_auto (cmd, p) else Inr (cmd, p)) (\<lambda>(cmd, p).
        rbind (log_value stale DATABASE_PHOTO (g_photo p) p) (\<lambda>p. Inr (cmd, p))))"

definition valve_auto :: "thread \<Rightarrow> thread result" where
  "valve_auto t =
     (let p = snd t in
      if g_magnet p = MAGNETIC_DETECTED \<and> g_state_solenoid p = STATE_SOLENOID_OPEN then
        send_cmd MQ_CMD_SOLENOID_CLOSE t
      else Inr t)"

definition magnetic_handler :: "bool \<Rightarrow> (pin \<Rightarrow> int) \<Rightarrow> (pin \<Rightarrow> int) \<Rightarrow> thread \<Rightarrow> thread result" where
  "magnetic_handler stale get later t =
     (let (cmd, p) = t; p = p\<lparr>g_magnet := mag_valid_detectection get later (sens p)\<rparr> in
      rbind (if g_mode p = MODE_AUTO then valve_auto (cmd, p) else Inr (cmd, p)) (\<lambda>(cmd, p).
      rbind (log_value stale DATABASE_MAGNET (g_magnet p) p) (\<lambda>p. Inr (cmd, p))))"

definition drain_auto :: "thread \<Rightarrow> thread result" where
  "drain_auto t =
     (let p = snd t in
      if g_moisture p = MOISTURE_FULL \<and> g_state_drain p = STATE_DRAIN_CLOSE then
        send_cmd MQ_CMD_DRAIN_OPEN t
      else Inr t)"

definition moisture_handler :: "bool \<Rightarrow> (pin \<Rightarrow> int) \<Rightarrow> thread \<Rightarrow> thread result" where
  "moisture_handler stale get t =
     (let (cmd, p) = t; p = p\<lparr>g_moisture := moisture_is_full get (sens p)\<rparr> in
      rbind (if g_mode p = MODE_AUTO then drain_auto (cmd, p) else Inr (cmd, p)) (\<lambda>(cmd, p).
      rbind (log_value stale DATABASE_MOISTURE (g_moisture p) p) (\<lambda>p. Inr (cmd, p))))"

lemmas auto_defs = fan_auto_def humidifier_auto_def dryer_auto_def cooler_auto_def led_auto_def
  valve_auto_def drain_auto_def

section \<open>Initialisation and release\<close>

definition states_init :: "planter \<Rightarrow> planter" where
  "states_init p =
     p\<lparr>g_state_led := STATE_LED_OFF, g_state_fan := STATE_FAN_OFF,
       g_state_solenoid := STATE_SOLENOID_CLOSE, g_state_drain := STATE_DRAIN_OPEN,
       g_state_humidifier := STATE_HUMIDIFIER_OFF, g_state_dryer := STATE_DRYER_OFF\<rparr>"

text \<open>The additions are those of \<open>int\<close>, written with the wrap-around of the machine.\<close>

definition boundary_update :: "planter \<Rightarrow> planter" where
  "boundary_update p =
     p\<lparr>g_humi_under_fan := wrap32 (g_humi_upper_fan p - BIAS_HUMI),
       g_humi_upper_humidifier := wrap32 (g_humi_under_humidifier p + BIAS_HUMI),
       g_temp_upper_dryer := wrap32 (g_temp_under_dryer p + BIAS_TEMP),
       g_temp_under_cooler := wrap32 (g_temp_upper_cooler p - BIAS_TEMP),
       g_photo_upper_led := wrap32 (g_photo_under_led p + BIAS_PHOTO)\<rparr>"

definition boundary_init :: "planter \<Rightarrow> planter" where
  "boundary_init p =
     boundary_update
       (p\<lparr>g_humi_upper_fan := HUMI_UPPER_FAN, g_humi_under_humidifier := HUMI_UNDER_HUMIDIFER,
          g_temp_under_dryer := TEMP_UNDER_DRYER, g_temp_upper_cooler := TEMP_UPPER_COOLER,
          g_photo_under_led := PHOTO_UNDER_LED\<rparr>)"

text \<open>
  \<open>devices_init\<close> checks every return code and only prints when one is wrong.
\<close>

definition devices_init :: "int \<Rightarrow> planter \<Rightarrow> planter" where
  "devices_init photo_ioctl_rc p =
     (let w = snd (relay_init (dev p));
          w = snd (servo_init w);
          s = snd (moisture_init (sens p));
          s = snd (humitemp_init s);
          s = snd (photo_init photo_ioctl_rc s);
          s = snd (magnetic_init s);
          w = snd (fan_init w);
          w = snd (humidifier_init w);
          w = dryer_init (solenoid_init (led_init w))
      in p\<lparr>dev := w, sens := s\<rparr>)"

definition devices_deinit :: "planter \<Rightarrow> planter" where
  "devices_deinit p =
     (let w = servo_deinit (relay_deinit (dev p));
          s = magnetic_deinit (photo_deinit (humitemp_deinit (moisture_deinit (sens p))));
          w = humidifier_deinit (fan_deinit w);
          w = dryer_deinit (solenoid_deinit (led_deinit w))
      in p\<lparr>dev := w, sens := s\<rparr>)"

text \<open>
  The SIGINT handler does not return: the result is the state in which it calls \<open>exit\<close>, which ends
  all threads, and the status it calls it with.
\<close>

definition resources_deinit :: "bool \<Rightarrow> planter \<Rightarrow> (planter \<times> int) result" where
  "resources_deinit stale p =
     (let p = devices_deinit p in
      rbind (music_deinit stale (titles p)) (\<lambda>(freed, m). let p = p\<lparr>titles := m\<rparr> in
      rbind (database_deinit (db p)) (\<lambda>d. Inr (message_queue_deinit (p\<lparr>db := d\<rparr>), 1))))"

end
