(* ===== verification/Messages.thy ===== *)
theory Messages
  imports Control
begin

text \<open>
  The message queue of \<^verbatim>\<open>main.c\<close>: what is in it, that the four byte buffers are large enough
  for every command, and that commands leave the queue as they entered it. The interface
  between the sensor threads and the main loop is the locale \<open>channel\<close>, a bounded queue that
  drops what does not fit.
\<close>

section \<open>Commands and messages\<close>

definition valid_cmd :: "int \<Rightarrow> bool" where
  "valid_cmd c \<longleftrightarrow> 1 \<le> c \<and> c \<le> 13"

definition msg_for :: "int \<Rightarrow> char list \<Rightarrow> bool" where
  "msg_for c m \<longleftrightarrow> length m = MQ_MSG_SIZE \<and> c_str m = Some (show_int c)"

definition msg_value :: "char list \<Rightarrow> int" where
  "msg_value m = atoi (takeWhile (\<lambda>ch. ch \<noteq> nul) m)"

definition queued :: "planter \<Rightarrow> int list" where
  "queued p = map msg_value (mq p)"

definition queue_ok :: "planter \<Rightarrow> bool" where
  "queue_ok p \<longleftrightarrow> mqd_main p \<noteq> -1 \<and> length (mq p) \<le> MQ_MAX_MSG \<and>
     (\<forall>m \<in> set (mq p). valid_cmd (msg_value m) \<and> msg_for (msg_value m) m)"

lemma valid_cmd_i32: "valid_cmd c \<Longrightarrow> in_i32 c"
  by (simp add: valid_cmd_def in_i32_def)

lemma c_str_takeWhile: "c_str m = Some s \<Longrightarrow> takeWhile (\<lambda>ch. ch \<noteq> nul) m = s"
  by (induction m arbitrary: s) (auto split: if_splits)

lemma msg_for_value: "in_i32 c \<Longrightarrow> msg_for c m \<Longrightarrow> msg_value m = c"
  using atoi_show_int [of c "[]"] by (auto simp: msg_for_def msg_value_def dest!: c_str_takeWhile)

lemma valid_cmd_length: "valid_cmd c \<Longrightarrow> length (show_int c) \<le> 2"
  using show_nat_length [of "nat c" 1] by (auto simp: valid_cmd_def show_int_def numeral_2_eq_2)

text \<open>The message a command is sent as: its digits, a zero byte, what the buffer held before.\<close>

definition message :: "int \<Rightarrow> char list \<Rightarrow> char list" where
  "message c cmd = show_int c @ nul # drop (Suc (length (show_int c))) cmd"

lemma message_for:
  assumes "valid_cmd c" and "length cmd = MQ_MSG_SIZE"
  shows "msg_for c (message c cmd)" "length (message c cmd) = MQ_MSG_SIZE"
    "msg_value (message c cmd) = c"
proof -
  show len: "length (message c cmd) = MQ_MSG_SIZE"
    using valid_cmd_length [OF assms(1)] assms(2) by (auto simp: message_def MQ_MSG_SIZE_def)
  show m: "msg_for c (message c cmd)"
    using len by (simp add: msg_for_def) (simp add: message_def)
  show "msg_value (message c cmd) = c"
    by (rule msg_for_value [OF valid_cmd_i32 [OF assms(1)] m])
qed

lemma send_cmd_eq:
  assumes "valid_cmd c" and "length cmd = MQ_MSG_SIZE"
  shows "send_cmd c (cmd, p) = Inr (message c cmd, snd (mq_send (message c cmd) p))"
  using valid_cmd_length [OF assms(1)] assms(2)
  by (simp add: send_cmd_def put_str_def message_def MQ_MSG_SIZE_def)

section \<open>The interface\<close>

text \<open>
  \<open>content\<close> is the queue, \<open>room\<close> its capacity. A sender appends or, when the queue is full,
  loses the command; the receiver takes the oldest command, if there is one.
\<close>

locale channel =
  fixes ok :: "'s \<Rightarrow> bool"
    and valid :: "'c \<Rightarrow> bool"
    and room :: nat
    and content :: "'s \<Rightarrow> 'c list"
    and send :: "'c \<Rightarrow> 's \<Rightarrow> 's result"
    and recv :: "'s \<Rightarrow> 'c option \<times> 's"
  assumes send_ok: "ok s \<Longrightarrow> valid c \<Longrightarrow>
      \<exists>s'. send c s = Inr s' \<and> ok s' \<and> content s' = take room (content s @ [c])"
    and recv_Nil: "ok s \<Longrightarrow> content s = [] \<Longrightarrow> recv s = (None, s)"
    and recv_Cons: "ok s \<Longrightarrow> content s = c # cs \<Longrightarrow>
      \<exists>s'. recv s = (Some c, s') \<and> ok s' \<and> content s' = cs"
    and bounded: "ok s \<Longrightarrow> length (content s) \<le> room"
begin

fun sends :: "'c list \<Rightarrow> 's \<Rightarrow> 's result" where
  "sends [] s = Inr s"
| "sends (c # cs) s = rbind (send c s) (sends cs)"

fun recvs :: "nat \<Rightarrow> 's \<Rightarrow> 'c list" where
  "recvs 0 s = []"
| "recvs (Suc n) s = (case recv s of (None, s') \<Rightarrow> [] | (Some c, s') \<Rightarrow> c # recvs n s')"

lemma sends_content:
  assumes "ok s" and "\<forall>c \<in> set cs. valid c"
  shows "\<exists>s'. sends cs s = Inr s' \<and> ok s' \<and> content s' = take room (content s @ cs)"
  using assms
proof (induction cs arbitrary: s)
  case Nil
  then show ?case by (simp add: bounded)
next
  case (Cons c cs)
  then obtain s1 where s1: "send c s = Inr s1" "ok s1" "content s1 = take room (content s @ [c])"
    using send_ok [of s c] by auto
  obtain s2 where "sends cs s1 = Inr s2" "ok s2" "content s2 = take room (content s1 @ cs)"
    using Cons.IH [OF s1(2)] Cons.prems(2) by auto
  moreover have "take room (take room (content s @ [c]) @ cs) = take room (content s @ c # cs)"
    using bounded [OF Cons.prems(1)] by (cases "length (content s) = room") auto
  ultimately show ?case using s1 by simp
qed

lemma recvs_content: "ok s \<Longrightarrow> recvs n s = take n (content s)"
proof (induction n arbitrary: s)
  case (Suc n)
  show ?case
  proof (cases "content s")
    case Nil
    then show ?thesis using recv_Nil [OF Suc.prems] by simp
  next
    case (Cons c cs)
    then show ?thesis using recv_Cons [OF Suc.prems Cons] Suc.IH by auto
  qed
qed simp

text \<open>First in, first out, without loss as long as there is room.\<close>

lemma fifo:
  assumes "ok s" and "\<forall>c \<in> set cs. valid c" and "length (content s) + length cs \<le> room"
    and "length (content s) + length cs \<le> n"
  shows "\<exists>s'. sends cs s = Inr s' \<and> recvs n s' = content s @ cs"
  using sends_content [OF assms(1,2)] recvs_content assms(3,4) by fastforce

end

section \<open>The interface holds\<close>

definition thread_ok :: "thread \<Rightarrow> bool" where
  "thread_ok t \<longleftrightarrow> length (fst t) = MQ_MSG_SIZE \<and> queue_ok (snd t)"

definition receive_cmd :: "thread \<Rightarrow> int option \<times> thread" where
  "receive_cmd t =
     (case mq_receive (snd t) of (m, p') \<Rightarrow> (map_option msg_value m, fst t, p'))"

lemma mq_send_ok:
  assumes "queue_ok p" and "valid_cmd c" and "length cmd = MQ_MSG_SIZE"
  shows "queue_ok (snd (mq_send (message c cmd) p))"
    "queued (snd (mq_send (message c cmd) p)) = take MQ_MAX_MSG (queued p @ [c])"
  using assms message_for [OF assms(2,3)] by (auto simp: mq_send_def queue_ok_def queued_def)

lemma send_cmd_spec:
  assumes "thread_ok t" and "valid_cmd c"
  obtains cmd' p' where "send_cmd c t = Inr (cmd', p')" "thread_ok (cmd', p')"
    "queued p' = take MQ_MAX_MSG (queued (snd t) @ [c])" "\<exists>ms. p' = (snd t)\<lparr>mq := ms\<rparr>"
proof
  from assms have l: "length (fst t) = MQ_MSG_SIZE" "queue_ok (snd t)" by (simp_all add: thread_ok_def)
  let ?m = "message c (fst t)"
  show "send_cmd c t = Inr (?m, snd (mq_send ?m (snd t)))"
    using send_cmd_eq [OF assms(2) l(1), of "snd t"] by simp
  show "thread_ok (?m, snd (mq_send ?m (snd t)))"
    using mq_send_ok [OF l(2) assms(2) l(1)] message_for [OF assms(2) l(1)]
    by (simp add: thread_ok_def)
  show "queued (snd (mq_send ?m (snd t))) = take MQ_MAX_MSG (queued (snd t) @ [c])"
    by (rule mq_send_ok(2) [OF l(2) assms(2) l(1)])
  show "\<exists>ms. snd (mq_send ?m (snd t)) = (snd t)\<lparr>mq := ms\<rparr>"
    by (auto simp: mq_send_def intro: exI [of _ "mq (snd t)"])
qed

lemma receive_cmd_spec:
  assumes "thread_ok t"
  shows "queued (snd t) = [] \<Longrightarrow> receive_cmd t = (None, t)"
    "queued (snd t) = c # cs \<Longrightarrow>
      \<exists>t'. receive_cmd t = (Some c, t') \<and> thread_ok t' \<and> queued (snd t') = cs"
  using assms
  by (auto simp: receive_cmd_def mq_receive_def queued_def thread_ok_def queue_ok_def
      split: list.splits)

interpretation mainq: channel thread_ok valid_cmd MQ_MAX_MSG "\<lambda>t. queued (snd t)" send_cmd receive_cmd
proof unfold_locales
  fix t c assume "thread_ok t" "valid_cmd c"
  then show "\<exists>t'. send_cmd c t = Inr t' \<and> thread_ok t' \<and>
      queued (snd t') = take MQ_MAX_MSG (queued (snd t) @ [c])"
    using send_cmd_spec [of t c] by (metis snd_conv)
next
  fix t c cs assume "thread_ok t" "queued (snd t) = c # cs"
  then show "\<exists>t'. receive_cmd t = (Some c, t') \<and> thread_ok t' \<and> queued (snd t') = cs"
    by (rule receive_cmd_spec)
qed (auto simp: receive_cmd_spec thread_ok_def queue_ok_def queued_def)

section \<open>The main loop on a well-formed queue\<close>

lemma mq_poll_Nil: "queued p = [] \<Longrightarrow> mq_poll p = Inr p"
  by (simp add: mq_poll_def mq_receive_def queued_def)

lemma mq_poll_Cons:
  assumes "queue_ok p" and "queued p = c # cs"
  shows "mq_poll p = Inr (message_queue_handler c (p\<lparr>mq := tl (mq p)\<rparr>))"
proof -
  obtain m ms where m: "mq p = m # ms" "msg_value m = c" using assms(2) by (auto simp: queued_def)
  then have "c_str m = Some (show_int c)" "in_i32 c"
    using assms(1) by (auto simp: queue_ok_def msg_for_def valid_cmd_i32)
  then show ?thesis
    using m assms(1) atoi_show_int [of c "[]"]
    by (simp add: mq_poll_def mq_receive_def queue_ok_def)
qed

end
