(* ===== verification/Actuation.thy ===== *)
theory Actuation
  imports Messages
begin

text \<open>
  What \<open>message_queue_handler\<close> does: its effect on the state variables, the commands it
  gives the actuators as a machine on the abstract panel, and the agreement of the state
  variables with the panel. The states are numbered as the commands, so that a device's
  state variable is the last command given to it (\<open>last_cmd\<close>).
\<close>

section \<open>State variables\<close>

definition fan_cmds :: "int set" where "fan_cmds = {3, 4, 13}"

lemma handler_states [simp]:
  "g_state_led (message_queue_handler c p) = (if c \<in> {1, 2} then c else g_state_led p)"
  "g_state_fan (message_queue_handler c p) = (if c \<in> {3, 4, 13} then c else g_state_fan p)"
  "g_state_drain (message_queue_handler c p) = (if c \<in> {5, 6} then c else g_state_drain p)"
  "g_state_solenoid (message_queue_handler c p) = (if c \<in> {7, 8} then c else g_state_solenoid p)"
  "g_state_humidifier (message_queue_handler c p) = (if c \<in> {9, 10} then c else g_state_humidifier p)"
  "g_state_dryer (message_queue_handler c p) = (if c \<in> {11, 12} then c else g_state_dryer p)"
  by (simp_all add: message_queue_handler_def cmd_defs)

lemma handler_frame:
  "\<exists>w l f s d h y. message_queue_handler c p =
     p\<lparr>dev := w, g_state_led := l, g_state_fan := f, g_state_solenoid := s, g_state_drain := d,
       g_state_humidifier := h, g_state_dryer := y\<rparr>"
proof -
  have "message_queue_handler c p = p\<lparr>dev := dev (message_queue_handler c p),
    g_state_led := g_state_led (message_queue_handler c p),
    g_state_fan := g_state_fan (message_queue_handler c p),
    g_state_solenoid := g_state_solenoid (message_queue_handler c p),
    g_state_drain := g_state_drain (message_queue_handler c p),
    g_state_humidifier := g_state_humidifier (message_queue_handler c p),
    g_state_dryer := g_state_dryer (message_queue_handler c p)\<rparr>"
    by (simp add: message_queue_handler_def)
  then show ?thesis by blast
qed

lemma handler_keeps [simp]:
  "sens (message_queue_handler c p) = sens p"
  "db (message_queue_handler c p) = db p"
  "titles (message_queue_handler c p) = titles p"
  "current_music (message_queue_handler c p) = current_music p"
  "mqd_main (message_queue_handler c p) = mqd_main p"
  "mq (message_queue_handler c p) = mq p"
  "g_mode (message_queue_handler c p) = g_mode p"
  "g_humi (message_queue_handler c p) = g_humi p"
  "g_temp (message_queue_handler c p) = g_temp p"
  "g_photo (message_queue_handler c p) = g_photo p"
  "g_magnet (message_queue_handler c p) = g_magnet p"
  "g_moisture (message_queue_handler c p) = g_moisture p"
  using handler_frame [of c p] by auto

lemma handler_keeps_bounds [simp]:
  "g_humi_upper_fan (message_queue_handler c p) = g_humi_upper_fan p"
  "g_humi_under_fan (message_queue_handler c p) = g_humi_under_fan p"
  "g_humi_upper_humidifier (message_queue_handler c p) = g_humi_upper_humidifier p"
  "g_humi_under_humidifier (message_queue_handler c p) = g_humi_under_humidifier p"
  "g_temp_upper_dryer (message_queue_handler c p) = g_temp_upper_dryer p"
  "g_temp_under_dryer (message_queue_handler c p) = g_temp_under_dryer p"
  "g_temp_upper_cooler (message_queue_handler c p) = g_temp_upper_cooler p"
  "g_temp_under_cooler (message_queue_handler c p) = g_temp_under_cooler p"
  "g_photo_upper_led (message_queue_handler c p) = g_photo_upper_led p"
  "g_photo_under_led (message_queue_handler c p) = g_photo_under_led p"
  using handler_frame [of c p] by auto

lemma handler_queue [simp]:
  "queued (message_queue_handler c p) = queued p"
  "queue_ok (message_queue_handler c p) = queue_ok p"
  by (simp_all add: queued_def queue_ok_def)

lemma handler_mq_upd:
  "message_queue_handler c (p\<lparr>mq := ms\<rparr>) = (message_queue_handler c p)\<lparr>mq := ms\<rparr>"
  by (simp add: message_queue_handler_def)

lemma handler_invalid: "\<not> valid_cmd c \<Longrightarrow> message_queue_handler c p = p"
  by (auto simp: valid_cmd_def message_queue_handler_def cmd_defs)

text \<open>Every state variable holds one of the states of its device.\<close>

definition states_valid :: "planter \<Rightarrow> bool" where
  "states_valid p \<longleftrightarrow>
     g_state_led p \<in> {1, 2} \<and> g_state_fan p \<in> {3, 4, 13} \<and> g_state_drain p \<in> {5, 6} \<and>
     g_state_solenoid p \<in> {7, 8} \<and> g_state_humidifier p \<in> {9, 10} \<and> g_state_dryer p \<in> {11, 12}"

lemma states_valid_handler [simp]: "states_valid p \<Longrightarrow> states_valid (message_queue_handler c p)"
  by (simp add: states_valid_def)

lemma states_valid_init: "states_valid (states_init p)"
  by (simp add: states_valid_def states_init_def cmd_defs)

section \<open>Sequences of commands\<close>

definition handle_all :: "int list \<Rightarrow> planter \<Rightarrow> planter" where
  "handle_all cs p = fold message_queue_handler cs p"

definition last_cmd :: "int set \<Rightarrow> int list \<Rightarrow> int \<Rightarrow> int" where
  "last_cmd S cs s = fold (\<lambda>c s. if c \<in> S then c else s) cs s"

lemma handle_all_simps [simp]:
  "handle_all [] p = p"
  "handle_all (c # cs) p = handle_all cs (message_queue_handler c p)"
  "handle_all (cs @ ds) p = handle_all ds (handle_all cs p)"
  by (simp_all add: handle_all_def)

lemma last_cmd_simps [simp]:
  "last_cmd S [] s = s"
  "last_cmd S (c # cs) s = last_cmd S cs (if c \<in> S then c else s)"
  by (simp_all add: last_cmd_def)

lemma handle_all_states:
  "g_state_led (handle_all cs p) = last_cmd {1, 2} cs (g_state_led p)"
  "g_state_fan (handle_all cs p) = last_cmd {3, 4, 13} cs (g_state_fan p)"
  "g_state_drain (handle_all cs p) = last_cmd {5, 6} cs (g_state_drain p)"
  "g_state_solenoid (handle_all cs p) = last_cmd {7, 8} cs (g_state_solenoid p)"
  "g_state_humidifier (handle_all cs p) = last_cmd {9, 10} cs (g_state_humidifier p)"
  "g_state_dryer (handle_all cs p) = last_cmd {11, 12} cs (g_state_dryer p)"
  by (induction cs arbitrary: p) auto

lemma handle_all_frame:
  "\<exists>w l f s d h y. handle_all cs p =
     p\<lparr>dev := w, g_state_led := l, g_state_fan := f, g_state_solenoid := s, g_state_drain := d,
       g_state_humidifier := h, g_state_dryer := y\<rparr>"
proof (induction cs arbitrary: p)
  case Nil
  have "handle_all [] p = p\<lparr>dev := dev p, g_state_led := g_state_led p, g_state_fan := g_state_fan p,
    g_state_solenoid := g_state_solenoid p, g_state_drain := g_state_drain p,
    g_state_humidifier := g_state_humidifier p, g_state_dryer := g_state_dryer p\<rparr>" by simp
  then show ?case by blast
next
  case (Cons c cs)
  obtain w l f s d h y where 1: "message_queue_handler c p =
     p\<lparr>dev := w, g_state_led := l, g_state_fan := f, g_state_solenoid := s, g_state_drain := d,
       g_state_humidifier := h, g_state_dryer := y\<rparr>" using handler_frame [of c p] by blast
  show ?case using Cons.IH [of "message_queue_handler c p"] unfolding handle_all_simps 1 by auto
qed

lemma handle_all_mq_upd: "handle_all cs (p\<lparr>mq := ms\<rparr>) = (handle_all cs p)\<lparr>mq := ms\<rparr>"
  by (induction cs arbitrary: p) (simp_all add: handler_mq_upd)

lemma states_valid_handle_all: "states_valid p \<Longrightarrow> states_valid (handle_all cs p)"
  by (induction cs arbitrary: p) simp_all

text \<open>Enough iterations of the main loop empty the queue and handle its commands in order.\<close>

lemma mq_polls_drain:
  assumes "queue_ok p" and "length (queued p) \<le> n"
  shows "mq_polls n p = Inr ((handle_all (queued p) p)\<lparr>mq := []\<rparr>)"
  using assms
proof (induction n arbitrary: p)
  case 0
  then show ?case by (simp add: queued_def)
next
  case (Suc n)
  show ?case
  proof (cases "queued p")
    case Nil
    then have "p\<lparr>mq := []\<rparr> = p" by (simp add: queued_def)
    then show ?thesis using Suc Nil mq_poll_Nil [OF Nil] by simp
  next
    case (Cons c cs)
    let ?q = "message_queue_handler c (p\<lparr>mq := tl (mq p)\<rparr>)"
    have "queued ?q = cs" "queue_ok ?q"
      using Cons Suc.prems(1) by (auto simp: queued_def queue_ok_def dest: list.set_sel(2))
    then have "mq_polls n ?q = Inr ((handle_all cs ?q)\<lparr>mq := []\<rparr>)"
      using Suc Cons by simp
    then show ?thesis
      using mq_poll_Cons [OF Suc.prems(1) Cons] Cons by (simp add: handler_mq_upd handle_all_mq_upd)
  qed
qed

section \<open>The actuators\<close>

text \<open>The commands as operations of the abstract panel.\<close>

definition panel_cmd :: "int \<Rightarrow> panel \<Rightarrow> panel" where
  "panel_cmd c p =
     (if c = 1 then p\<lparr>led_lit := True\<rparr>
      else if c = 2 then p\<lparr>led_lit := False\<rparr>
      else if c = 3 then p\<lparr>fan_powered := True, fan_pwm := Some (24000, PWM_FAN_PERIOD)\<rparr>
      else if c = 4 then p\<lparr>fan_powered := False\<rparr>
      else if c = 5 then p\<lparr>drain_pwm := Some (MG995_PWM_DEGREE_45, MG995_PWM_PERIOD)\<rparr>
      else if c = 6 then p\<lparr>drain_pwm := Some (MG995_PWM_DEGREE_0, MG995_PWM_PERIOD)\<rparr>
      else if c = 7 then p\<lparr>valve_open := True\<rparr>
      else if c = 8 then p\<lparr>valve_open := False\<rparr>
      else if c = 9 then p\<lparr>mist := 1\<rparr>
      else if c = 10 then p\<lparr>mist := 0\<rparr>
      else if c = 11 then p\<lparr>dryer_powered := True\<rparr>
      else if c = 12 then p\<lparr>dryer_powered := False\<rparr>
      else if c = 13 then p\<lparr>fan_powered := True, fan_pwm := Some (40000, PWM_FAN_PERIOD)\<rparr>
      else p)"

lemma relay_presses:
  assumes "ready w"
  shows "presses (hw (snd (relay_connect ch w))) = presses (hw w)"
    "presses (hw (snd (relay_disconnect ch w))) = presses (hw w)"
    "presses (hw (snd (fan_rotate speed w))) = presses (hw w)"
    "presses (hw (servo_set pw w)) = presses (hw w)"
  using assms by (simp_all add: ready_def dev_defs Let_def)

lemma fan_cmd_panel:
  assumes "ready w"
  shows "ready (snd (fan_rotate FAN_SPEED_FAST w))" "ready (snd (fan_rotate FAN_SPEED_VERY_FAST w))"
    "panel_of (snd (fan_rotate FAN_SPEED_FAST w)) =
       (panel_of w)\<lparr>fan_powered := True, fan_pwm := Some (24000, PWM_FAN_PERIOD)\<rparr>"
    "panel_of (snd (fan_rotate FAN_SPEED_VERY_FAST w)) =
       (panel_of w)\<lparr>fan_powered := True, fan_pwm := Some (40000, PWM_FAN_PERIOD)\<rparr>"
  using fan_rotate_panel [OF assms, of FAN_SPEED_FAST] fan_rotate_panel [OF assms, of FAN_SPEED_VERY_FAST]
  by (simp_all add: FAN_SPEED_FAST_def FAN_SPEED_VERY_FAST_def)

lemma drain_cmd_panel:
  assumes "ready w"
  shows "ready (drain_open w)" "ready (drain_close w)"
    "panel_of (drain_open w) = (panel_of w)\<lparr>drain_pwm := Some (MG995_PWM_DEGREE_45, MG995_PWM_PERIOD)\<rparr>"
    "panel_of (drain_close w) = (panel_of w)\<lparr>drain_pwm := Some (MG995_PWM_DEGREE_0, MG995_PWM_PERIOD)\<rparr>"
  using servo_set_panel [OF assms]
  by (simp_all add: drain_open_def drain_close_def servo_rotate_def SERVO_0_DEGREE_def SERVO_45_DEGREE_def)

lemma switch_ready:
  assumes "ready w"
  shows "ready (led_on w)" "ready (led_off w)" "ready (solenoid_open w)" "ready (solenoid_close w)"
    "ready (dryer_on w)" "ready (dryer_off w)" "ready (fan_off w)"
  using relay_connect_panel(1) [OF assms] relay_disconnect_panel(1) [OF assms]
  by (simp_all add: led_on_def led_off_def solenoid_open_def solenoid_close_def dryer_on_def
      dryer_off_def fan_off_def)

lemma switch_presses:
  assumes "ready w"
  shows "presses (hw (led_on w)) = presses (hw w)" "presses (hw (led_off w)) = presses (hw w)"
    "presses (hw (solenoid_open w)) = presses (hw w)" "presses (hw (solenoid_close w)) = presses (hw w)"
    "presses (hw (dryer_on w)) = presses (hw w)" "presses (hw (dryer_off w)) = presses (hw w)"
    "presses (hw (fan_off w)) = presses (hw w)" "presses (hw (drain_open w)) = presses (hw w)"
    "presses (hw (drain_close w)) = presses (hw w)"
  using relay_presses [OF assms]
  by (simp_all add: led_on_def led_off_def solenoid_open_def solenoid_close_def dryer_on_def
      dryer_off_def fan_off_def drain_open_def drain_close_def servo_rotate_def
      SERVO_0_DEGREE_def SERVO_45_DEGREE_def)

lemma valid_cmd_iff:
  "valid_cmd c \<longleftrightarrow> c = 1 \<or> c = 2 \<or> c = 3 \<or> c = 4 \<or> c = 5 \<or> c = 6 \<or> c = 7 \<or> c = 8 \<or> c = 9 \<or>
    c = 10 \<or> c = 11 \<or> c = 12 \<or> c = 13"
  unfolding valid_cmd_def by presburger

lemma panel_cmd_invalid: "\<not> valid_cmd c \<Longrightarrow> panel_cmd c q = q"
  by (simp add: panel_cmd_def valid_cmd_iff)

lemma handler_dev:
  "dev (message_queue_handler c p) =
     (if c = 1 then led_on (dev p) else if c = 2 then led_off (dev p)
      else if c = 3 then snd (fan_rotate FAN_SPEED_FAST (dev p)) else if c = 4 then fan_off (dev p)
      else if c = 5 then drain_open (dev p) else if c = 6 then drain_close (dev p)
      else if c = 7 then solenoid_open (dev p) else if c = 8 then solenoid_close (dev p)
      else if c = 9 then humidifier_on (dev p) else if c = 10 then humidifier_off (dev p)
      else if c = 11 then dryer_on (dev p) else if c = 12 then dryer_off (dev p)
      else if c = 13 then snd (fan_rotate FAN_SPEED_VERY_FAST (dev p)) else dev p)"
  by (simp add: message_queue_handler_def cmd_defs)

text \<open>The handler implements the panel machine.\<close>

lemma handler_panel:
  assumes "ready (dev p)" and "presses (hw (dev p)) \<le> 2147483647"
  shows "ready (dev (message_queue_handler c p))"
    "panel_of (dev (message_queue_handler c p)) = panel_cmd c (panel_of (dev p))"
    "presses (hw (dev (message_queue_handler c p))) \<le> presses (hw (dev p)) + 2"
proof -
  note facts = switch_ready [OF assms(1)] fan_cmd_panel [OF assms(1)] drain_cmd_panel [OF assms(1)]
    relay_connect_panel(2-4) [OF assms(1)] relay_disconnect_panel(2-5) [OF assms(1)]
    humidifier_on_panel [OF assms] humidifier_off_panel [OF assms]
    switch_presses [OF assms(1)] relay_presses(3) [OF assms(1)]
  consider "c = 1" | "c = 2" | "c = 3" | "c = 4" | "c = 5" | "c = 6" | "c = 7" | "c = 8" | "c = 9"
    | "c = 10" | "c = 11" | "c = 12" | "c = 13" | "\<not> valid_cmd c"
    using valid_cmd_iff [of c] by blast
  then have "ready (dev (message_queue_handler c p)) \<and>
    panel_of (dev (message_queue_handler c p)) = panel_cmd c (panel_of (dev p)) \<and>
    presses (hw (dev (message_queue_handler c p))) \<le> presses (hw (dev p)) + 2"
  proof cases
    case 9
    then show ?thesis using humidifier_on_panel [OF assms] by (simp add: handler_dev panel_cmd_def)
  next
    case 10
    then show ?thesis using humidifier_off_panel [OF assms] by (simp add: handler_dev panel_cmd_def)
  next
    case 14
    then show ?thesis using assms(1) by (simp add: handler_invalid panel_cmd_invalid)
  qed (simp_all add: facts handler_dev panel_cmd_def assms(1))
  then show "ready (dev (message_queue_handler c p))"
    "panel_of (dev (message_queue_handler c p)) = panel_cmd c (panel_of (dev p))"
    "presses (hw (dev (message_queue_handler c p))) \<le> presses (hw (dev p)) + 2" by simp_all
qed

text \<open>
  Agreement: what the state variables say is what the panel shows. The drain is left out
  until its first command, \<open>states_init\<close> calls it open while \<open>servo_init\<close> turns it to 0.
\<close>

definition agrees :: "planter \<Rightarrow> bool" where
  "agrees p \<longleftrightarrow> ready (dev p) \<and> states_valid p \<and>
     (g_state_led p = 1 \<longleftrightarrow> led_lit (panel_of (dev p))) \<and>
     (g_state_solenoid p = 7 \<longleftrightarrow> valve_open (panel_of (dev p))) \<and>
     (g_state_dryer p = 11 \<longleftrightarrow> dryer_powered (panel_of (dev p))) \<and>
     mist (panel_of (dev p)) = (if g_state_humidifier p = 9 then 1 else 0) \<and>
     (fan_powered (panel_of (dev p)) \<longleftrightarrow> g_state_fan p \<noteq> 4) \<and>
     (g_state_fan p = 3 \<longrightarrow> fan_pwm (panel_of (dev p)) = Some (24000, PWM_FAN_PERIOD)) \<and>
     (g_state_fan p = 13 \<longrightarrow> fan_pwm (panel_of (dev p)) = Some (40000, PWM_FAN_PERIOD)) \<and>
     (g_state_drain p = 6 \<longrightarrow> drain_pwm (panel_of (dev p)) = Some (MG995_PWM_DEGREE_0, MG995_PWM_PERIOD))"

lemma agrees_handler:
  assumes "agrees p" and "presses (hw (dev p)) \<le> 2147483647"
  shows "agrees (message_queue_handler c p)"
proof -
  have r: "ready (dev p)" using assms(1) by (simp add: agrees_def)
  note h = handler_panel [OF r assms(2), of c]
  show ?thesis
    using assms(1) h(1) unfolding agrees_def h(2)
    by (simp add: panel_cmd_def del: mist_panel_of)
qed

lemma agrees_cong:
  "dev q = dev p \<Longrightarrow> g_state_led q = g_state_led p \<Longrightarrow> g_state_fan q = g_state_fan p \<Longrightarrow>
   g_state_solenoid q = g_state_solenoid p \<Longrightarrow> g_state_drain q = g_state_drain p \<Longrightarrow>
   g_state_humidifier q = g_state_humidifier p \<Longrightarrow> g_state_dryer q = g_state_dryer p \<Longrightarrow>
   agrees q = agrees p"
  by (simp add: agrees_def states_valid_def)

end
