(* ===== verification/Polling.thy ===== *)
theory Polling
  imports Actuation
begin

text \<open>
  What one round of a sensor thread asks for, as a list of commands (\<open>_demand\<close>), and that the
  threads of \<open>Control\<close> put exactly these commands into the queue. The controllers with one
  threshold pair are instances of the locale \<open>two_point\<close>; the fan, which two groups of
  \<open>humitemp_handler\<close> drive, is treated by itself.
\<close>

section \<open>Demands\<close>

definition fan_demand :: "planter \<Rightarrow> int list" where
  "fan_demand p =
     (if g_humi p > g_humi_upper_fan p \<and> g_state_fan p = 4 then [3]
      else if g_humi p < g_humi_under_fan p \<and> g_state_fan p = 3 then [4] else [])"

definition humidifier_demand :: "planter \<Rightarrow> int list" where
  "humidifier_demand p =
     (if g_humi p < g_humi_under_humidifier p \<and> g_state_humidifier p = 10 then [9]
      else if g_humi p > g_humi_upper_humidifier p \<and> g_state_humidifier p = 9 then [10] else [])"

definition dryer_demand :: "planter \<Rightarrow> int list" where
  "dryer_demand p =
     (if g_temp p < g_temp_under_dryer p \<and> g_state_dryer p = 12 then [11]
      else if g_temp p > g_temp_upper_dryer p \<and> g_state_dryer p = 11 then [12] else [])"

definition cooler_demand :: "planter \<Rightarrow> int list" where
  "cooler_demand p =
     (if g_temp p > g_temp_upper_cooler p \<and> (g_state_fan p = 4 \<or> g_state_fan p = 3) then [13]
      else if g_temp p < g_temp_under_cooler p \<and> g_state_fan p = 13 then
        (if g_humi p < g_humi_under_fan p then [4] else [3])
      else [])"

definition led_demand :: "planter \<Rightarrow> int list" where
  "led_demand p =
     (if g_photo p < g_photo_under_led p \<and> g_state_led p = 2 then [1]
      else if g_photo p > g_photo_upper_led p \<and> g_state_led p = 1 then [2] else [])"

definition valve_demand :: "planter \<Rightarrow> int list" where
  "valve_demand p = (if g_magnet p = 1 \<and> g_state_solenoid p = 7 then [8] else [])"

definition drain_demand :: "planter \<Rightarrow> int list" where
  "drain_demand p = (if g_moisture p = 1 \<and> g_state_drain p = 6 then [5] else [])"

definition humitemp_demand :: "planter \<Rightarrow> int list" where
  "humitemp_demand p = fan_demand p @ humidifier_demand p @ dryer_demand p @ cooler_demand p"

lemmas demand_defs = fan_demand_def humidifier_demand_def dryer_demand_def cooler_demand_def
  led_demand_def valve_demand_def drain_demand_def

section \<open>The threads send their demands\<close>

text \<open>\<open>sends_of cs t r\<close>: the step \<open>r\<close> from \<open>t\<close> succeeded and only put \<open>cs\<close> into the queue.\<close>

definition sends_of :: "int list \<Rightarrow> thread \<Rightarrow> thread result \<Rightarrow> bool" where
  "sends_of cs t r \<longleftrightarrow>
     (\<exists>cmd ms. r = Inr (cmd, (snd t)\<lparr>mq := ms\<rparr>) \<and> thread_ok (cmd, (snd t)\<lparr>mq := ms\<rparr>) \<and>
        queued ((snd t)\<lparr>mq := ms\<rparr>) = take MQ_MAX_MSG (queued (snd t) @ cs))"

lemma sends_of_Nil: "thread_ok t \<Longrightarrow> sends_of [] t (Inr t)"
  unfolding sends_of_def
  by (rule exI [of _ "fst t"], rule exI [of _ "mq (snd t)"])
    (simp add: thread_ok_def queue_ok_def queued_def)

lemma sends_of_cmd: "thread_ok t \<Longrightarrow> valid_cmd c \<Longrightarrow> sends_of [c] t (send_cmd c t)"
  using send_cmd_spec [of t c] unfolding sends_of_def by metis

lemma sends_of_bind:
  assumes "sends_of cs t r"
    and "\<And>cmd ms. thread_ok (cmd, (snd t)\<lparr>mq := ms\<rparr>) \<Longrightarrow>
      sends_of ds (cmd, (snd t)\<lparr>mq := ms\<rparr>) (f (cmd, (snd t)\<lparr>mq := ms\<rparr>))"
  shows "sends_of (cs @ ds) t (rbind r f)"
proof -
  obtain cmd ms where 1: "r = Inr (cmd, (snd t)\<lparr>mq := ms\<rparr>)" "thread_ok (cmd, (snd t)\<lparr>mq := ms\<rparr>)"
    "queued ((snd t)\<lparr>mq := ms\<rparr>) = take MQ_MAX_MSG (queued (snd t) @ cs)"
    using assms(1) by (auto simp: sends_of_def)
  have "length (queued (snd t) @ cs) \<le> MQ_MAX_MSG \<or>
    take MQ_MAX_MSG (take MQ_MAX_MSG (queued (snd t) @ cs) @ ds) = take MQ_MAX_MSG (queued (snd t) @ cs @ ds)"
    by (auto simp: min_def)
  then have "take MQ_MAX_MSG (take MQ_MAX_MSG (queued (snd t) @ cs) @ ds)
    = take MQ_MAX_MSG (queued (snd t) @ cs @ ds)" by auto
  then show ?thesis
    using assms(2) [OF 1(2)] 1 by (auto simp: sends_of_def)
qed

lemma valid_cmds [simp]:
  "valid_cmd 1" "valid_cmd 2" "valid_cmd 3" "valid_cmd 4" "valid_cmd 5" "valid_cmd 6" "valid_cmd 7"
  "valid_cmd 8" "valid_cmd 9" "valid_cmd 10" "valid_cmd 11" "valid_cmd 12" "valid_cmd 13"
  by (simp_all add: valid_cmd_def)

lemma auto_demands:
  assumes "thread_ok t"
  shows "sends_of (fan_demand (snd t)) t (fan_auto t)"
    "sends_of (humidifier_demand (snd t)) t (humidifier_auto t)"
    "sends_of (dryer_demand (snd t)) t (dryer_auto t)"
    "sends_of (cooler_demand (snd t)) t (cooler_auto t)"
    "sends_of (led_demand (snd t)) t (led_auto t)"
    "sends_of (valve_demand (snd t)) t (valve_auto t)"
    "sends_of (drain_demand (snd t)) t (drain_auto t)"
  using sends_of_Nil [OF assms] sends_of_cmd [OF assms]
  by (auto simp add: auto_defs demand_defs Let_def cmd_defs MAGNETIC_DETECTED_def MOISTURE_FULL_def)

lemma demand_mq [simp]:
  "fan_demand (p\<lparr>mq := ms\<rparr>) = fan_demand p" "humidifier_demand (p\<lparr>mq := ms\<rparr>) = humidifier_demand p"
  "dryer_demand (p\<lparr>mq := ms\<rparr>) = dryer_demand p" "cooler_demand (p\<lparr>mq := ms\<rparr>) = cooler_demand p"
  "humitemp_demand (p\<lparr>mq := ms\<rparr>) = humitemp_demand p"
  by (simp_all add: humitemp_demand_def demand_defs)

lemma humitemp_control_demand:
  assumes "thread_ok t"
  shows "sends_of (humitemp_demand (snd t)) t (humitemp_control t)"
  unfolding humitemp_control_def humitemp_demand_def
proof (intro sends_of_bind)
  show "sends_of (fan_demand (snd t)) t (fan_auto t)" using auto_demands assms by blast
next
  fix cmd ms assume "thread_ok (cmd, (snd t)\<lparr>mq := ms\<rparr>)"
  from auto_demands(2) [OF this]
  show "sends_of (humidifier_demand (snd t)) (cmd, (snd t)\<lparr>mq := ms\<rparr>)
    (humidifier_auto (cmd, (snd t)\<lparr>mq := ms\<rparr>))" by simp
next
  fix cmd ms cmd' ms'
  assume "thread_ok (cmd', (snd (cmd, (snd t)\<lparr>mq := ms\<rparr>))\<lparr>mq := ms'\<rparr>)"
  from auto_demands(3) [OF this]
  show "sends_of (dryer_demand (snd t)) (cmd', (snd (cmd, (snd t)\<lparr>mq := ms\<rparr>))\<lparr>mq := ms'\<rparr>)
    (dryer_auto (cmd', (snd (cmd, (snd t)\<lparr>mq := ms\<rparr>))\<lparr>mq := ms'\<rparr>))" by simp
next
  fix cmd cmd' cmd'' :: "char list" and ms ms' ms''
  let ?t = "(cmd'', (snd (cmd', (snd (cmd, (snd t)\<lparr>mq := ms\<rparr>))\<lparr>mq := ms'\<rparr>))\<lparr>mq := ms''\<rparr>)"
  assume "thread_ok ?t"
  from auto_demands(4) [OF this] show "sends_of (cooler_demand (snd t)) ?t (cooler_auto ?t)" by simp
qed

section \<open>A round of a thread\<close>

definition by_mode :: "int list \<Rightarrow> planter \<Rightarrow> int list" where
  "by_mode cs p = (if g_mode p = MODE_AUTO then cs else [])"

lemma log_value_ok:
  assumes "db_healthy (db p)" and "in_i32 v" and "1 \<le> table" and "table \<le> 5"
  shows "log_value stale table v p =
    Inr (p\<lparr>db := (db p)\<lparr>db_stmts := db_stmts (db p) @ [log_entry table v]\<rparr>\<rparr>)"
  using assms by (simp add: log_value_def database_insert_healthy)

text \<open>
  The state after a round of \<open>humitemp_handler\<close> in which the sensor delivered \<open>(h, t)\<close>, but
  for the queue.
\<close>

definition measured :: "int \<Rightarrow> int \<Rightarrow> sensors \<Rightarrow> planter \<Rightarrow> planter" where
  "measured h t s p =
     p\<lparr>sens := s, g_humi := h, g_temp := t,
       db := (db p)\<lparr>db_stmts := db_stmts (db p) @ [log_entry DATABASE_HUMI h, log_entry DATABASE_TEMP t]\<rparr>\<rparr>"

lemma humitemp_handler_spec:
  assumes "thread_ok (cmd, p)" and "db_healthy (db p)"
    and r: "humitemp_read cs delivered (sens p) = (Some (h, t), s)"
  shows "sends_of (by_mode (humitemp_demand (measured h t s p)) p) (cmd, measured h t s p)
    (humitemp_handler cs stale delivered (cmd, p))"
proof -
  let ?q = "p\<lparr>sens := s, g_humi := h, g_temp := t\<rparr>"
  have i32: "in_i32 h" "in_i32 t"
    using humitemp_read_bounds [OF r] by (auto simp: in_i32_def)
  have ok: "thread_ok (cmd, ?q)" using assms(1) by (simp add: thread_ok_def queue_ok_def)
  have d: "humitemp_demand (measured h t s p) = humitemp_demand ?q"
    by (simp add: humitemp_demand_def demand_defs measured_def)
  have "sends_of (by_mode (humitemp_demand ?q) p) (cmd, ?q)
    (if g_mode p = MODE_AUTO then humitemp_control (cmd, ?q) else Inr (cmd, ?q))"
    using humitemp_control_demand [OF ok] sends_of_Nil [OF ok] by (simp add: by_mode_def)
  then obtain cmd' ms where c: "(if g_mode p = MODE_AUTO then humitemp_control (cmd, ?q)
      else Inr (cmd, ?q)) = Inr (cmd', ?q\<lparr>mq := ms\<rparr>)" "thread_ok (cmd', ?q\<lparr>mq := ms\<rparr>)"
    "queued (?q\<lparr>mq := ms\<rparr>) = take MQ_MAX_MSG (queued ?q @ by_mode (humitemp_demand ?q) p)"
    by (auto simp: sends_of_def)
  have "humitemp_handler cs stale delivered (cmd, p) = Inr (cmd', (measured h t s p)\<lparr>mq := ms\<rparr>)"
    using c(1) assms(2) i32
    by (simp add: humitemp_handler_def r log_value_ok measured_def table_defs)
  then show ?thesis
    using c(2,3) unfolding sends_of_def d
    by (intro exI [of _ cmd'] exI [of _ ms]) (simp add: thread_ok_def queue_ok_def queued_def measured_def)
qed

lemma humitemp_handler_fail:
  "humitemp_read cs delivered (sens p) = (None, s) \<Longrightarrow>
   humitemp_handler cs stale delivered (cmd, p) = Inr (cmd, p\<lparr>sens := s\<rparr>)"
  by (simp add: humitemp_handler_def)

definition lit :: "int \<Rightarrow> planter \<Rightarrow> planter" where
  "lit v p = p\<lparr>g_photo := v, db := (db p)\<lparr>db_stmts := db_stmts (db p) @ [log_entry DATABASE_PHOTO v]\<rparr>\<rparr>"

lemma photo_handler_spec:
  assumes "thread_ok (cmd, p)" and "db_healthy (db p)" and "in_i32 v" and "v \<noteq> -1"
  shows "sends_of (by_mode (led_demand (lit v p)) p) (cmd, lit v p) (photo_handler stale v (cmd, p))"
proof -
  let ?q = "p\<lparr>g_photo := v\<rparr>"
  have ok: "thread_ok (cmd, ?q)" using assms(1) by (simp add: thread_ok_def queue_ok_def)
  have d: "led_demand (lit v p) = led_demand ?q" by (simp add: demand_defs lit_def)
  have "sends_of (by_mode (led_demand ?q) p) (cmd, ?q)
    (if g_mode p = MODE_AUTO then led_auto (cmd, ?q) else Inr (cmd, ?q))"
    using auto_demands(5) [OF ok] sends_of_Nil [OF ok] by (simp add: by_mode_def)
  then obtain cmd' ms where c: "(if g_mode p = MODE_AUTO then led_auto (cmd, ?q)
      else Inr (cmd, ?q)) = Inr (cmd', ?q\<lparr>mq := ms\<rparr>)" "thread_ok (cmd', ?q\<lparr>mq := ms\<rparr>)"
    "queued (?q\<lparr>mq := ms\<rparr>) = take MQ_MAX_MSG (queued ?q @ by_mode (led_demand ?q) p)"
    by (auto simp: sends_of_def)
  have "photo_handler stale v (cmd, p) = Inr (cmd', (lit v p)\<lparr>mq := ms\<rparr>)"
    using c(1) assms(2-4) by (simp add: photo_handler_def log_value_ok lit_def table_defs)
  then show ?thesis
    using c(2,3) unfolding sends_of_def d
    by (intro exI [of _ cmd'] exI [of _ ms]) (simp add: thread_ok_def queue_ok_def queued_def lit_def)
qed

end
