(* ===== verification/Regulation.thy ===== *)
theory Regulation
  imports Polling
begin

text \<open>
  The closed loop of measuring, deciding, queueing and acting. A controller with two
  thresholds is an instance of the locale \<open>two_point\<close>; light, humidifier and dryer are
  interpreted on \<open>Control\<close>. The fan has two controllers, its setpoints are stated on their
  own. The boundaries must not be crossed, which \<open>boundary_update\<close> achieves short of overflow.
\<close>

section \<open>Two-point control\<close>

locale two_point =
  fixes st :: "'s \<Rightarrow> int"
    and far :: "'s \<Rightarrow> bool"          \<comment> \<open>the measured value asks for the device\<close>
    and near :: "'s \<Rightarrow> bool"         \<comment> \<open>the measured value has come back\<close>
    and on :: int
    and off :: int
    and demand :: "'s \<Rightarrow> int list"
    and exec :: "int \<Rightarrow> 's \<Rightarrow> 's"
  assumes demand_eq: "demand s =
      (if far s \<and> st s = off then [on] else if near s \<and> st s = on then [off] else [])"
    and exec_st: "c = on \<or> c = off \<Longrightarrow> st (exec c s) = c"
    and exec_far: "far (exec c s) = far s"
    and exec_back: "near (exec c s) = near s"
    and on_off: "on \<noteq> off"
begin

definition settle :: "'s \<Rightarrow> 's" where
  "settle s = fold exec (demand s) s"

lemma settle_far [simp]: "far (settle s) = far s"
  by (simp add: settle_def demand_eq exec_far)

lemma settle_back [simp]: "near (settle s) = near s"
  by (simp add: settle_def demand_eq exec_back)

lemma settle_st:
  assumes "st s = on \<or> st s = off" and "\<not> (far s \<and> near s)"
  shows "st (settle s) = (if far s then on else if near s then off else st s)"
  using assms on_off by (auto simp: settle_def demand_eq exec_st)

text \<open>Within the dead band nothing is switched, and no round undoes the one before.\<close>

lemma dead_band: "\<not> far s \<Longrightarrow> \<not> near s \<Longrightarrow> demand s = []"
  by (simp add: demand_eq)

lemma no_chatter:
  assumes "\<not> (far s \<and> near s)"
  shows "demand (settle s) = []"
proof (cases "st s = on \<or> st s = off")
  case True
  then show ?thesis
    using settle_st [OF True assms] assms on_off by (auto simp: demand_eq [of "settle s"])
next
  case False
  then show ?thesis by (simp add: settle_def demand_eq)
qed

text \<open>With crossed thresholds every round switches, in the state on as in the state off.\<close>

lemma chatter:
  assumes "st s = on \<or> st s = off" and "far s" and "near s"
  shows "demand s \<noteq> []" "demand (settle s) \<noteq> []"
  using assms on_off by (auto simp: settle_def demand_eq exec_st exec_far exec_back)

end

lemmas bound_demand_defs = humidifier_demand_def dryer_demand_def led_demand_def

interpretation light: two_point g_state_led "\<lambda>p. g_photo p < g_photo_under_led p"
  "\<lambda>p. g_photo p > g_photo_upper_led p" 1 2 led_demand message_queue_handler
  by unfold_locales (auto simp: bound_demand_defs)

interpretation mister: two_point g_state_humidifier "\<lambda>p. g_humi p < g_humi_under_humidifier p"
  "\<lambda>p. g_humi p > g_humi_upper_humidifier p" 9 10 humidifier_demand message_queue_handler
  by unfold_locales (auto simp: bound_demand_defs)

interpretation heater: two_point g_state_dryer "\<lambda>p. g_temp p < g_temp_under_dryer p"
  "\<lambda>p. g_temp p > g_temp_upper_dryer p" 11 12 dryer_demand message_queue_handler
  by unfold_locales (auto simp: bound_demand_defs)

section \<open>Boundaries\<close>

definition boundaries_ok :: "planter \<Rightarrow> bool" where
  "boundaries_ok p \<longleftrightarrow>
     g_humi_under_fan p \<le> g_humi_upper_fan p \<and>
     g_humi_under_humidifier p \<le> g_humi_upper_humidifier p \<and>
     g_temp_under_dryer p \<le> g_temp_upper_dryer p \<and>
     g_temp_under_cooler p \<le> g_temp_upper_cooler p \<and>
     g_photo_under_led p \<le> g_photo_upper_led p"

definition boundaries_moderate :: "planter \<Rightarrow> bool" where
  "boundaries_moderate p \<longleftrightarrow>
     (\<forall>b \<in> {g_humi_upper_fan p, g_humi_under_humidifier p, g_temp_under_dryer p,
            g_temp_upper_cooler p, g_photo_under_led p}. -2147483643 \<le> b \<and> b \<le> 2147483447)"

lemma boundary_update_ok:
  assumes "boundaries_moderate p"
  shows "boundaries_ok (boundary_update p)"
  using assms
  by (simp add: boundaries_moderate_def boundaries_ok_def boundary_update_def boundary_consts in_i32_def)

lemma boundary_init_ok: "boundaries_ok (boundary_init p)"
  by (simp add: boundaries_ok_def boundary_init_def boundary_update_def boundary_consts in_i32_def)

section \<open>Setpoints\<close>

text \<open>
  What the devices are to do for a measured humidity \<open>h\<close> and temperature \<open>t\<close>: the cooler has
  priority for the fan, between the thresholds the device stays as it is.
\<close>

definition fan_target :: "int \<Rightarrow> int \<Rightarrow> planter \<Rightarrow> int" where
  "fan_target h t p =
     (if t > g_temp_upper_cooler p then 13
      else if g_state_fan p = 13 then
        (if t < g_temp_under_cooler p then (if h < g_humi_under_fan p then 4 else 3) else 13)
      else if h > g_humi_upper_fan p then 3
      else if h < g_humi_under_fan p then 4
      else g_state_fan p)"

definition humidifier_target :: "int \<Rightarrow> planter \<Rightarrow> int" where
  "humidifier_target h p =
     (if h < g_humi_under_humidifier p then 9 else if h > g_humi_upper_humidifier p then 10
      else g_state_humidifier p)"

definition dryer_target :: "int \<Rightarrow> planter \<Rightarrow> int" where
  "dryer_target t p =
     (if t < g_temp_under_dryer p then 11 else if t > g_temp_upper_dryer p then 12
      else g_state_dryer p)"

lemmas target_defs = fan_target_def humidifier_target_def dryer_target_def

text \<open>One round of commands brings every device to its setpoint.\<close>

lemma demand_targets:
  assumes "states_valid p" and "boundaries_ok p"
  shows "g_state_fan (handle_all (humitemp_demand p) p) = fan_target (g_humi p) (g_temp p) p"
    "g_state_humidifier (handle_all (humitemp_demand p) p) = humidifier_target (g_humi p) p"
    "g_state_dryer (handle_all (humitemp_demand p) p) = dryer_target (g_temp p) p"
    "g_state_led (handle_all (humitemp_demand p) p) = g_state_led p"
    "g_state_solenoid (handle_all (humitemp_demand p) p) = g_state_solenoid p"
    "g_state_drain (handle_all (humitemp_demand p) p) = g_state_drain p"
proof -
  have f: "last_cmd {3, 4, 13} (humidifier_demand p @ dryer_demand p @ cs) s = last_cmd {3, 4, 13} cs s" for cs s
    by (simp add: demand_defs)
  have g: "last_cmd {3, 4, 13} (fan_demand p @ cooler_demand p) (g_state_fan p) =
      fan_target (g_humi p) (g_temp p) p"
    using assms by (auto simp: states_valid_def boundaries_ok_def demand_defs target_defs)
  have append: "last_cmd S (cs @ ds) s = last_cmd S ds (last_cmd S cs s)" for S cs ds s
    by (simp add: last_cmd_def)
  show "g_state_fan (handle_all (humitemp_demand p) p) = fan_target (g_humi p) (g_temp p) p"
    using g f [of "cooler_demand p"] by (simp add: handle_all_states humitemp_demand_def append)
  have nil: "last_cmd S (fan_demand p) s = s" "last_cmd S (cooler_demand p) s = s"
    if "3 \<notin> S" "4 \<notin> S" "13 \<notin> S" for S s
    using that by (auto simp: demand_defs)
  have hd: "last_cmd S (humidifier_demand p) s = s" if "9 \<notin> S" "10 \<notin> S" for S s
    using that by (auto simp: demand_defs)
  have dd: "last_cmd S (dryer_demand p) s = s" if "11 \<notin> S" "12 \<notin> S" for S s
    using that by (auto simp: demand_defs)
  have hv: "last_cmd {9, 10} (humidifier_demand p) (g_state_humidifier p) = humidifier_target (g_humi p) p"
    using assms by (auto simp: states_valid_def boundaries_ok_def demand_defs target_defs)
  have dv: "last_cmd {11, 12} (dryer_demand p) (g_state_dryer p) = dryer_target (g_temp p) p"
    using assms by (auto simp: states_valid_def boundaries_ok_def demand_defs target_defs)
  show "g_state_humidifier (handle_all (humitemp_demand p) p) = humidifier_target (g_humi p) p"
    "g_state_dryer (handle_all (humitemp_demand p) p) = dryer_target (g_temp p) p"
    "g_state_led (handle_all (humitemp_demand p) p) = g_state_led p"
    "g_state_solenoid (handle_all (humitemp_demand p) p) = g_state_solenoid p"
    "g_state_drain (handle_all (humitemp_demand p) p) = g_state_drain p"
    by (simp_all add: handle_all_states humitemp_demand_def append nil hd dd hv dv)
qed

text \<open>The setpoints are stable: no further command is due.\<close>

lemma handle_all_keeps [simp]:
  "g_mode (handle_all cs p) = g_mode p" "g_humi (handle_all cs p) = g_humi p"
  "g_temp (handle_all cs p) = g_temp p" "g_photo (handle_all cs p) = g_photo p"
  "g_humi_upper_fan (handle_all cs p) = g_humi_upper_fan p"
  "g_humi_under_fan (handle_all cs p) = g_humi_under_fan p"
  "g_humi_upper_humidifier (handle_all cs p) = g_humi_upper_humidifier p"
  "g_humi_under_humidifier (handle_all cs p) = g_humi_under_humidifier p"
  "g_temp_upper_dryer (handle_all cs p) = g_temp_upper_dryer p"
  "g_temp_under_dryer (handle_all cs p) = g_temp_under_dryer p"
  "g_temp_upper_cooler (handle_all cs p) = g_temp_upper_cooler p"
  "g_temp_under_cooler (handle_all cs p) = g_temp_under_cooler p"
  "sens (handle_all cs p) = sens p" "db (handle_all cs p) = db p"
  "mqd_main (handle_all cs p) = mqd_main p" "mq (handle_all cs p) = mq p"
  using handle_all_frame [of cs p] by auto

lemma demand_settled:
  assumes "states_valid p" and "boundaries_ok p"
  shows "humitemp_demand (handle_all (humitemp_demand p) p) = []"
proof -
  have fan: "fan_demand q = [] \<and> cooler_demand q = []"
    if "g_state_fan q = fan_target (g_humi p) (g_temp p) p" "g_humi q = g_humi p" "g_temp q = g_temp p"
      "g_humi_upper_fan q = g_humi_upper_fan p" "g_humi_under_fan q = g_humi_under_fan p"
      "g_temp_upper_cooler q = g_temp_upper_cooler p" "g_temp_under_cooler q = g_temp_under_cooler p" for q
    using assms that by (auto simp: states_valid_def boundaries_ok_def demand_defs target_defs)
  have rest: "humidifier_demand q = [] \<and> dryer_demand q = []"
    if "g_state_humidifier q = humidifier_target (g_humi p) p" "g_state_dryer q = dryer_target (g_temp p) p"
      "g_humi q = g_humi p" "g_temp q = g_temp p"
      "g_humi_upper_humidifier q = g_humi_upper_humidifier p"
      "g_humi_under_humidifier q = g_humi_under_humidifier p"
      "g_temp_upper_dryer q = g_temp_upper_dryer p" "g_temp_under_dryer q = g_temp_under_dryer p" for q
    using assms that by (auto simp: states_valid_def boundaries_ok_def demand_defs target_defs)
  show ?thesis
    using fan rest demand_targets [OF assms] by (simp add: humitemp_demand_def)
qed

lemma humitemp_demand_length: "length (humitemp_demand p) \<le> 4"
  by (simp add: humitemp_demand_def demand_defs)

lemma measured_simps [simp]:
  "g_humi (measured h t s p) = h" "g_temp (measured h t s p) = t" "sens (measured h t s p) = s"
  "g_mode (measured h t s p) = g_mode p" "queued (measured h t s p) = queued p"
  "states_valid (measured h t s p) = states_valid p" "agrees (measured h t s p) = agrees p"
  "boundaries_ok (measured h t s p) = boundaries_ok p"
  "fan_target h' t' (measured h t s p) = fan_target h' t' p"
  "humidifier_target h' (measured h t s p) = humidifier_target h' p"
  "dryer_target t' (measured h t s p) = dryer_target t' p"
  "db_healthy (db (measured h t s p)) = db_healthy (db p)" "dev (measured h t s p) = dev p"
  by (simp_all add: measured_def queued_def states_valid_def agrees_def boundaries_ok_def target_defs)

section \<open>The closed loop\<close>

lemma humitemp_round:
  assumes ok: "thread_ok (cmd, p)" and q: "queued p = []" and db: "db_healthy (db p)"
    and mode: "g_mode p = MODE_AUTO" and "4 \<le> n"
    and r: "humitemp_read cs delivered (sens p) = (Some (h, t), s)"
  defines "m \<equiv> measured h t s p"
  shows "\<exists>cmd' p'. humitemp_handler cs stale delivered (cmd, p) = Inr (cmd', p') \<and>
    length cmd' = MQ_MSG_SIZE \<and> queued p' = humitemp_demand m \<and>
    mq_polls n p' = Inr ((handle_all (humitemp_demand m) m)\<lparr>mq := []\<rparr>)"
proof -
  have b: "by_mode (humitemp_demand m) p = humitemp_demand m" using mode by (simp add: by_mode_def)
  have len: "length (humitemp_demand m) \<le> 4" by (rule humitemp_demand_length)
  obtain cmd' ms where 1: "humitemp_handler cs stale delivered (cmd, p) = Inr (cmd', m\<lparr>mq := ms\<rparr>)"
    "thread_ok (cmd', m\<lparr>mq := ms\<rparr>)" "queued (m\<lparr>mq := ms\<rparr>) = humitemp_demand m"
    using humitemp_handler_spec [OF ok db r, of stale] q len
    by (auto simp: sends_of_def b MQ_MAX_MSG_def m_def [symmetric]) (simp add: m_def)
  have "mq_polls n (m\<lparr>mq := ms\<rparr>) = Inr ((handle_all (humitemp_demand m) (m\<lparr>mq := ms\<rparr>))\<lparr>mq := []\<rparr>)"
    using mq_polls_drain [of "m\<lparr>mq := ms\<rparr>" n] 1(2,3) len \<open>4 \<le> n\<close> by (simp add: thread_ok_def)
  then show ?thesis using 1 by (auto simp: thread_ok_def handle_all_mq_upd)
qed

lemma demand_measured:
  "g_humi q = h \<Longrightarrow> g_temp q = t \<Longrightarrow> humitemp_demand (measured h t s q) = humitemp_demand q"
  by (simp add: humitemp_demand_def demand_defs measured_def)

lemma humitemp_settles:
  assumes ok: "thread_ok (cmd, p)" and q: "queued p = []" and db: "db_healthy (db p)"
    and mode: "g_mode p = MODE_AUTO" and v: "states_valid p" and b: "boundaries_ok p" and n: "4 \<le> n"
    and r1: "humitemp_read cs d1 (sens p) = (Some (h, t), s1)"
    and r2: "humitemp_read cs d2 s1 = (Some (h, t), s2)"
  shows "\<exists>cmd1 p1 p2 cmd2 p3.
    humitemp_handler cs stale d1 (cmd, p) = Inr (cmd1, p1) \<and> mq_polls n p1 = Inr p2 \<and>
    g_state_fan p2 = fan_target h t p \<and> g_state_humidifier p2 = humidifier_target h p \<and>
    g_state_dryer p2 = dryer_target t p \<and>
    humitemp_handler cs stale d2 (cmd1, p2) = Inr (cmd2, p3) \<and> queued p3 = []"
proof -
  let ?m = "measured h t s1 p"
  let ?q = "(handle_all (humitemp_demand ?m) ?m)\<lparr>mq := []\<rparr>"
  obtain cmd1 p1 where 1: "humitemp_handler cs stale d1 (cmd, p) = Inr (cmd1, p1)"
    "length cmd1 = MQ_MSG_SIZE" "mq_polls n p1 = Inr ?q"
    using humitemp_round [OF ok q db mode n r1, of stale] by blast
  have vm: "states_valid ?m" "boundaries_ok ?m" using v b by simp_all
  note t = demand_targets [OF vm]
  have mqd: "mqd_main ?m = mqd_main p" by (simp add: measured_def)
  have okq: "thread_ok (cmd1, ?q)"
    using 1(2) ok mqd by (simp add: thread_ok_def queue_ok_def)
  have rq: "humitemp_read cs d2 (sens ?q) = (Some (h, t), s2)" using r2 by simp
  have "humitemp_demand (measured h t s2 ?q) = humitemp_demand ?q"
    by (rule demand_measured) simp_all
  also have "\<dots> = []" using demand_settled [OF vm] by simp
  finally have "by_mode (humitemp_demand (measured h t s2 ?q)) ?q = []" by (simp add: by_mode_def)
  then have "sends_of [] (cmd1, measured h t s2 ?q) (humitemp_handler cs stale d2 (cmd1, ?q))"
    using humitemp_handler_spec [OF okq _ rq, of stale] db by simp
  then obtain cmd2 p3 where "humitemp_handler cs stale d2 (cmd1, ?q) = Inr (cmd2, p3)" "queued p3 = []"
    by (auto simp: sends_of_def queued_def measured_def)
  then show ?thesis using 1 t by auto
qed

lemma lit_simps [simp]:
  "g_photo (lit v p) = v" "queued (lit v p) = queued p" "states_valid (lit v p) = states_valid p"
  "g_state_led (lit v p) = g_state_led p" "g_photo_under_led (lit v p) = g_photo_under_led p"
  "g_photo_upper_led (lit v p) = g_photo_upper_led p" "mqd_main (lit v p) = mqd_main p"
  "db_healthy (db (lit v p)) = db_healthy (db p)" "g_mode (lit v p) = g_mode p"
  by (simp_all add: lit_def queued_def states_valid_def)

lemma photo_settles:
  assumes ok: "thread_ok (cmd, p)" and q: "queued p = []" and db: "db_healthy (db p)"
    and mode: "g_mode p = MODE_AUTO" and v: "states_valid p" and b: "boundaries_ok p" and n: "1 \<le> n"
    and i: "in_i32 v" "v \<noteq> -1"
  shows "\<exists>cmd1 p1 p2 cmd2 p3.
    photo_handler stale v (cmd, p) = Inr (cmd1, p1) \<and> mq_polls n p1 = Inr p2 \<and>
    g_state_led p2 = (if v < g_photo_under_led p then STATE_LED_ON
      else if v > g_photo_upper_led p then STATE_LED_OFF else g_state_led p) \<and>
    photo_handler stale v (cmd1, p2) = Inr (cmd2, p3) \<and> queued p3 = []"
proof -
  let ?m = "lit v p"
  let ?q = "(light.settle ?m)\<lparr>mq := []\<rparr>"
  have ex: "\<not> (g_photo ?m < g_photo_under_led ?m \<and> g_photo ?m > g_photo_upper_led ?m)"
    using b by (simp add: boundaries_ok_def)
  have settle: "light.settle ?m = handle_all (led_demand ?m) ?m"
    by (simp add: light.settle_def handle_all_def)
  have len: "length (led_demand ?m) \<le> 1" by (simp add: demand_defs)
  obtain cmd1 ms where 1: "photo_handler stale v (cmd, p) = Inr (cmd1, ?m\<lparr>mq := ms\<rparr>)"
    "thread_ok (cmd1, ?m\<lparr>mq := ms\<rparr>)" "queued (?m\<lparr>mq := ms\<rparr>) = led_demand ?m"
    using photo_handler_spec [OF ok db i, of stale] q len mode
    by (auto simp: sends_of_def by_mode_def MQ_MAX_MSG_def)
  have p2: "mq_polls n (?m\<lparr>mq := ms\<rparr>) = Inr ?q"
    using mq_polls_drain [of "?m\<lparr>mq := ms\<rparr>" n] 1(2,3) len n
    by (simp add: thread_ok_def settle handle_all_mq_upd)
  have st: "g_state_led ?q = (if v < g_photo_under_led p then STATE_LED_ON
      else if v > g_photo_upper_led p then STATE_LED_OFF else g_state_led p)"
    using light.settle_st [of ?m] ex v by (simp add: states_valid_def cmd_defs)
  have okq: "thread_ok (cmd1, ?q)"
    using 1(2) by (simp add: thread_ok_def queue_ok_def settle)
  have dbq: "db_healthy (db ?q)" using db by (simp add: settle)
  have "led_demand (lit v ?q) = led_demand (light.settle ?m)"
    by (simp add: demand_defs settle)
  also have "\<dots> = []" by (rule light.no_chatter [OF ex])
  finally have "by_mode (led_demand (lit v ?q)) ?q = []" by (simp add: by_mode_def)
  then have "sends_of [] (cmd1, lit v ?q) (photo_handler stale v (cmd1, ?q))"
    using photo_handler_spec [OF okq dbq i, of stale] by simp
  then obtain cmd2 p3 where "photo_handler stale v (cmd1, ?q) = Inr (cmd2, p3)" "queued p3 = []"
    by (auto simp: sends_of_def queued_def lit_def)
  then show ?thesis using 1 p2 st by blast
qed

end
