(* ===== verification/Network.thy ===== *)
theory Network
  imports CString
begin

text \<open>
  \<^verbatim>\<open>lib/network.c\<close>: the TCP socket helpers. The socket layer is the environment: what
  \<open>socket\<close>, \<open>setsockopt\<close> and \<open>bind\<close> return are arguments, and a connected client is a
  \<open>conn\<close>: the data it still sends, in the portions that reach the server, and how many of
  the server's sends succeed before it disconnects (the signal SIGPIPE is ignored, a send
  to a closed connection returns -1).
\<close>

section \<open>Connections\<close>

datatype portion = Data string | Broken      \<comment> \<open>data, or a receive error\<close>

record conn =
  inbox :: "portion list"
  sends_left :: nat
  sent :: "string list"

definition SERVER_TCP_DEFAULT_PORT :: int where "SERVER_TCP_DEFAULT_PORT = 3000"
definition NETWORK_BUFSIZE :: nat where "NETWORK_BUFSIZE = 1024"
definition NETWORK_CMD_FILE_CLIENT_TO_SERVER :: int where "NETWORK_CMD_FILE_CLIENT_TO_SERVER = 0"
definition NETWORK_CMD_LIST_SERVER_TO_CLIENT :: int where "NETWORK_CMD_LIST_SERVER_TO_CLIENT = 1"
definition NETWORK_CMD_DELETE_CLIENT_TO_SERVER :: int where "NETWORK_CMD_DELETE_CLIENT_TO_SERVER = 2"
definition NETWORK_CMD_PLAY_CLIENT_TO_SERVER :: int where "NETWORK_CMD_PLAY_CLIENT_TO_SERVER = 3"
definition NETWORK_CMD_SENSOR_SERVER_TO_CLIENT :: int where "NETWORK_CMD_SENSOR_SERVER_TO_CLIENT = 4"
definition NETWORK_CMD_CAMERA_SERVER_TO_CLIENT :: int where "NETWORK_CMD_CAMERA_SERVER_TO_CLIENT = 5"
definition NETWORK_CMD_DATABASE_SERVER_TO_CLIENT :: int where "NETWORK_CMD_DATABASE_SERVER_TO_CLIENT = 6"
definition NETWORK_CMD_MODE_SERVER_TO_CLIENT :: int where "NETWORK_CMD_MODE_SERVER_TO_CLIENT = 7"
definition NETWORK_CMD_MODE_TOGGLE_CLIENT_TO_SERVER :: int where "NETWORK_CMD_MODE_TOGGLE_CLIENT_TO_SERVER = 8"
definition NETWORK_CMD_STATE_SERVER_TO_CLIENT :: int where "NETWORK_CMD_STATE_SERVER_TO_CLIENT = 9"
definition NETWORK_CMD_STATE_CHANGE_CLIENT_TO_SERVER :: int where "NETWORK_CMD_STATE_CHANGE_CLIENT_TO_SERVER = 10"
definition NETWORK_CMD_BOUNDARY_SERVER_TO_CLIENT :: int where "NETWORK_CMD_BOUNDARY_SERVER_TO_CLIENT = 11"
definition NETWORK_CMD_BOUNDARY_CLIENT_TO_SERVER :: int where "NETWORK_CMD_BOUNDARY_CLIENT_TO_SERVER = 12"
definition NETWORK_CMD_END :: int where "NETWORK_CMD_END = -1"

lemmas net_cmds = NETWORK_CMD_FILE_CLIENT_TO_SERVER_def
  NETWORK_CMD_LIST_SERVER_TO_CLIENT_def
  NETWORK_CMD_DELETE_CLIENT_TO_SERVER_def
  NETWORK_CMD_PLAY_CLIENT_TO_SERVER_def
  NETWORK_CMD_SENSOR_SERVER_TO_CLIENT_def
  NETWORK_CMD_CAMERA_SERVER_TO_CLIENT_def
  NETWORK_CMD_DATABASE_SERVER_TO_CLIENT_def
  NETWORK_CMD_MODE_SERVER_TO_CLIENT_def
  NETWORK_CMD_MODE_TOGGLE_CLIENT_TO_SERVER_def
  NETWORK_CMD_STATE_SERVER_TO_CLIENT_def
  NETWORK_CMD_STATE_CHANGE_CLIENT_TO_SERVER_def
  NETWORK_CMD_BOUNDARY_SERVER_TO_CLIENT_def
  NETWORK_CMD_BOUNDARY_CLIENT_TO_SERVER_def

datatype net_call =
    IgnoreSigpipe
  | Socket
  | ReuseAddr int
  | Bind int int          \<comment> \<open>socket and port, any address\<close>
  | Listen int nat

section \<open>The operations\<close>

text \<open>A socket whose set-up fails after its creation is not closed.\<close>

definition network_server_init :: "int \<Rightarrow> int \<Rightarrow> int \<Rightarrow> int \<Rightarrow> int \<times> net_call list" where
  "network_server_init socket_rc setsockopt_rc bind_rc port =
     (let sd = socket_rc; calls = [IgnoreSigpipe, Socket] in
      if sd = -1 then (sd, calls)
      else
        (let rc = setsockopt_rc; calls = calls @ [ReuseAddr sd] in
         if rc = -1 then (rc, calls)
         else
           (let rc = bind_rc; calls = calls @ [Bind sd (port mod 65536)] in
            if rc = -1 then (rc, calls) else (sd, calls @ [Listen sd 5]))))"

definition network_accept_client :: "int \<Rightarrow> int" where
  "network_accept_client accept_rc = accept_rc"

text \<open>\<open>None\<close>: the usage message and \<open>exit(1)\<close>. \<open>argv\<close> holds \<open>argc\<close> strings.\<close>

definition network_get_port :: "string list \<Rightarrow> int option" where
  "network_get_port argv =
     (if length argv = 1 then Some SERVER_TCP_DEFAULT_PORT
      else if length argv = 2 then Some (atoi (argv ! 1))
      else None)"

text \<open>
  \<open>network_recv\<close>: -1 and no bytes on an error, 0 at the end of the stream, else at least one
  and at most \<open>len\<close> bytes; what does not fit stays for the next call.
\<close>

fun network_recv :: "nat \<Rightarrow> conn \<Rightarrow> int \<times> string \<times> conn" where
  "network_recv len c =
     (case inbox c of [] \<Rightarrow> (0, [], c)
      | Broken # rest \<Rightarrow> (-1, [], c\<lparr>inbox := rest\<rparr>)
      | Data d # rest \<Rightarrow>
          (int (length (take len d)), take len d,
           c\<lparr>inbox := if length d \<le> len then rest else Data (drop len d) # rest\<rparr>))"

definition network_send :: "string \<Rightarrow> conn \<Rightarrow> int \<times> conn" where
  "network_send data c =
     (if sends_left c = 0 then (-1, c)
      else (int (length data), c\<lparr>sends_left := sends_left c - 1, sent := sent c @ [data]\<rparr>))"

definition network_send_cmd_end :: "conn \<Rightarrow> int \<times> conn" where
  "network_send_cmd_end c = network_send (show_int NETWORK_CMD_END @ [CHR 0x0A]) c"

text \<open>
  The sequence every request starts with: receive into \<open>buf[NETWORK_BUFSIZE]\<close>, then
  \<open>buf[bytes_read] = 0\<close>. After a failed receive the store goes to \<open>buf[-1]\<close>.
\<close>

definition recv_str :: "conn \<Rightarrow> (string \<times> conn) result" where
  "recv_str c =
     (case network_recv (NETWORK_BUFSIZE - 1) c of (bytes_read, data, c') \<Rightarrow>
        if bytes_read < 0 then Inl BufferUnderflow
        else Inr (takeWhile (\<lambda>ch. ch \<noteq> nul) data, c'))"

section \<open>Facts\<close>

lemma network_recv_size:
  assumes "network_recv len c = (n, data, c')"
  shows "-1 \<le> n" "n \<le> int len" "0 \<le> n \<Longrightarrow> n = int (length data)" "sent c' = sent c"
    "sends_left c' = sends_left c"
  using assms by (auto split: list.splits portion.splits)

text \<open>The received portions are a prefix of what the client sent, nothing is lost or repeated.\<close>

fun pending :: "portion list \<Rightarrow> string" where
  "pending [] = []"
| "pending (Data d # ps) = d @ pending ps"
| "pending (Broken # ps) = pending ps"

lemma network_recv_pending:
  "network_recv len c = (n, data, c') \<Longrightarrow> data @ pending (inbox c') = pending (inbox c)"
  by (auto split: list.splits portion.splits if_splits)

text \<open>A request that arrives in one portion is read as the client wrote it.\<close>

lemma recv_str_Data:
  assumes "inbox c = Data s # rest" and "no_nul s" and "length s < NETWORK_BUFSIZE"
  shows "recv_str c = Inr (s, c\<lparr>inbox := rest\<rparr>)"
proof -
  have "takeWhile (\<lambda>ch. ch \<noteq> nul) s = s"
    using assms(2) by (induction s) auto
  moreover have "length s \<le> NETWORK_BUFSIZE - 1" using assms(3) by simp
  ultimately show ?thesis using assms(1) by (simp add: recv_str_def)
qed

lemma recv_str_Nil: "inbox c = [] \<Longrightarrow> recv_str c = Inr ([], c)"
  by (simp add: recv_str_def)

lemma recv_str_Broken: "inbox c = Broken # rest \<Longrightarrow> recv_str c = Inl BufferUnderflow"
  by (simp add: recv_str_def)

lemma recv_str_string:
  assumes "recv_str c = Inr (s, c')"
  shows "no_nul s" "length s < NETWORK_BUFSIZE" "sent c' = sent c" "sends_left c' = sends_left c"
proof -
  obtain n d where r: "network_recv (NETWORK_BUFSIZE - 1) c = (n, d, c')" "0 \<le> n"
    "s = takeWhile (\<lambda>ch. ch \<noteq> nul) d"
    using assms by (auto simp: recv_str_def split: prod.splits if_splits)
  have "length d < NETWORK_BUFSIZE"
    using network_recv_size [OF r(1)] r(2) by (simp add: NETWORK_BUFSIZE_def)
  then show "length s < NETWORK_BUFSIZE"
    using length_takeWhile_le [of "\<lambda>ch. ch \<noteq> nul" d] r(3) by simp
  show "no_nul s" unfolding no_nul_def r(3) by (auto dest: set_takeWhileD)
  show "sent c' = sent c" "sends_left c' = sends_left c" using network_recv_size [OF r(1)] by auto
qed

lemma network_send_simps [simp]:
  "sends_left c = 0 \<Longrightarrow> network_send d c = (-1, c)"
  "sends_left c = Suc n \<Longrightarrow> network_send d c = (int (length d), c\<lparr>sends_left := n, sent := sent c @ [d]\<rparr>)"
  by (simp_all add: network_send_def)

lemma network_send_inbox [simp]: "inbox (snd (network_send d c)) = inbox c"
  by (simp add: network_send_def)

end
