(* ===== verification/Video.thy ===== *)
theory Video
  imports Kernel "HOL-Library.Multiset"
begin

text \<open>
  \<^verbatim>\<open>drivers/lib/video_capture.c\<close> and \<^verbatim>\<open>draw_framebuffer.c\<close>: the camera behind the V4L2
  interface, the conversion of its YUYV frames to RGB, and the frame buffer of the display.
  The kernel's answers are arguments (\<open>camera_env\<close>, \<open>fb_env\<close>). A call of \<open>exit\<close> ends the
  process: it is the left result \<open>Exit s\<close> with the call that failed; \<open>Fault e\<close> is undefined
  behaviour. \<open>None\<close> is a call that does not return.
\<close>

section \<open>Outcomes\<close>

datatype vstop = Exit string | Fault c_err

type_synonym 'a vresult = "(vstop + 'a) option"

definition vbind :: "'a vresult \<Rightarrow> ('a \<Rightarrow> 'b vresult) \<Rightarrow> 'b vresult" where
  "vbind r f = (case r of None \<Rightarrow> None | Some (Inl e) \<Rightarrow> Some (Inl e) | Some (Inr x) \<Rightarrow> f x)"

lemma vbind_simps [simp]:
  "vbind None f = None" "vbind (Some (Inl e)) f = Some (Inl e)" "vbind (Some (Inr x)) f = f x"
  by (simp_all add: vbind_def)

definition vexit :: "string \<Rightarrow> 'a vresult" where
  "vexit s = Some (Inl (Exit s))"

definition vok :: "'a \<Rightarrow> 'a vresult" where
  "vok x = Some (Inr x)"

lemma vbind_vok [simp]: "vbind (vok x) f = f x"
  by (simp add: vok_def)

lemma vok_inject [simp]: "vok x = vok y \<longleftrightarrow> x = y"
  by (simp add: vok_def)

lemma vbind_vexit [simp]: "vbind (vexit s) f = vexit s"
  by (simp add: vexit_def)

section \<open>System calls\<close>

definition EINTR :: int where "EINTR = 4"
definition EAGAIN :: int where "EAGAIN = 11"

text \<open>
  \<open>xioctl\<close> repeats a call that was interrupted. The argument lists what the successive calls
  return, with \<open>errno\<close>; \<open>None\<close> when all of them are interrupted.
\<close>

fun xioctl :: "(int \<times> int) list \<Rightarrow> (int \<times> int) option" where
  "xioctl [] = None"
| "xioctl ((r, errno) # rest) = (if r = -1 \<and> errno = EINTR then xioctl rest else Some (r, errno))"

text \<open>The part of \<open>struct v4l2_format\<close> the code uses.\<close>

record pix_format =
  fmt_width :: nat
  fmt_height :: nat
  bytesperline :: nat
  sizeimage :: nat

record camera_env =
  stat_rc :: int
  is_chr :: bool                                   \<comment> \<open>\<open>S_ISCHR\<close>\<close>
  open_rc :: int
  ioctl_rc :: "string \<Rightarrow> nat \<Rightarrow> (int \<times> int) list"  \<comment> \<open>per request and buffer index\<close>
  can_capture :: bool
  can_stream :: bool
  s_fmt :: "pix_format \<Rightarrow> pix_format"              \<comment> \<open>what \<open>VIDIOC_S_FMT\<close> makes of a request\<close>
  req_count :: nat                                 \<comment> \<open>buffers granted by \<open>VIDIOC_REQBUFS\<close>\<close>
  calloc_ok :: bool
  buf_length :: "nat \<Rightarrow> nat"
  mmap_ok :: "nat \<Rightarrow> bool"
  munmap_rc :: "nat \<Rightarrow> int"
  close_rc :: int

record camera =
  cam_fd :: int
  buffers :: "nat list"          \<comment> \<open>the lengths of the mapped buffers\<close>
  incoming :: "nat list"         \<comment> \<open>the buffers handed to the driver\<close>
  streaming :: bool
  cam_format :: "pix_format option"   \<comment> \<open>\<open>fmt\<close> at the end of \<open>init_device\<close>\<close>

definition camera0 :: camera where
  "camera0 = \<lparr>cam_fd = -1, buffers = [], incoming = [], streaming = False, cam_format = None\<rparr>"

text \<open>A call with what its repetitions return, and a call the environment answers.\<close>

definition answered :: "(int \<times> int) list \<Rightarrow> (int \<times> int \<Rightarrow> 'a vresult) \<Rightarrow> 'a vresult" where
  "answered rs k = (case xioctl rs of None \<Rightarrow> None | Some r \<Rightarrow> k r)"

definition call :: "camera_env \<Rightarrow> string \<Rightarrow> nat \<Rightarrow> (int \<times> int \<Rightarrow> 'a vresult) \<Rightarrow> 'a vresult" where
  "call env req i k = answered (ioctl_rc env req i) k"

section \<open>Opening and closing the camera\<close>

definition open_device :: "camera_env \<Rightarrow> camera \<Rightarrow> camera vresult" where
  "open_device env c =
     (if stat_rc env = -1 then vexit ''stat''
      else if \<not> is_chr env then vexit ''no device''
      else if open_rc env = -1 then vexit ''open''
      else vok (c\<lparr>cam_fd := open_rc env\<rparr>))"

fun map_buffers :: "camera_env \<Rightarrow> nat list \<Rightarrow> camera \<Rightarrow> camera vresult" where
  "map_buffers env [] c = vok c"
| "map_buffers env (i # is) c =
     call env ''VIDIOC_QUERYBUF'' i (\<lambda>(r, errno).
       if r = -1 then vexit ''VIDIOC_QUERYBUF''
       else if \<not> mmap_ok env i then vexit ''mmap''
       else map_buffers env is (c\<lparr>buffers := buffers c @ [buf_length env i]\<rparr>))"

definition init_mmap :: "camera_env \<Rightarrow> camera \<Rightarrow> camera vresult" where
  "init_mmap env c =
     call env ''VIDIOC_REQBUFS'' 0 (\<lambda>(r, errno).
       if r = -1 then
         (if errno = EINVAL then vexit ''no memory mapping'' else vexit ''VIDIOC_REQBUFS'')
       else if req_count env < 2 then vexit ''Insufficient buffer memory''
       else if \<not> calloc_ok env then vexit ''Out of memory''
       else map_buffers env [0..<req_count env] (c\<lparr>buffers := []\<rparr>))"

text \<open>The repair of the line length and image size after \<open>VIDIOC_S_FMT\<close>, in \<open>unsigned int\<close>.\<close>

definition fix_format :: "pix_format \<Rightarrow> pix_format" where
  "fix_format fmt =
     (let least = fmt_width fmt * 2 mod 2 ^ 32;
          fmt = (if bytesperline fmt < least then fmt\<lparr>bytesperline := least\<rparr> else fmt);
          least = bytesperline fmt * fmt_height fmt mod 2 ^ 32
      in (if sizeimage fmt < least then fmt\<lparr>sizeimage := least\<rparr> else fmt))"

definition init_device :: "camera_env \<Rightarrow> nat \<Rightarrow> nat \<Rightarrow> camera \<Rightarrow> camera vresult" where
  "init_device env width height c =
     call env ''VIDIOC_QUERYCAP'' 0 (\<lambda>(r, errno).
       if r = -1 then
         (if errno = EINVAL then vexit ''no V4L2 device'' else vexit ''VIDIOC_QUERYCAP'')
       else if \<not> can_capture env then vexit ''no video capture device''
       else if \<not> can_stream env then vexit ''no streaming''
       else call env ''VIDIOC_S_FMT'' 0 (\<lambda>(r, errno).
         if r = -1 then vexit ''VIDIOC_S_FMT''
         else
           (let fmt = s_fmt env \<lparr>fmt_width = width, fmt_height = height, bytesperline = 0, sizeimage = 0\<rparr>
            in init_mmap env (c\<lparr>cam_format := Some (fix_format fmt)\<rparr>))))"

fun queue_buffers :: "camera_env \<Rightarrow> nat list \<Rightarrow> camera \<Rightarrow> camera vresult" where
  "queue_buffers env [] c = vok c"
| "queue_buffers env (i # is) c =
     call env ''VIDIOC_QBUF'' i (\<lambda>(r, errno).
       if r = -1 then vexit ''VIDIOC_QBUF''
       else queue_buffers env is (c\<lparr>incoming := incoming c @ [i]\<rparr>))"

definition start_capturing :: "camera_env \<Rightarrow> camera \<Rightarrow> camera vresult" where
  "start_capturing env c =
     vbind (queue_buffers env [0..<length (buffers c)] c) (\<lambda>c.
       call env ''VIDIOC_STREAMON'' 0 (\<lambda>(r, errno).
         if r = -1 then vexit ''VIDIOC_STREAMON'' else vok (c\<lparr>streaming := True\<rparr>)))"

definition init_video_capture :: "camera_env \<Rightarrow> nat \<Rightarrow> nat \<Rightarrow> camera \<Rightarrow> camera vresult" where
  "init_video_capture env width height c =
     vbind (open_device env c) (\<lambda>c. vbind (init_device env width height c) (start_capturing env))"

text \<open>Stopping the stream takes the buffers back from the driver (V4L2).\<close>

definition stop_capturing :: "camera_env \<Rightarrow> camera \<Rightarrow> camera vresult" where
  "stop_capturing env c =
     call env ''VIDIOC_STREAMOFF'' 0 (\<lambda>(r, errno).
       if r = -1 then vexit ''VIDIOC_STREAMOFF'' else vok (c\<lparr>streaming := False, incoming := []\<rparr>))"

fun unmap_buffers :: "camera_env \<Rightarrow> nat list \<Rightarrow> camera \<Rightarrow> camera vresult" where
  "unmap_buffers env [] c = vok (c\<lparr>buffers := []\<rparr>)"
| "unmap_buffers env (i # is) c =
     (if munmap_rc env i = -1 then vexit ''munmap'' else unmap_buffers env is c)"

definition uninit_device :: "camera_env \<Rightarrow> camera \<Rightarrow> camera vresult" where
  "uninit_device env c = unmap_buffers env [0..<length (buffers c)] c"

definition close_device :: "camera_env \<Rightarrow> camera \<Rightarrow> camera vresult" where
  "close_device env c = (if close_rc env = -1 then vexit ''close'' else vok (c\<lparr>cam_fd := -1\<rparr>))"

definition free_video_capture :: "camera_env \<Rightarrow> camera \<Rightarrow> camera vresult" where
  "free_video_capture env c =
     vbind (stop_capturing env c) (\<lambda>c. vbind (uninit_device env c) (close_device env))"

section \<open>From YUYV to RGB\<close>

type_synonym byte = "8 word"

definition clip :: "int \<Rightarrow> int" where
  "clip x = (let x = if x > 255 then 255 else x in if x < 0 then 0 else x)"

definition yuv2rgb :: "int \<Rightarrow> int \<Rightarrow> int \<Rightarrow> byte list" where
  "yuv2rgb y u v =
     (let c = y - 16; d = u - 128; e = v - 128;
          r1 = (298 * c + 409 * e + 128) div 256;
          g1 = (298 * c - 100 * d - 208 * e + 128) div 256;
          b1 = (298 * c + 516 * d + 128) div 256
      in [word_of_int (clip r1), word_of_int (clip g1), word_of_int (clip b1)])"

text \<open>The loop of \<open>parse_im\<close>: four bytes in, two pixels out; \<open>i\<close> and \<open>newi\<close> as in the code.\<close>

function parse_im_loop ::
    "byte list \<Rightarrow> nat \<Rightarrow> nat \<Rightarrow> nat \<Rightarrow> byte list \<Rightarrow> byte list result" where
  "parse_im_loop im_yuv bound i newi dst =
     (if i < bound then
        if length im_yuv < i + 4 then Inl BufferOverread
        else if length dst < newi + 6 then Inl BufferOverflow
        else
          (let y = uint (im_yuv ! i); u = uint (im_yuv ! (i + 1));
               y2 = uint (im_yuv ! (i + 2)); v = uint (im_yuv ! (i + 3))
           in parse_im_loop im_yuv bound (i + 4) (newi + 6)
                (take newi dst @ yuv2rgb y u v @ yuv2rgb y2 u v @ drop (newi + 6) dst))
      else Inr dst)"
  by pat_completeness auto
termination by (relation "measure (\<lambda>(s, b, i, n, d). b - i)") auto

declare parse_im_loop.simps [simp del]

definition parse_im :: "byte list \<Rightarrow> byte list \<Rightarrow> nat \<Rightarrow> nat \<Rightarrow> byte list result" where
  "parse_im im_yuv dst width height = parse_im_loop im_yuv (2 * (width * height)) 0 0 dst"

section \<open>Capturing a frame\<close>

text \<open>
  What \<open>select\<close> reports within its two seconds: a key on the standard input, a frame, or
  neither. A frame comes with what \<open>VIDIOC_DQBUF\<close> returns, the buffer \<open>index\<close> it names and its
  contents, and what \<open>VIDIOC_QBUF\<close> returns. Taking the buffer out of the driver's queue reads it
  through \<open>buffers[index]\<close> and gives it back.
\<close>

datatype ready =
    Key char
  | Frame "(int \<times> int) list" nat "nat \<Rightarrow> byte" "(int \<times> int) list"
  | Timeout

definition video_capture ::
    "ready \<Rightarrow> byte list \<Rightarrow> nat \<Rightarrow> nat \<Rightarrow> camera \<Rightarrow> (char \<times> byte list \<times> camera) vresult" where
  "video_capture ev dst width height c =
     (case ev of Key k \<Rightarrow> vok (k, dst, c)
      | Timeout \<Rightarrow> vok (CHR 0x00, dst, c)
      | Frame dequeued index pic queued \<Rightarrow>
          answered dequeued (\<lambda>(r, errno).
            if r = -1 then (if errno = EAGAIN then vok (CHR 0x00, dst, c) else vexit ''VIDIOC_DQBUF'')
            else if length (buffers c) \<le> index then Some (Inl (Fault WildPointer))
            else
              (let c = c\<lparr>incoming := remove1 index (incoming c)\<rparr> in
               case parse_im (map pic [0..<buffers c ! index]) dst width height of
                 Inl e \<Rightarrow> Some (Inl (Fault e))
               | Inr dst' \<Rightarrow>
                   answered queued (\<lambda>(r, errno).
                     if r = -1 then vexit ''VIDIOC_QBUF''
                     else vok (CHR 0x00, dst', c\<lparr>incoming := incoming c @ [index]\<rparr>)))))"

section \<open>The frame buffer\<close>

record fb_env =
  fb_open_rc :: int
  fscreeninfo_rc :: int
  vscreeninfo_rc :: int
  fb_mmap_ok :: bool
  line_length :: nat
  xres :: nat
  yres :: nat
  xoffset :: nat
  yoffset :: nat
  bits_per_pixel :: nat

text \<open>The display memory as 16-bit units; \<open>screensize\<close> counts bytes, with C's \<open>unsigned\<close> wrap.\<close>

definition fb_screensize :: "fb_env \<Rightarrow> nat" where
  "fb_screensize v =
     (((xres v * yres v * bits_per_pixel v) mod 2 ^ 32) div 8 * 2) mod 2 ^ 32"

text \<open>The open display: \<open>fd\<close>, and the bytes mapped at \<open>fbp\<close>.\<close>

record display =
  disp_fd :: int
  disp_map :: "nat option"

definition display0 :: display where
  "display0 = \<lparr>disp_fd = -1, disp_map = None\<rparr>"

definition init_framebuffer :: "fb_env \<Rightarrow> display \<Rightarrow> display vresult" where
  "init_framebuffer v d =
     (if fb_open_rc v = -1 then vexit ''open''
      else if fscreeninfo_rc v = -1 then vexit ''FBIOGET_FSCREENINFO''
      else if vscreeninfo_rc v = -1 then vexit ''FBIOGET_VSCREENINFO''
      else if \<not> fb_mmap_ok v then vexit ''mmap''
      else vok (d\<lparr>disp_fd := fb_open_rc v, disp_map := Some (fb_screensize v)\<rparr>))"

text \<open>The variable \<open>fd\<close> keeps the closed descriptor; -1 stands for closed here.\<close>

definition free_framebuffer :: "display \<Rightarrow> display" where
  "free_framebuffer d = d\<lparr>disp_fd := -1, disp_map := None\<rparr>"

definition makepixel :: "byte \<Rightarrow> byte \<Rightarrow> byte \<Rightarrow> nat" where
  "makepixel r g b = unat r div 8 * 2048 + unat g div 4 * 32 + unat b div 8"

definition store16 :: "nat \<Rightarrow> nat \<Rightarrow> nat list \<Rightarrow> nat list result" where
  "store16 a x fbp = (if a < length fbp then Inr (fbp[a := x]) else Inl BufferOverflow)"

fun clear_row :: "nat \<Rightarrow> nat list \<Rightarrow> nat list \<Rightarrow> nat list result" where
  "clear_row off [] fbp = Inr fbp"
| "clear_row off (x # xs) fbp = rbind (store16 (off + x) (makepixel 0 0 0) fbp) (clear_row off xs)"

fun clear_rows :: "nat \<Rightarrow> nat list \<Rightarrow> nat list \<Rightarrow> nat list result" where
  "clear_rows w [] fbp = Inr fbp"
| "clear_rows w (y # ys) fbp = rbind (clear_row (y * w) [0..<w] fbp) (clear_rows w ys)"

definition clear_framebuffer :: "fb_env \<Rightarrow> nat list \<Rightarrow> nat list result" where
  "clear_framebuffer v fbp = clear_rows (xres v) [0..<yres v] fbp"

definition fb_location :: "fb_env \<Rightarrow> nat \<Rightarrow> nat \<Rightarrow> nat" where
  "fb_location v x y =
     ((x + xoffset v) * (bits_per_pixel v div 8) + (y + yoffset v) * line_length v) mod 2 ^ 32"

text \<open>The two loops of \<open>draw_framebuffer\<close> as one over the pixel number \<open>i = y * width + x\<close>.\<close>

fun draw_pixels :: "fb_env \<Rightarrow> nat \<Rightarrow> byte list \<Rightarrow> nat list \<Rightarrow> nat list \<Rightarrow> nat list result" where
  "draw_pixels v width src [] fbp = Inr fbp"
| "draw_pixels v width src (i # is) fbp =
     (if length src < 3 * i + 3 then Inl BufferOverread
      else
        rbind (store16 (fb_location v (i mod width) (i div width))
                 (makepixel (src ! (3 * i)) (src ! (3 * i + 1)) (src ! (3 * i + 2))) fbp)
          (draw_pixels v width src is))"

definition draw_framebuffer :: "fb_env \<Rightarrow> byte list \<Rightarrow> nat \<Rightarrow> nat \<Rightarrow> nat list \<Rightarrow> nat list result" where
  "draw_framebuffer v src width height fbp = draw_pixels v width src [0..<width * height] fbp"

section \<open>Conversion facts\<close>

lemma clip_bounds [simp]: "0 \<le> clip x" "clip x \<le> 255"
  by (simp_all add: clip_def Let_def)

lemma yuv2rgb_length [simp]: "length (yuv2rgb y u v) = 3"
  by (simp add: yuv2rgb_def Let_def)

lemma uint_clip [simp]: "uint (word_of_int (clip x) :: byte) = clip x"
proof -
  have "clip x < 256" by (rule le_less_trans [OF clip_bounds(2)]) simp
  then have "clip x mod 256 = clip x" by (intro mod_pos_pos_trivial) simp_all
  then show ?thesis by (simp add: uint_word_of_int)
qed

text \<open>
  The two pixels of the four bytes at \<open>4 * j\<close>, and the loop from the \<open>j\<close>-th group on.
\<close>

definition pixel_pair :: "byte list \<Rightarrow> nat \<Rightarrow> byte list" where
  "pixel_pair s j =
     yuv2rgb (uint (s ! (4 * j))) (uint (s ! (4 * j + 1))) (uint (s ! (4 * j + 3))) @
     yuv2rgb (uint (s ! (4 * j + 2))) (uint (s ! (4 * j + 1))) (uint (s ! (4 * j + 3)))"

lemma pixel_pair_length [simp]: "length (pixel_pair s j) = 6"
  by (simp add: pixel_pair_def)

lemma concat_pairs_length [simp]: "length (concat (map (pixel_pair s) js)) = 6 * length js"
  by (induction js) simp_all

lemma parse_im_loop_spec:
  assumes "4 * n \<le> length s" and "6 * n \<le> length dst" and "j \<le> n"
    and "take (6 * j) dst = concat (map (pixel_pair s) [0..<j])"
  shows "parse_im_loop s (4 * n) (4 * j) (6 * j) dst =
    Inr (concat (map (pixel_pair s) [0..<n]) @ drop (6 * n) dst)"
  using assms
proof (induction "n - j" arbitrary: j dst)
  case 0
  then have "j = n" by simp
  then show ?case
    using 0 by (subst parse_im_loop.simps) (metis append_take_drop_id less_irrefl)
next
  case (Suc k)
  then have j: "j < n" by simp
  let ?d = "take (6 * j) dst @ pixel_pair s j @ drop (6 * j + 6) dst"
  have "parse_im_loop s (4 * n) (4 * j) (6 * j) dst = parse_im_loop s (4 * n) (4 * Suc j) (6 * Suc j) ?d"
    using j Suc.prems(1,2)
    by (subst parse_im_loop.simps) (simp add: pixel_pair_def Let_def algebra_simps)
  also have "\<dots> = Inr (concat (map (pixel_pair s) [0..<n]) @ drop (6 * n) ?d)"
  proof (rule Suc.hyps)
    show "6 * n \<le> length ?d" using Suc.prems(2) j by simp
    show "take (6 * Suc j) ?d = concat (map (pixel_pair s) [0..<Suc j])"
      using Suc.prems(2,4) j by (simp add: min_def)
  qed (use Suc j in simp_all)
  also have "drop (6 * n) ?d = drop (6 * n) dst"
    using Suc.prems(2) j by (simp add: min_def)
  finally show ?case .
qed

text \<open>A frame with an even number of pixels is converted whole, within both buffers.\<close>

lemma parse_im_loop_length: "parse_im_loop s b i n d = Inr d' \<Longrightarrow> length d' = length d"
proof (induction s b i n d rule: parse_im_loop.induct)
  case (1 s b i n d)
  from 1(2) show ?case
    by (subst (asm) parse_im_loop.simps) (auto simp: Let_def split: if_splits dest!: 1(1))
qed

lemma parse_im_length: "parse_im s d w h = Inr d' \<Longrightarrow> length d' = length d"
  by (simp add: parse_im_def parse_im_loop_length)

lemma parse_im_even:
  assumes "even (width * height)" and "2 * (width * height) \<le> length s"
    and "3 * (width * height) \<le> length dst"
  shows "parse_im s dst width height =
    Inr (concat (map (pixel_pair s) [0..<width * height div 2]) @ drop (3 * (width * height)) dst)"
proof -
  obtain n where n: "width * height = 2 * n" using assms(1) by (elim evenE)
  then show ?thesis
    using parse_im_loop_spec [of n s dst 0] assms(2,3) by (simp add: parse_im_def n)
qed

lemma pixel_pair_take:
  "take 3 (pixel_pair s j) = yuv2rgb (uint (s ! (4 * j))) (uint (s ! (4 * j + 1))) (uint (s ! (4 * j + 3)))"
  "drop 3 (pixel_pair s j) = yuv2rgb (uint (s ! (4 * j + 2))) (uint (s ! (4 * j + 1))) (uint (s ! (4 * j + 3)))"
  by (simp_all add: pixel_pair_def)

lemma concat_pairs_at:
  assumes "j < n"
  shows "take 6 (drop (6 * j) (concat (map (pixel_pair s) [0..<n]) @ rest)) = pixel_pair s j"
proof -
  have "[0..<n] = [0..<j] @ j # [Suc j..<n]"
    using assms by (metis le_add1 less_imp_add_positive upt_add_eq_append upt_conv_Cons add.left_neutral le0)
  then show ?thesis by simp
qed

lemma parse_im_pixels:
  assumes "even (width * height)" and "2 * (width * height) \<le> length frame"
    and "3 * (width * height) \<le> length dst"
  shows "\<exists>img. parse_im frame dst width height = Inr img \<and> length img = length dst \<and>
    drop (3 * (width * height)) img = drop (3 * (width * height)) dst \<and>
    (\<forall>k < width * height. take 3 (drop (3 * k) img) =
       yuv2rgb (uint (frame ! (2 * k))) (uint (frame ! (4 * (k div 2) + 1))) (uint (frame ! (4 * (k div 2) + 3))))"
proof -
  obtain n where n: "width * height = 2 * n" using assms(1) by (elim evenE)
  let ?pairs = "concat (map (pixel_pair frame) [0..<n])"
  let ?img = "?pairs @ drop (6 * n) dst"
  have p: "parse_im frame dst width height = Inr ?img"
    using parse_im_even [OF assms] by (simp add: n)
  have px: "take 3 (drop (3 * k) ?img) =
       yuv2rgb (uint (frame ! (2 * k))) (uint (frame ! (4 * (k div 2) + 1))) (uint (frame ! (4 * (k div 2) + 3)))"
    if "k < 2 * n" for k
  proof -
    let ?j = "k div 2"
    obtain d where d: "d = drop (6 * ?j) ?img" by simp
    have at: "take 6 d = pixel_pair frame ?j"
      unfolding d using that by (intro concat_pairs_at) simp
    have "take 3 (take 6 d) = take 3 d" "drop 3 (take 6 d) = take 3 (drop 3 d)"
      by (simp_all add: drop_take)
    then have halves:
      "take 3 d = yuv2rgb (uint (frame ! (4 * ?j))) (uint (frame ! (4 * ?j + 1))) (uint (frame ! (4 * ?j + 3)))"
      "take 3 (drop 3 d) = yuv2rgb (uint (frame ! (4 * ?j + 2))) (uint (frame ! (4 * ?j + 1))) (uint (frame ! (4 * ?j + 3)))"
      unfolding at pixel_pair_take by simp_all
    show ?thesis
    proof (cases "even k")
      case True
      then have k: "3 * k = 6 * ?j" "2 * k = 4 * ?j" by auto
      show ?thesis unfolding k d [symmetric] by (rule halves(1))
    next
      case False
      then have k: "3 * k = 6 * ?j + 3" "2 * k = 4 * ?j + 2" by presburger+
      have "drop (6 * ?j + 3) ?img = drop 3 d" unfolding d by (simp only: drop_drop add.commute)
      then show ?thesis unfolding k by (simp only: halves(2))
    qed
  qed
  show ?thesis
    using p px assms(3) by (intro exI [of _ ?img]) (simp add: n)
qed

text \<open>
  A picture that the loop reads further than its bytes go, as one of an odd number of pixels, is left
  at its end.
\<close>

lemma parse_im_loop_short:
  assumes "4 * (length s div 4) < bound" and "6 * (length s div 4) \<le> length dst" and "4 * j \<le> length s"
  shows "parse_im_loop s bound (4 * j) (6 * j) dst = Inl BufferOverread"
  using assms
proof (induction "length s div 4 - j" arbitrary: j dst)
  case 0
  then have "j = length s div 4" by linarith
  moreover have "length s < 4 * (length s div 4) + 4" by linarith
  ultimately show ?case using 0 by (subst parse_im_loop.simps) simp
next
  case (Suc k)
  then have j: "j < length s div 4" by simp
  then have room: "4 + j * 4 \<le> length s" by linarith
  let ?d = "take (6 * j) dst @ pixel_pair s j @ drop (6 * j + 6) dst"
  have "parse_im_loop s bound (4 * j) (6 * j) dst = parse_im_loop s bound (4 * Suc j) (6 * Suc j) ?d"
    using j room Suc.prems(1,2)
    by (subst parse_im_loop.simps) (simp add: pixel_pair_def Let_def algebra_simps)
  also have "\<dots> = Inl BufferOverread"
    using Suc j by (intro Suc.hyps) simp_all
  finally show ?case .
qed

text \<open>
  \<open>VIDIOC_S_FMT\<close> may change width and height, which the program does not look at: a buffer that
  is smaller than the picture asked for is read past its end.
\<close>

lemma small_buffer_overreads:
  assumes "index < length (buffers c)" and "buffers c ! index < 2 * (width * height)"
    and "3 * (width * height) \<le> length dst"
  shows "video_capture (Frame [(0, 0)] index pic queued) dst width height c = Some (Inl (Fault BufferOverread))"
proof -
  have "4 * (buffers c ! index div 4) < 2 * (width * height)" using assms(2) by linarith
  moreover have "6 * (buffers c ! index div 4) \<le> length dst" using assms(2,3) by linarith
  ultimately have "parse_im (map pic [0..<buffers c ! index]) dst width height = Inl BufferOverread"
    unfolding parse_im_def
    using parse_im_loop_short [of "map pic [0..<buffers c ! index]" "2 * (width * height)" dst 0] by simp
  then show ?thesis using assms(1) by (simp add: video_capture_def answered_def Let_def)
qed

section \<open>Frame buffer facts\<close>

lemma makepixel_bound: "makepixel r g b < 65536"
proof -
  have u: "unat x < 256" for x :: byte using unsigned_less [of x] by simp
  have "unat r < 256" "unat g < 256" "unat b < 256" by (rule u)+
  then have "unat r div 8 \<le> 31" "unat g div 4 \<le> 63" "unat b div 8 \<le> 31" by auto
  then show ?thesis by (simp add: makepixel_def)
qed

lemma store16_ok: "a < length fbp \<Longrightarrow> store16 a x fbp = Inr (fbp[a := x])"
  by (simp add: store16_def)

text \<open>
  The display is 16 bits deep and its lines have no padding: every pixel of an image that
  fits is stored inside the mapped memory, whose doubled size makes room for the index
  being a byte offset that is used to count 16-bit units.
\<close>

definition fb_plain :: "fb_env \<Rightarrow> bool" where
  "fb_plain v \<longleftrightarrow> bits_per_pixel v = 16 \<and> line_length v = 2 * xres v \<and> xres v * yres v < 2 ^ 27"

lemma fb_location_bound:
  assumes "fb_plain v" and "x + xoffset v < xres v" and "y + yoffset v < yres v"
  shows "fb_location v x y = 2 * (x + xoffset v + (y + yoffset v) * xres v)"
    "fb_location v x y < 2 * (xres v * yres v)"
proof -
  let ?a = "x + xoffset v" and ?b = "y + yoffset v"
  have "Suc ?b * xres v \<le> yres v * xres v" using assms(3) by (intro mult_le_mono1) simp
  then have b: "?a + ?b * xres v < xres v * yres v" using assms(2) by (simp add: algebra_simps)
  have e: "?a * 2 + ?b * (2 * xres v) = 2 * (?a + ?b * xres v)" by (simp add: algebra_simps)
  have "2 * (?a + ?b * xres v) < 2 ^ 32" using b assms(1) by (simp add: fb_plain_def)
  then show l: "fb_location v x y = 2 * (x + xoffset v + (y + yoffset v) * xres v)"
    using assms(1) e unfolding fb_location_def fb_plain_def by simp
  show "fb_location v x y < 2 * (xres v * yres v)" using b unfolding l by simp
qed

lemma fb_screensize_plain: "fb_plain v \<Longrightarrow> fb_screensize v = 4 * (xres v * yres v)"
  by (simp add: fb_screensize_def fb_plain_def)

lemma draw_pixels_ok:
  assumes "\<forall>i \<in> set is. 3 * i + 3 \<le> length src \<and> fb_location v (i mod width) (i div width) < length fbp"
  shows "\<exists>fbp'. draw_pixels v width src is fbp = Inr fbp' \<and> length fbp' = length fbp"
  using assms
proof (induction "is" arbitrary: fbp)
  case (Cons i "is")
  let ?f = "fbp[fb_location v (i mod width) (i div width) :=
    makepixel (src ! (3 * i)) (src ! (3 * i + 1)) (src ! (3 * i + 2))]"
  have "\<exists>fbp'. draw_pixels v width src is ?f = Inr fbp' \<and> length fbp' = length ?f"
    using Cons.prems by (intro Cons.IH) simp
  then show ?case using Cons.prems by (simp add: store16_ok)
qed simp

section \<open>Camera facts\<close>

lemma vbind_eq: "vbind r f = Some (Inr y) \<longleftrightarrow> (\<exists>x. r = Some (Inr x) \<and> f x = Some (Inr y))"
  by (auto simp: vbind_def split: option.splits sum.splits)

lemma answered_eq:
  "answered rs k = Some (Inr y) \<longleftrightarrow> (\<exists>r. xioctl rs = Some r \<and> k r = Some (Inr y))"
  by (auto simp: answered_def split: option.splits)

lemma call_eq:
  "call env req i k = Some (Inr y) \<longleftrightarrow> (\<exists>r. xioctl (ioctl_rc env req i) = Some r \<and> k r = Some (Inr y))"
  by (simp add: call_def answered_eq)

lemma vexit_eq [simp]: "vexit s \<noteq> Some (Inr y)"
  by (simp add: vexit_def)

lemma vok_eq [simp]: "vok x = Some (Inr y) \<longleftrightarrow> x = y"
  by (simp add: vok_def)

text \<open>\<open>xioctl\<close> never reports an interruption.\<close>

lemma xioctl_not_interrupted: "xioctl rs = Some (r, errno) \<Longrightarrow> \<not> (r = -1 \<and> errno = EINTR)"
  by (induction rs rule: xioctl.induct) (auto split: if_splits)

lemma map_buffers_eq:
  "map_buffers env is c = Some (Inr c') \<Longrightarrow> c' = c\<lparr>buffers := buffers c @ map (buf_length env) is\<rparr>"
proof (induction "is" arbitrary: c)
  case (Cons i "is")
  then have "map_buffers env is (c\<lparr>buffers := buffers c @ [buf_length env i]\<rparr>) = Some (Inr c')"
    by (auto simp: call_eq split: if_splits)
  from Cons.IH [OF this] show ?case by simp
qed simp

lemma queue_buffers_eq:
  "queue_buffers env is c = Some (Inr c') \<Longrightarrow> c' = c\<lparr>incoming := incoming c @ is\<rparr>"
proof (induction "is" arbitrary: c)
  case (Cons i "is")
  then have "queue_buffers env is (c\<lparr>incoming := incoming c @ [i]\<rparr>) = Some (Inr c')"
    by (auto simp: call_eq split: if_splits)
  from Cons.IH [OF this] show ?case by simp
qed simp

lemma unmap_buffers_eq: "unmap_buffers env is c = Some (Inr c') \<Longrightarrow> c' = c\<lparr>buffers := []\<rparr>"
  by (induction "is" arbitrary: c) (auto split: if_splits)

definition streams :: "nat \<Rightarrow> camera \<Rightarrow> bool" where
  "streams n c \<longleftrightarrow> streaming c \<and> length (buffers c) = n \<and> mset (incoming c) = mset [0..<n]"

lemma camera_closed:
  "free_video_capture env c = Some (Inr c') \<Longrightarrow>
   c' = c\<lparr>cam_fd := -1, buffers := [], incoming := [], streaming := False\<rparr>"
  by (auto simp: free_video_capture_def vbind_eq stop_capturing_def uninit_device_def close_device_def
      call_eq split: if_splits prod.splits dest!: unmap_buffers_eq)

text \<open>A capture leaves every buffer in the queue and the image at its size.\<close>

lemma video_capture_streams:
  assumes "video_capture ev dst w h c = Some (Inr (key, dst', c'))" and "streams n c"
  shows "streams n c' \<and> length dst' = length dst"
proof (cases ev)
  case (Frame dequeued index pic queued)
  let ?bytes = "map pic [0..<buffers c ! index]"
  from assms(1) Frame consider "dst' = dst" "c' = c"
    | "index < length (buffers c)" "parse_im ?bytes dst w h = Inr dst'"
      "c' = c\<lparr>incoming := remove1 index (incoming c) @ [index]\<rparr>"
    by (auto simp: video_capture_def answered_eq Let_def split: if_splits prod.splits sum.splits)
  then show ?thesis
  proof cases
    case 2
    have len: "length dst' = length dst"
      using parse_im_length [OF 2(2)] .
    have "index \<in> set (incoming c)"
      using 2(1) assms(2) mset_eq_setD [of "incoming c" "[0..<n]"] by (simp add: streams_def)
    then have "mset (remove1 index (incoming c) @ [index]) = mset (incoming c)" by simp
    then show ?thesis using assms(2) len by (simp add: streams_def 2(3))
  qed (use assms(2) in simp)
qed (use assms(1,2) in \<open>auto simp: video_capture_def\<close>)

end
