(* ===== verification/Server.thy ===== *)
theory Server
  imports Regulation Network Video
begin

text \<open>
  The request handling of \<^verbatim>\<open>main.c\<close>: \<open>socket_handler\<close> and the functions it calls, one per
  client command. A handler acts on the global state and the connection. Its result is
  \<open>None\<close> when it does not return (a loop that serves a client still connected, or a
  traversal that does not end), the left side when the process ends or leaves the defined
  behaviour, the new state otherwise. A transfer that repeats until the client disconnects
  reads the global state anew in every round: \<open>snaps\<close> are the states it finds. A request is one
  step here, its loops excepted; theories \<open>Locking\<close>, \<open>Races\<close>, \<open>Boundaries\<close> and \<open>Transfers\<close> take
  requests apart.
\<close>

section \<open>Environment\<close>

record req_env =
  stale_heap :: bool                       \<comment> \<open>released storage keeps its contents\<close>
  heap_env :: malloc_env
  file_ok :: "string \<Rightarrow> bool"              \<comment> \<open>whether \<open>open\<close> with \<open>O_CREAT\<close> succeeds\<close>
  snaps :: "planter list"
  cam_env :: camera_env
  disp_env :: fb_env
  cam_events :: "ready list"
  image0 :: "byte list"                    \<comment> \<open>the uninitialised image buffer\<close>
  cmd0 :: "char list"                      \<comment> \<open>the uninitialised message buffer\<close>

definition lift_r :: "'a result \<Rightarrow> 'a vresult" where
  "lift_r r = (case r of Inl e \<Rightarrow> Some (Inl (Fault e)) | Inr x \<Rightarrow> Some (Inr x))"

definition lift_o :: "'a result option \<Rightarrow> 'a vresult" where
  "lift_o r = (case r of None \<Rightarrow> None | Some x \<Rightarrow> lift_r x)"

lemma lift_simps [simp]:
  "lift_r (Inl e) = Some (Inl (Fault e))" "lift_r (Inr x) = Some (Inr x)"
  "lift_o None = None" "lift_o (Some r) = lift_r r"
  by (simp_all add: lift_r_def lift_o_def)

text \<open>\<open>sprintf\<close> into a buffer of \<open>NETWORK_BUFSIZE\<close> bytes; the value is the text.\<close>

definition sprintf_buf :: "string \<Rightarrow> string result" where
  "sprintf_buf text = (if length text < NETWORK_BUFSIZE then Inr text else Inl BufferOverflow)"

section \<open>Transfers to the client\<close>

definition state_text :: "planter \<Rightarrow> string" where
  "state_text p = lines_of [g_state_led p, g_state_fan p, g_state_solenoid p, g_state_drain p,
     g_state_humidifier p, g_state_dryer p]"

fun transfer_state_data :: "planter list \<Rightarrow> conn \<Rightarrow> (planter \<times> conn) vresult" where
  "transfer_state_data [] c = None"
| "transfer_state_data (p # ps) c =
     vbind (lift_r (sprintf_buf (state_text p))) (\<lambda>buf.
       case network_send buf c of (rc, c') \<Rightarrow>
         if rc = -1 then vok (p, c') else transfer_state_data ps c')"

definition sensor_text :: "planter \<Rightarrow> string" where
  "sensor_text p = lines_of [g_humi p, g_temp p, g_photo p, g_magnet p, g_moisture p]"

fun transfer_sensor_data :: "planter list \<Rightarrow> conn \<Rightarrow> (planter \<times> conn) vresult" where
  "transfer_sensor_data [] c = None"
| "transfer_sensor_data (p # ps) c =
     (if g_humi p \<le> 0 \<or> g_temp p \<le> 0 then transfer_sensor_data ps c
      else
        vbind (lift_r (sprintf_buf (sensor_text p))) (\<lambda>buf.
          case network_send buf c of (rc, c') \<Rightarrow>
            if rc = -1 then vok (p, c') else transfer_sensor_data ps c'))"

definition boundary_values :: "planter \<Rightarrow> int list" where
  "boundary_values p = [g_humi_under_humidifier p, g_humi_upper_fan p, g_temp_under_dryer p,
     g_temp_upper_cooler p, g_photo_under_led p]"

definition transfer_boundary_data :: "planter \<Rightarrow> conn \<Rightarrow> conn vresult" where
  "transfer_boundary_data p c =
     vbind (lift_r (sprintf_buf (lines_of (boundary_values p)))) (\<lambda>buf. vok (snd (network_send buf c)))"

definition transfer_mode_data :: "planter \<Rightarrow> conn \<Rightarrow> conn vresult" where
  "transfer_mode_data p c =
     vbind (lift_r (sprintf_buf (lines_of [g_mode p]))) (\<lambda>buf. vok (snd (network_send buf c)))"

definition bytes_str :: "byte list \<Rightarrow> string" where
  "bytes_str bs = map (\<lambda>b. char_of (unat b)) bs"

fun camera_loop ::
    "ready list \<Rightarrow> byte list \<Rightarrow> camera \<Rightarrow> conn \<Rightarrow> (camera \<times> conn) vresult" where
  "camera_loop [] src_image cam c = None"
| "camera_loop (ev # evs) src_image cam c =
     vbind (video_capture ev src_image 176 144 cam) (\<lambda>(key, src_image, cam).
       case network_send (bytes_str (take (144 * 176 * 3) src_image)) c of (rc, c') \<Rightarrow>
         if rc = -1 then vok (cam, c') else camera_loop evs src_image cam c')"

definition transfer_camera_data :: "req_env \<Rightarrow> conn \<Rightarrow> (camera \<times> display \<times> conn) vresult" where
  "transfer_camera_data env c =
     vbind (init_framebuffer (disp_env env) display0) (\<lambda>d.
     vbind (init_video_capture (cam_env env) 176 144 camera0) (\<lambda>cam.
     vbind (camera_loop (cam_events env) (image0 env) cam c) (\<lambda>(cam, c).
     vbind (free_video_capture (cam_env env) cam) (\<lambda>cam. vok (cam, free_framebuffer d, c)))))"

fun send_all :: "string list \<Rightarrow> conn \<Rightarrow> conn" where
  "send_all [] c = c"
| "send_all (t # ts) c = send_all ts (snd (network_send t c))"

definition transfer_database_data :: "bool \<Rightarrow> planter \<Rightarrow> conn \<Rightarrow> (planter \<times> conn) vresult" where
  "transfer_database_data stale p c =
     vbind (lift_r (recv_str c)) (\<lambda>(buf, c).
     vbind (lift_r (database_data_socket_transfer stale (atoi buf) (db p))) (\<lambda>(texts, d).
       vok (p\<lparr>db := d\<rparr>, send_all texts c)))"

section \<open>Control by the client\<close>

text \<open>
  \<open>sscanf\<close> assigns the values it can convert, in the order of its arguments, and leaves the
  variables of the others as they are.
\<close>

definition nth_or :: "int list \<Rightarrow> nat \<Rightarrow> int \<Rightarrow> int" where
  "nth_or vs i d = (if i < length vs then vs ! i else d)"

definition scan_boundaries :: "string \<Rightarrow> planter \<Rightarrow> planter" where
  "scan_boundaries buf p =
     (let vs = scan_ints 5 buf in
      p\<lparr>g_humi_under_humidifier := nth_or vs 0 (g_humi_under_humidifier p),
        g_humi_upper_fan := nth_or vs 1 (g_humi_upper_fan p),
        g_temp_under_dryer := nth_or vs 2 (g_temp_under_dryer p),
        g_temp_upper_cooler := nth_or vs 3 (g_temp_upper_cooler p),
        g_photo_under_led := nth_or vs 4 (g_photo_under_led p)\<rparr>)"

definition receive_boundary_data :: "char list \<Rightarrow> planter \<Rightarrow> conn \<Rightarrow> (planter \<times> conn) vresult" where
  "receive_boundary_data cmd p c =
     vbind (lift_r (recv_str c)) (\<lambda>(buf, c).
     vbind (lift_r (rbind (send_cmd MQ_CMD_FAN_OFF (cmd, boundary_update (scan_boundaries buf p))) (\<lambda>t.
                    rbind (send_cmd MQ_CMD_DRYER_OFF t) (\<lambda>t.
                    rbind (send_cmd MQ_CMD_LED_OFF t) (\<lambda>t.
                    send_cmd MQ_CMD_HUMIDIFIER_OFF t))))) (\<lambda>t. vok (snd t, c)))"

definition state_change :: "planter \<Rightarrow> conn \<Rightarrow> (planter \<times> conn) vresult" where
  "state_change p c =
     (if g_mode p \<noteq> MODE_MANUAL then vok (p, c)
      else vbind (lift_r (recv_str c)) (\<lambda>(buf, c). vok (message_queue_handler (atoi buf) p, c)))"

definition mode_toggle :: "planter \<Rightarrow> conn \<Rightarrow> (planter \<times> conn) vresult" where
  "mode_toggle p c =
     (let p = p\<lparr>g_mode := xor (g_mode p) 1\<rparr>
      in vbind (transfer_mode_data p c) (\<lambda>c. vok (p, c)))"

section \<open>Music\<close>

definition play_command :: "string \<Rightarrow> string" where
  "play_command name = ''madplay -a-7 -r -R 20000 '' @ [CHR 0x22] @ name @ [CHR 0x22]"

definition play_music :: "planter \<Rightarrow> conn \<Rightarrow> (planter \<times> conn) vresult" where
  "play_music p c =
     vbind (lift_r (recv_str c)) (\<lambda>(filename, c).
       let p = p\<lparr>shell := shell p @ [''killall madplay'']\<rparr> in
       if current_music p \<noteq> filename then
         (let p = p\<lparr>current_music := filename\<rparr> in
          vbind (lift_r (sprintf_buf (play_command (current_music p)))) (\<lambda>buf.
            vok (p\<lparr>shell := shell p @ [buf]\<rparr>, c)))
       else vok (p\<lparr>current_music := []\<rparr>, c))"

text \<open>\<open>remove\<close> of \<open>music_remove\<close> deletes the file before the list is searched.\<close>

definition delete_file :: "bool \<Rightarrow> planter \<Rightarrow> conn \<Rightarrow> (planter \<times> conn) vresult" where
  "delete_file stale p c =
     vbind (lift_r (recv_str c)) (\<lambda>(filename, c).
       if filename = current_music p then vok (p, c)
       else vbind (lift_o (music_remove stale filename (titles p))) (\<lambda>m.
         vok (p\<lparr>disk := (disk p)(filename := None), titles := m\<rparr>, c)))"

fun send_titles :: "string list \<Rightarrow> conn \<Rightarrow> conn result" where
  "send_titles [] c = Inr c"
| "send_titles (t # ts) c =
     rbind (sprintf_buf (t @ [CHR 0x0A])) (\<lambda>buf. send_titles ts (snd (network_send buf c)))"

definition transfer_list :: "bool \<Rightarrow> planter \<Rightarrow> conn \<Rightarrow> conn vresult" where
  "transfer_list stale p c =
     vbind (lift_o (music_print stale (titles p))) (\<lambda>ts.
     vbind (lift_r (send_titles ts c)) (\<lambda>c.
       let c = snd (network_send_cmd_end c) in
       vbind (if current_music p \<noteq> [] then lift_r (send_titles [current_music p] c) else vok c) (\<lambda>c.
         vok (snd (network_send_cmd_end c)))))"

text \<open>
  The receiving loop of \<open>receive_file\<close>. \<open>content\<close> and \<open>off\<close> are the file and the file
  position. The file is opened without truncation. A failed receive is reported and followed
  by a \<open>write\<close> of -1 bytes, which fails; with a failed \<open>open\<close> every \<open>write\<close> fails.
\<close>

definition write_at :: "nat \<Rightarrow> string \<Rightarrow> string \<Rightarrow> string" where
  "write_at off data content = take off content @ data @ drop (off + length data) content"

fun inbox_size :: "portion list \<Rightarrow> nat" where
  "inbox_size [] = 0"
| "inbox_size (Data d # ps) = Suc (length d) + inbox_size ps"
| "inbox_size (Broken # ps) = Suc (inbox_size ps)"

lemma network_recv_smaller:
  "network_recv (NETWORK_BUFSIZE - 1) c = (n, data, c') \<Longrightarrow> n \<noteq> 0 \<Longrightarrow>
   inbox_size (inbox c') < inbox_size (inbox c)"
  by (auto simp: NETWORK_BUFSIZE_def split: list.splits portion.splits)

function receive_loop :: "bool \<Rightarrow> conn \<Rightarrow> nat \<Rightarrow> string \<Rightarrow> string \<times> conn" where
  "receive_loop opened c off content =
     (case network_recv (NETWORK_BUFSIZE - 1) c of (bytes_read, data, c') \<Rightarrow>
        if bytes_read = 0 then (content, c')
        else if bytes_read = -1 then receive_loop opened c' off content
        else if opened then receive_loop opened c' (off + length data) (write_at off data content)
        else receive_loop opened c' off content)"
  by pat_completeness auto
termination
  by (relation "measure (\<lambda>(opened, c, off, content). inbox_size (inbox c))")
    (auto simp del: network_recv.simps One_nat_def intro: network_recv_smaller [OF sym])

declare receive_loop.simps [simp del]

definition receive_file :: "bool \<Rightarrow> malloc_env \<Rightarrow> (string \<Rightarrow> bool) \<Rightarrow> planter \<Rightarrow> conn \<Rightarrow> (planter \<times> conn) vresult" where
  "receive_file stale env openable p c =
     vbind (lift_r (recv_str c)) (\<lambda>(filename, c).
       let opened = openable filename;
           old = (case disk p filename of None \<Rightarrow> [] | Some s \<Rightarrow> s);
           (content, c) = receive_loop opened c 0 old;
           p = (if opened then p\<lparr>disk := (disk p)(filename \<mapsto> content)\<rparr> else p)
       in vbind (lift_o (music_add stale env filename (titles p))) (\<lambda>m.
          vbind (lift_o (music_print stale m)) (\<lambda>_.
            vok (p\<lparr>titles := m\<rparr>, snd (network_send_cmd_end c)))))"

section \<open>The dispatcher\<close>

text \<open>The \<open>case\<close> of command 9 has no \<open>break\<close>: the state transfer goes on into \<open>state_change\<close>.\<close>

definition with_state :: "planter \<Rightarrow> conn vresult \<Rightarrow> (planter \<times> conn) vresult" where
  "with_state p r = vbind r (\<lambda>c. vok (p, c))"

definition socket_handler :: "req_env \<Rightarrow> planter \<Rightarrow> conn \<Rightarrow> (planter \<times> conn) vresult" where
  "socket_handler env p c =
     vbind (lift_r (recv_str c)) (\<lambda>(buf, c).
       let cmd = atoi buf in
       if cmd = NETWORK_CMD_FILE_CLIENT_TO_SERVER then receive_file (stale_heap env) (heap_env env) (file_ok env) p c
       else if cmd = NETWORK_CMD_LIST_SERVER_TO_CLIENT then with_state p (transfer_list (stale_heap env) p c)
       else if cmd = NETWORK_CMD_DELETE_CLIENT_TO_SERVER then delete_file (stale_heap env) p c
       else if cmd = NETWORK_CMD_PLAY_CLIENT_TO_SERVER then play_music p c
       else if cmd = NETWORK_CMD_SENSOR_SERVER_TO_CLIENT then transfer_sensor_data (snaps env) c
       else if cmd = NETWORK_CMD_CAMERA_SERVER_TO_CLIENT then with_state p (vbind (transfer_camera_data env c) (\<lambda>(cam, d, c). vok c))
       else if cmd = NETWORK_CMD_DATABASE_SERVER_TO_CLIENT then transfer_database_data (stale_heap env) p c
       else if cmd = NETWORK_CMD_MODE_SERVER_TO_CLIENT then with_state p (transfer_mode_data p c)
       else if cmd = NETWORK_CMD_MODE_TOGGLE_CLIENT_TO_SERVER then mode_toggle p c
       else if cmd = NETWORK_CMD_STATE_SERVER_TO_CLIENT then
         vbind (transfer_state_data (snaps env) c) (\<lambda>(p, c). state_change p c)
       else if cmd = NETWORK_CMD_STATE_CHANGE_CLIENT_TO_SERVER then state_change p c
       else if cmd = NETWORK_CMD_BOUNDARY_SERVER_TO_CLIENT then with_state p (transfer_boundary_data p c)
       else if cmd = NETWORK_CMD_BOUNDARY_CLIENT_TO_SERVER then receive_boundary_data (cmd0 env) p c
       else vok (p, c))"

end
