(* ===== verification/Requests.thy ===== *)
theory Requests
  imports Server
begin

text \<open>
  Facts about the request handlers of theory \<open>Server\<close>: what each leaves unchanged, the
  texts that are sent, the file upload, the boundaries a client sets, the playlist and the
  player, and the invariant of the global state that every request preserves.
\<close>

section \<open>Results\<close>

lemma vbind_eq_ok: "vbind r f = Some (Inr y) \<longleftrightarrow> (\<exists>x. r = Some (Inr x) \<and> f x = Some (Inr y))"
  by (auto simp: vbind_def split: option.splits sum.splits)

lemma lift_r_ok: "lift_r r = Some (Inr y) \<longleftrightarrow> r = Inr y"
  by (cases r) simp_all

lemma lift_o_ok: "lift_o r = Some (Inr y) \<longleftrightarrow> r = Some (Inr y)"
  by (cases r) (simp_all add: lift_r_ok)

lemma vok_ok: "vok x = Some (Inr y) \<longleftrightarrow> x = y"
  by (simp add: vok_def)

lemmas ok_simps = vbind_eq_ok lift_r_ok lift_o_ok vok_ok

section \<open>Texts\<close>

lemma lines_of_length: "(\<And>x. x \<in> set xs \<Longrightarrow> in_i32 x) \<Longrightarrow> length (lines_of xs) \<le> 12 * length xs"
proof (induction xs)
  case (Cons x xs)
  then have "length (show_int x) \<le> 11" "length (lines_of xs) \<le> 12 * length xs"
    using show_int_length [of x] by simp_all
  then show ?case by (simp add: lines_of_def)
qed (simp add: lines_of_def)

lemma no_nul_lines_of: "no_nul (lines_of xs)"
  by (induction xs) (simp_all add: lines_of_def nul_def)

lemma sprintf_lines:
  assumes "\<And>x. x \<in> set xs \<Longrightarrow> in_i32 x" and "length xs \<le> 80"
  shows "sprintf_buf (lines_of xs) = Inr (lines_of xs)"
  using lines_of_length [of xs] assms by (simp add: sprintf_buf_def NETWORK_BUFSIZE_def)

lemma states_valid_i32:
  assumes "states_valid p"
  shows "in_i32 (g_state_led p)" "in_i32 (g_state_fan p)" "in_i32 (g_state_solenoid p)"
    "in_i32 (g_state_drain p)" "in_i32 (g_state_humidifier p)" "in_i32 (g_state_dryer p)"
proof -
  have small: "in_i32 x" if "x \<in> {1, 2} \<or> x \<in> {3, 4, 13} \<or> x \<in> {5, 6} \<or> x \<in> {7, 8} \<or> x \<in> {9, 10} \<or> x \<in> {11, 12}"
    for x using that by (auto simp: in_i32_def)
  show "in_i32 (g_state_led p)" "in_i32 (g_state_fan p)" "in_i32 (g_state_solenoid p)"
    "in_i32 (g_state_drain p)" "in_i32 (g_state_humidifier p)" "in_i32 (g_state_dryer p)"
    using assms by (simp_all only: states_valid_def small simp_thms)
qed

section \<open>Upload\<close>

definition whole :: "conn \<Rightarrow> bool" where
  "whole c \<longleftrightarrow> Broken \<notin> set (inbox c) \<and> Data [] \<notin> set (inbox c)"

text \<open>The loop writes all the client sends, in order, over the front of the old contents.\<close>

lemma receive_loop_whole:
  assumes "whole c"
  shows "fst (receive_loop True c (length pre) (pre @ rest)) =
    pre @ pending (inbox c) @ drop (length (pending (inbox c))) rest"
  using assms
proof (induction "inbox_size (inbox c)" arbitrary: c pre rest rule: less_induct)
  case less
  show ?case
  proof (cases "inbox c")
    case Nil
    then show ?thesis by (subst receive_loop.simps) simp
  next
    case (Cons p ps)
    then obtain d where d: "p = Data d" "d \<noteq> []" using less.prems by (cases p) (auto simp: whole_def)
    let ?n = "NETWORK_BUFSIZE - 1"
    have n: "0 < ?n" by (simp add: NETWORK_BUFSIZE_def)
    let ?c = "c\<lparr>inbox := if length d \<le> ?n then ps else Data (drop ?n d) # ps\<rparr>"
    have r: "network_recv ?n c = (int (length (take ?n d)), take ?n d, ?c)"
      using Cons d by simp
    have nz: "length (take ?n d) \<noteq> 0" using d(2) n by simp
    have w: "whole ?c" using less.prems Cons by (auto simp: whole_def)
    have smaller: "inbox_size (inbox ?c) < inbox_size (inbox c)"
      by (rule network_recv_smaller [OF r]) (use nz in linarith)
    have pend: "take ?n d @ pending (inbox ?c) = pending (inbox c)"
      by (rule network_recv_pending [OF r])
    let ?d = "take ?n d"
    have "receive_loop True c (length pre) (pre @ rest) =
        receive_loop True ?c (length (pre @ ?d)) ((pre @ ?d) @ drop (length ?d) rest)"
      using nz by (subst receive_loop.simps) (simp only: r prod.case write_at_def, simp)
    also have "fst \<dots> = (pre @ ?d) @ pending (inbox ?c) @
        drop (length (pending (inbox ?c))) (drop (length ?d) rest)"
      by (rule less.hyps [OF smaller w])
    also have "\<dots> = pre @ pending (inbox c) @ drop (length (pending (inbox c))) rest"
      using pend [symmetric] by (simp add: add.commute)
    finally show ?thesis .
  qed
qed

lemma receive_loop_closed: "fst (receive_loop False c off content) = content"
proof (induction "inbox_size (inbox c)" arbitrary: c rule: less_induct)
  case less
  obtain n d c' where r: "network_recv (NETWORK_BUFSIZE - 1) c = (n, d, c')" by (metis prod_cases3)
  show ?case
    using less.hyps [OF network_recv_smaller [OF r]] by (subst receive_loop.simps) (simp del: network_recv.simps One_nat_def add: r)
qed

lemma receive_loop_sent:
  "sent (snd (receive_loop op c off content)) = sent c \<and>
   sends_left (snd (receive_loop op c off content)) = sends_left c"
proof (induction op c off content rule: receive_loop.induct)
  case (1 op c off content)
  obtain n d c' where r: "network_recv (NETWORK_BUFSIZE - 1) c = (n, d, c')" by (metis prod_cases3)
  show ?case
    using 1 [OF r [symmetric] refl] network_recv_size(4,5) [OF r]
    by (subst (1 2) receive_loop.simps) (simp del: network_recv.simps One_nat_def add: r)
qed

section \<open>Boundaries\<close>

lemma nth_or_simps [simp]:
  "nth_or (v # vs) 0 d = v" "nth_or (v # vs) (Suc n) d = nth_or vs n d" "nth_or [] n d = d"
  by (simp_all add: nth_or_def)

lemma scan_boundaries_values:
  assumes "\<And>x. x \<in> set (boundary_values p) \<Longrightarrow> in_i32 x"
  shows "boundary_values (scan_boundaries (lines_of (boundary_values p)) q) = boundary_values p"
proof -
  have "scan_ints 5 (lines_of (boundary_values p)) = boundary_values p"
  proof -
    have "length (boundary_values p) = 5" by (simp add: boundary_values_def)
    then show ?thesis using scan_ints_lines_of [OF assms] by metis
  qed
  then show ?thesis
    by (simp add: scan_boundaries_def boundary_values_def numeral_eq_Suc)
qed

lemma boundary_update_values [simp]: "boundary_values (boundary_update p) = boundary_values p"
  by (simp add: boundary_values_def boundary_update_def)

definition new_boundaries :: "string \<Rightarrow> planter \<Rightarrow> planter" where
  "new_boundaries buf p = boundary_update (scan_boundaries buf p)"

lemma scan_boundaries_keeps [simp]:
  "mqd_main (scan_boundaries buf p) = mqd_main p" "mq (scan_boundaries buf p) = mq p"
  "g_mode (scan_boundaries buf p) = g_mode p" "dev (scan_boundaries buf p) = dev p"
  "g_state_led (scan_boundaries buf p) = g_state_led p" "g_state_fan (scan_boundaries buf p) = g_state_fan p"
  "g_state_solenoid (scan_boundaries buf p) = g_state_solenoid p"
  "g_state_drain (scan_boundaries buf p) = g_state_drain p"
  "g_state_humidifier (scan_boundaries buf p) = g_state_humidifier p" "g_state_dryer (scan_boundaries buf p) = g_state_dryer p"
  "titles (scan_boundaries buf p) = titles p" "db (scan_boundaries buf p) = db p"
  "sens (scan_boundaries buf p) = sens p" "current_music (scan_boundaries buf p) = current_music p"
  "disk (scan_boundaries buf p) = disk p" "shell (scan_boundaries buf p) = shell p"
  by (simp_all add: scan_boundaries_def Let_def)

lemma boundary_update_keeps [simp]:
  "mqd_main (boundary_update p) = mqd_main p" "mq (boundary_update p) = mq p"
  "g_mode (boundary_update p) = g_mode p" "dev (boundary_update p) = dev p"
  "g_state_led (boundary_update p) = g_state_led p" "g_state_fan (boundary_update p) = g_state_fan p"
  "g_state_solenoid (boundary_update p) = g_state_solenoid p" "g_state_drain (boundary_update p) = g_state_drain p"
  "g_state_humidifier (boundary_update p) = g_state_humidifier p" "g_state_dryer (boundary_update p) = g_state_dryer p"
  "titles (boundary_update p) = titles p" "db (boundary_update p) = db p"
  "sens (boundary_update p) = sens p" "current_music (boundary_update p) = current_music p"
  "disk (boundary_update p) = disk p" "shell (boundary_update p) = shell p"
  by (simp_all add: boundary_update_def)

lemma new_boundaries_keeps [simp]:
  "mqd_main (new_boundaries buf p) = mqd_main p" "mq (new_boundaries buf p) = mq p"
  "g_mode (new_boundaries buf p) = g_mode p" "dev (new_boundaries buf p) = dev p"
  "g_state_led (new_boundaries buf p) = g_state_led p" "g_state_fan (new_boundaries buf p) = g_state_fan p"
  "g_state_solenoid (new_boundaries buf p) = g_state_solenoid p" "g_state_drain (new_boundaries buf p) = g_state_drain p"
  "g_state_humidifier (new_boundaries buf p) = g_state_humidifier p" "g_state_dryer (new_boundaries buf p) = g_state_dryer p"
  "titles (new_boundaries buf p) = titles p" "db (new_boundaries buf p) = db p"
  "sens (new_boundaries buf p) = sens p" "current_music (new_boundaries buf p) = current_music p"
  "disk (new_boundaries buf p) = disk p" "shell (new_boundaries buf p) = shell p"
  by (simp_all add: new_boundaries_def)

lemma new_boundaries_simps [simp]:
  "states_valid (new_boundaries buf p) = states_valid p"
  "queued (new_boundaries buf p) = queued p" "queue_ok (new_boundaries buf p) = queue_ok p"
  by (simp_all add: states_valid_def queued_def queue_ok_def)

lemma new_boundaries_agrees [simp]: "agrees (new_boundaries buf p) = agrees p"
  by (rule agrees_cong) simp_all

text \<open>New boundaries switch the four regulated devices off; the regulation starts afresh.\<close>

lemma reset_sends:
  assumes "length cmd = MQ_MSG_SIZE" and "queue_ok p"
  shows "sends_of [4, 12, 2, 10] (cmd, p)
    (rbind (send_cmd MQ_CMD_FAN_OFF (cmd, p)) (\<lambda>t. rbind (send_cmd MQ_CMD_DRYER_OFF t) (\<lambda>t.
     rbind (send_cmd MQ_CMD_LED_OFF t) (\<lambda>t. send_cmd MQ_CMD_HUMIDIFIER_OFF t))))"
proof -
  have ok: "thread_ok (cmd, p)" using assms by (simp add: thread_ok_def)
  have "sends_of ([4] @ [12] @ [2] @ [10]) (cmd, p)
    (rbind (send_cmd 4 (cmd, p)) (\<lambda>t. rbind (send_cmd 12 t) (\<lambda>t.
     rbind (send_cmd 2 t) (\<lambda>t. send_cmd 10 t))))"
    by (intro sends_of_bind sends_of_cmd ok) simp_all
  then show ?thesis by (simp add: cmd_defs)
qed

lemma receive_boundary_data_spec:
  assumes "recv_str c = Inr (buf, c')" and "length cmd = MQ_MSG_SIZE" and "queue_ok p"
  obtains ms where "receive_boundary_data cmd p c = vok ((new_boundaries buf p)\<lparr>mq := ms\<rparr>, c')"
    "queue_ok ((new_boundaries buf p)\<lparr>mq := ms\<rparr>)"
    "queued ((new_boundaries buf p)\<lparr>mq := ms\<rparr>) = take MQ_MAX_MSG (queued p @ [4, 12, 2, 10])"
proof -
  have "queue_ok (new_boundaries buf p)" using assms(3) by simp
  from reset_sends [OF assms(2) this] obtain cmd' ms where
    "rbind (send_cmd MQ_CMD_FAN_OFF (cmd, new_boundaries buf p)) (\<lambda>t. rbind (send_cmd MQ_CMD_DRYER_OFF t) (\<lambda>t.
     rbind (send_cmd MQ_CMD_LED_OFF t) (\<lambda>t. send_cmd MQ_CMD_HUMIDIFIER_OFF t))) =
       Inr (cmd', (new_boundaries buf p)\<lparr>mq := ms\<rparr>)"
    "thread_ok (cmd', (new_boundaries buf p)\<lparr>mq := ms\<rparr>)"
    "queued ((new_boundaries buf p)\<lparr>mq := ms\<rparr>) = take MQ_MAX_MSG (queued p @ [4, 12, 2, 10])"
    by (auto simp: sends_of_def)
  with assms(1) show ?thesis
    by (intro that [of ms]) (simp_all add: receive_boundary_data_def new_boundaries_def thread_ok_def vok_def)
qed

section \<open>Device commands of the client\<close>

lemma state_change_only_in_manual_mode:
  assumes "inbox c = Data text # rest" and "no_nul text" and "length text < NETWORK_BUFSIZE"
  shows "state_change p c =
    (if g_mode p = MODE_MANUAL then vok (message_queue_handler (atoi text) p, c\<lparr>inbox := rest\<rparr>)
     else vok (p, c))"
  using recv_str_Data [OF assms] by (simp add: state_change_def)

lemma failed_receive_underflows:
  assumes "inbox c = Broken # rest"
  shows "socket_handler env p c = Some (Inl (Fault BufferUnderflow))"
  using recv_str_Broken [OF assms] by (simp add: socket_handler_def)

section \<open>Playlist transfer\<close>

lemma send_all_sent:
  "length ts \<le> sends_left c \<Longrightarrow>
   send_all ts c = c\<lparr>sends_left := sends_left c - length ts, sent := sent c @ ts\<rparr>"
proof (induction ts arbitrary: c)
  case (Cons t ts)
  then obtain n where n: "sends_left c = Suc n" by (cases "sends_left c") auto
  then show ?case using Cons.IH [of "c\<lparr>sends_left := n, sent := sent c @ [t]\<rparr>"] Cons.prems by simp
qed simp

lemma send_titles_eq:
  assumes "\<forall>t \<in> set ts. length t + 1 < NETWORK_BUFSIZE"
  shows "send_titles ts c = Inr (send_all (map (\<lambda>t. t @ [CHR 0x0A]) ts) c)"
  using assms by (induction ts arbitrary: c) (simp_all add: sprintf_buf_def)

lemma send_titles_overflow:
  assumes "t \<in> set ts" and "NETWORK_BUFSIZE \<le> length t + 1"
  shows "send_titles ts c = Inl BufferOverflow"
  using assms by (induction ts arbitrary: c) (auto simp: sprintf_buf_def)

lemma send_all_append [simp]: "send_all (ts @ us) c = send_all us (send_all ts c)"
  by (induction ts arbitrary: c) simp_all

lemma music_print_rep: "music_rep m ts \<Longrightarrow> music_print stale m = Some (Inr ts)"
  by (cases m) (auto simp: music_rep_def music_print_def is_list_def music_titles_spec)

lemma transfer_list_eq:
  assumes "music_rep (titles p) ts" and "\<forall>t \<in> set ts. length t + 1 < NETWORK_BUFSIZE"
    and "length (current_music p) + 1 < NETWORK_BUFSIZE"
  shows "transfer_list stale p c = vok (send_all
    (map (\<lambda>t. t @ [CHR 0x0A])
       (ts @ [show_int NETWORK_CMD_END] @ (if current_music p = [] then [] else [current_music p]) @
        [show_int NETWORK_CMD_END])) c)"
proof -
  have m: "music_print stale (titles p) = Some (Inr ts)"
    using assms(1) by (rule music_print_rep)
  show ?thesis
    using assms(2,3) by (simp add: transfer_list_def m send_titles_eq network_send_cmd_end_def vok_def
        sprintf_buf_def)
qed

section \<open>A camera session\<close>

text \<open>
  A camera and a display that work: every call succeeds, perhaps after interruptions, and the
  driver hands out its own buffers, each large enough for a picture of 176 times 144 pixels.
\<close>

definition camera_ok :: "camera_env \<Rightarrow> bool" where
  "camera_ok env \<longleftrightarrow> stat_rc env \<noteq> -1 \<and> is_chr env \<and> open_rc env \<noteq> -1 \<and> can_capture env \<and> can_stream env \<and>
     2 \<le> req_count env \<and> calloc_ok env \<and> (\<forall>i. mmap_ok env i) \<and> (\<forall>i. munmap_rc env i \<noteq> -1) \<and>
     close_rc env \<noteq> -1 \<and> (\<forall>req i. \<exists>r e. xioctl (ioctl_rc env req i) = Some (r, e) \<and> r \<noteq> -1)"

definition display_ok :: "fb_env \<Rightarrow> bool" where
  "display_ok v \<longleftrightarrow> fb_open_rc v \<noteq> -1 \<and> fscreeninfo_rc v \<noteq> -1 \<and> vscreeninfo_rc v \<noteq> -1 \<and> fb_mmap_ok v"

definition frame_ok :: "camera_env \<Rightarrow> ready \<Rightarrow> bool" where
  "frame_ok env ev \<longleftrightarrow>
     (case ev of Frame dq i pic qd \<Rightarrow>
        (\<exists>r e. xioctl dq = Some (r, e) \<and> (r = -1 \<longrightarrow> e = EAGAIN)) \<and>
        i < req_count env \<and> 2 * (176 * 144) \<le> buf_length env i \<and>
        (\<exists>r e. xioctl qd = Some (r, e) \<and> r \<noteq> -1)
      | _ \<Rightarrow> True)"

lemma call_ok:
  assumes "camera_ok env" and "\<And>r e. r \<noteq> -1 \<Longrightarrow> k (r, e) = x"
  shows "call env req i k = x"
proof -
  obtain r e where "xioctl (ioctl_rc env req i) = Some (r, e)" "r \<noteq> -1"
    using assms(1) unfolding camera_ok_def by blast
  then show ?thesis using assms(2) by (simp add: call_def answered_def)
qed

lemma map_buffers_ok:
  "camera_ok env \<Longrightarrow> map_buffers env is c = vok (c\<lparr>buffers := buffers c @ map (buf_length env) is\<rparr>)"
  by (induction "is" arbitrary: c) (auto intro!: call_ok simp: camera_ok_def)

lemma queue_buffers_ok:
  "camera_ok env \<Longrightarrow> queue_buffers env is c = vok (c\<lparr>incoming := incoming c @ is\<rparr>)"
  by (induction "is" arbitrary: c) (auto intro!: call_ok)

lemma unmap_buffers_ok: "camera_ok env \<Longrightarrow> unmap_buffers env is c = vok (c\<lparr>buffers := []\<rparr>)"
  by (induction "is" arbitrary: c) (auto simp: camera_ok_def)

lemma init_video_capture_ok:
  assumes "camera_ok env"
  shows "\<exists>fmt. init_video_capture env w h camera0 =
    vok \<lparr>cam_fd = open_rc env, buffers = map (buf_length env) [0..<req_count env],
      incoming = [0..<req_count env], streaming = True, cam_format = fmt\<rparr>"
proof -
  have m: "init_mmap env c = vok (c\<lparr>buffers := map (buf_length env) [0..<req_count env]\<rparr>)" for c
    unfolding init_mmap_def
    by (rule call_ok [OF assms]) (use assms in \<open>simp add: map_buffers_ok camera_ok_def\<close>)
  have d: "\<exists>fmt. init_device env w h c =
      vok (c\<lparr>cam_format := fmt, buffers := map (buf_length env) [0..<req_count env]\<rparr>)" for c
    unfolding init_device_def
    by (rule exI, rule call_ok [OF assms], use assms in \<open>simp add: camera_ok_def\<close>, rule call_ok [OF assms])
      (simp add: Let_def m)
  have s: "start_capturing env c = vok (c\<lparr>incoming := incoming c @ [0..<length (buffers c)], streaming := True\<rparr>)" for c
    unfolding start_capturing_def using assms by (simp add: queue_buffers_ok) (rule call_ok [OF assms], simp)
  obtain fmt where "init_device env w h (camera0\<lparr>cam_fd := open_rc env\<rparr>) =
      vok (camera0\<lparr>cam_fd := open_rc env, cam_format := fmt, buffers := map (buf_length env) [0..<req_count env]\<rparr>)"
    using d [of "camera0\<lparr>cam_fd := open_rc env\<rparr>"] by auto
  then show ?thesis
    using assms by (auto simp: init_video_capture_def open_device_def camera_ok_def s camera0_def)
qed

lemma free_video_capture_ok:
  assumes "camera_ok env"
  shows "free_video_capture env c = vok (c\<lparr>cam_fd := -1, buffers := [], incoming := [], streaming := False\<rparr>)"
proof -
  have "stop_capturing env c = vok (c\<lparr>streaming := False, incoming := []\<rparr>)" for c
    unfolding stop_capturing_def by (rule call_ok [OF assms]) simp
  moreover have "close_device env c = vok (c\<lparr>cam_fd := -1\<rparr>)" for c
    using assms by (simp add: close_device_def camera_ok_def)
  ultimately show ?thesis
    using assms by (cases c) (simp add: free_video_capture_def uninit_device_def unmap_buffers_ok)
qed

text \<open>What the image is after an event: a frame that was dequeued replaces it.\<close>

definition picture :: "camera_env \<Rightarrow> byte list \<Rightarrow> ready \<Rightarrow> byte list" where
  "picture env img ev =
     (case ev of Frame dq i pic qd \<Rightarrow>
        (case xioctl dq of Some (r, e) \<Rightarrow>
           if r = -1 then img
           else (case parse_im (map pic [0..<buf_length env i]) img 176 144 of Inr img' \<Rightarrow> img' | Inl _ \<Rightarrow> img)
         | None \<Rightarrow> img)
      | _ \<Rightarrow> img)"

lemma video_capture_total:
  assumes "frame_ok env ev" and "buffers cam = map (buf_length env) [0..<req_count env]"
    and "length img = 76032"
  shows "\<exists>key cam'. video_capture ev img 176 144 cam = vok (key, picture env img ev, cam') \<and>
    buffers cam' = buffers cam"
proof (cases ev)
  case (Frame dq i pic qd)
  then have i: "i < req_count env" "50688 \<le> buf_length env i" using assms(1) by (simp_all add: frame_ok_def)
  obtain r e r' e' where q: "xioctl dq = Some (r, e)" "r = -1 \<longrightarrow> e = EAGAIN"
    "xioctl qd = Some (r', e')" "r' \<noteq> -1"
    using assms(1) Frame by (auto simp: frame_ok_def)
  let ?f = "map pic [0..<buffers cam ! i]"
  obtain img' where p: "parse_im ?f img 176 144 = Inr img'"
    using parse_im_pixels [of 176 144 ?f img] i assms(2,3) by auto
  show ?thesis
    using q i p assms(2) by (simp add: video_capture_def picture_def Frame answered_def Let_def)
qed (simp_all add: video_capture_def picture_def)

text \<open>
  The client gets the image after each event, as long as it stays. Before the first frame that
  is the uninitialised image.
\<close>

lemma camera_loop_session:
  assumes "\<forall>ev \<in> set evs. frame_ok env ev" and "sends_left c < length evs"
    and "buffers cam = map (buf_length env) [0..<req_count env]" and "length img = 76032"
    and "streams n cam"
  shows "\<exists>cam' c'. camera_loop evs img cam c = vok (cam', c') \<and> streams n cam' \<and>
    sent c' = sent c @ map (\<lambda>k. bytes_str (foldl (picture env) img (take (Suc k) evs))) [0..<sends_left c] \<and>
    inbox c' = inbox c \<and> sends_left c' = 0"
  using assms
proof (induction evs arbitrary: img cam c)
  case (Cons ev evs)
  let ?img = "picture env img ev"
  obtain key cam' where v: "video_capture ev img 176 144 cam = vok (key, ?img, cam')"
    "buffers cam' = buffers cam"
    using video_capture_total [of env ev cam img] Cons.prems by auto
  then have s: "streams n cam'" "length ?img = 76032"
    using video_capture_streams [of ev img 176 144 cam key ?img cam' n] Cons.prems(4,5) by (auto simp: vok_def)
  show ?case
  proof (cases "sends_left c")
    case 0
    then show ?thesis using v s by (simp add: network_send_def)
  next
    case (Suc m)
    let ?c = "c\<lparr>sends_left := m, sent := sent c @ [bytes_str ?img]\<rparr>"
    have "\<exists>cam2 c2. camera_loop evs ?img cam' ?c = vok (cam2, c2) \<and> streams n cam2 \<and>
      sent c2 = sent ?c @ map (\<lambda>k. bytes_str (foldl (picture env) ?img (take (Suc k) evs))) [0..<sends_left ?c] \<and>
      inbox c2 = inbox ?c \<and> sends_left c2 = 0"
      by (rule Cons.IH) (use Cons.prems Suc v(2) s in auto)
    moreover have "[0..<Suc m] = 0 # map Suc [0..<m]" by (simp add: map_Suc_upt upt_conv_Cons)
    ultimately show ?thesis
      using v s Suc by (auto simp: network_send_def comp_def simp del: upt_Suc)
  qed
qed simp

lemma length_pictures:
  "\<forall>ev \<in> set evs. frame_ok env ev \<Longrightarrow> length img = 76032 \<Longrightarrow> length (foldl (picture env) img evs) = 76032"
proof (induction evs arbitrary: img)
  case (Cons ev evs)
  have "length (picture env img ev) = 76032"
    using Cons.prems(2) by (auto simp: picture_def dest!: parse_im_length split: ready.splits option.splits sum.splits)
  then show ?case using Cons by simp
qed simp

end
