(* ===== verification/System.thy ===== *)
theory System
  imports Requests
begin

text \<open>
  The program as a whole: \<open>main\<close> up to its loop, the four sensor threads, the main loop and the
  request threads as one transition system whose steps interleave in any order. A sensor thread
  goes through its stages (measure, decide, log) one step at a time, so that commands and
  requests can come between any two of its decisions. An iteration of the main loop is one step,
  and so is a request: this is the program in which calls of \<open>message_queue_handler\<close> do not
  overlap. The code takes no lock for them; theory \<open>Races\<close> has them overlap, and what holds
  there of devices and state variables is proved there. A transfer that repeats until the client
  disconnects only reads the state, it is taken in the state in which it ends. (Theories
  \<open>Locking\<close>, \<open>Races\<close>, \<open>Boundaries\<close> and \<open>Transfers\<close> take requests apart.) The invariant of the
  global state is proved for every reachable state.
\<close>

section \<open>main\<close>

definition main_init ::
    "bool \<Rightarrow> int \<Rightarrow> malloc_env \<Rightarrow> string list option \<Rightarrow> bool \<Rightarrow> int \<Rightarrow> char list list \<Rightarrow> planter \<Rightarrow>
     planter result option" where
  "main_init stale photo_ioctl_rc env dir sqlite_open_ok mq_open_rc left p =
     (let p = boundary_init (states_init (devices_init photo_ioctl_rc p)) in
      case music_init stale env dir (snd (titles p)) of None \<Rightarrow> None
      | Some (Inl e) \<Rightarrow> Some (Inl e)
      | Some (Inr m) \<Rightarrow>
          Some (rbind (database_init sqlite_open_ok (db p)) (\<lambda>d.
                  Inr (message_queue_init mq_open_rc left (p\<lparr>titles := m, db := d\<rparr>)))))"

text \<open>
  The server socket: \<open>None\<close> when the usage message ends the program. A socket that could not be
  set up is reported, and the loop polls the descriptor -1.
\<close>

definition main_server :: "string list \<Rightarrow> int \<Rightarrow> int \<Rightarrow> int \<Rightarrow> (int \<times> net_call list) option" where
  "main_server argv socket_rc setsockopt_rc bind_rc =
     map_option (network_server_init socket_rc setsockopt_rc bind_rc) (network_get_port argv)"

text \<open>One iteration of the loop of \<open>main\<close>: whether a request thread is started, and the state.\<close>

definition main_loop :: "int \<Rightarrow> planter \<Rightarrow> (bool \<times> planter) result" where
  "main_loop accept_rc p =
     (let new_sd = network_accept_client accept_rc in
      rbind (mq_poll p) (\<lambda>p. Inr (new_sd \<ge> 0, p)))"

section \<open>Threads in stages\<close>

datatype stage = Measure | Decide nat | Log nat

definition thread_step ::
    "(thread \<Rightarrow> bool \<times> thread) \<Rightarrow> (thread \<Rightarrow> thread result) list \<Rightarrow> (planter \<Rightarrow> planter result) list \<Rightarrow>
     stage \<Rightarrow> thread \<Rightarrow> (stage \<times> thread) result" where
  "thread_step sample decisions logs st t =
     (case st of
        Measure \<Rightarrow>
          (case sample t of (ok, t') \<Rightarrow>
             Inr (if \<not> ok then Measure else if g_mode (snd t') = MODE_AUTO then Decide 0 else Log 0, t'))
      | Decide n \<Rightarrow>
          if n < length decisions then rbind ((decisions ! n) t) (\<lambda>t'. Inr (Decide (Suc n), t'))
          else Inr (Log 0, t)
      | Log n \<Rightarrow>
          if n < length logs then rbind ((logs ! n) (snd t)) (\<lambda>p. Inr (Log (Suc n), fst t, p))
          else Inr (Measure, t))"

definition humitemp_measure :: "bool \<Rightarrow> int \<times> u8 list \<Rightarrow> thread \<Rightarrow> bool \<times> thread" where
  "humitemp_measure char_signed delivered t =
     (let (cmd, p) = t; (rc, s) = humitemp_read char_signed delivered (sens p); p = p\<lparr>sens := s\<rparr> in
      case rc of None \<Rightarrow> (False, cmd, p)
      | Some (humi, temp) \<Rightarrow> (True, cmd, p\<lparr>g_humi := humi, g_temp := temp\<rparr>))"

definition humitemp_decisions :: "(thread \<Rightarrow> thread result) list" where
  "humitemp_decisions = [fan_auto, humidifier_auto, dryer_auto, cooler_auto]"

definition humitemp_logs :: "bool \<Rightarrow> (planter \<Rightarrow> planter result) list" where
  "humitemp_logs stale =
     [\<lambda>p. log_value stale DATABASE_HUMI (g_humi p) p, \<lambda>p. log_value stale DATABASE_TEMP (g_temp p) p]"

definition photo_measure :: "int \<Rightarrow> thread \<Rightarrow> bool \<times> thread" where
  "photo_measure intensity t =
     (let (cmd, p) = t; p = p\<lparr>g_photo := intensity\<rparr> in (g_photo p \<noteq> -1, cmd, p))"

definition photo_logs :: "bool \<Rightarrow> (planter \<Rightarrow> planter result) list" where
  "photo_logs stale = [\<lambda>p. log_value stale DATABASE_PHOTO (g_photo p) p]"

definition magnetic_measure :: "(pin \<Rightarrow> int) \<Rightarrow> (pin \<Rightarrow> int) \<Rightarrow> thread \<Rightarrow> bool \<times> thread" where
  "magnetic_measure get later t =
     (True, fst t, (snd t)\<lparr>g_magnet := mag_valid_detectection get later (sens (snd t))\<rparr>)"

definition magnetic_logs :: "bool \<Rightarrow> (planter \<Rightarrow> planter result) list" where
  "magnetic_logs stale = [\<lambda>p. log_value stale DATABASE_MAGNET (g_magnet p) p]"

definition moisture_measure :: "(pin \<Rightarrow> int) \<Rightarrow> thread \<Rightarrow> bool \<times> thread" where
  "moisture_measure get t =
     (True, fst t, (snd t)\<lparr>g_moisture := moisture_is_full get (sens (snd t))\<rparr>)"

definition moisture_logs :: "bool \<Rightarrow> (planter \<Rightarrow> planter result) list" where
  "moisture_logs stale = [\<lambda>p. log_value stale DATABASE_MOISTURE (g_moisture p) p]"

text \<open>The thread left alone until it sleeps again: the rounds of \<open>Control\<close>.\<close>

fun thread_run ::
    "(thread \<Rightarrow> bool \<times> thread) \<Rightarrow> (thread \<Rightarrow> thread result) list \<Rightarrow> (planter \<Rightarrow> planter result) list \<Rightarrow>
     nat \<Rightarrow> stage \<Rightarrow> thread \<Rightarrow> thread result option" where
  "thread_run m ds ls 0 st t = None"
| "thread_run m ds ls (Suc fuel) st t =
     (case thread_step m ds ls st t of Inl e \<Rightarrow> Some (Inl e)
      | Inr (Measure, t') \<Rightarrow> Some (Inr t')
      | Inr (st', t') \<Rightarrow> thread_run m ds ls fuel st' t')"

text \<open>
  The stages of a round in their order. A step that does not end the round goes to a later
  stage, and a round ends after as many steps as it has stages.
\<close>

instantiation stage :: linorder
begin

fun less_eq_stage :: "stage \<Rightarrow> stage \<Rightarrow> bool" where
  "less_eq_stage Measure st = True"
| "less_eq_stage (Decide m) Measure = False"
| "less_eq_stage (Decide m) (Decide n) = (m \<le> n)"
| "less_eq_stage (Decide m) (Log n) = True"
| "less_eq_stage (Log m) (Log n) = (m \<le> n)"
| "less_eq_stage (Log m) st = False"

definition less_stage :: "stage \<Rightarrow> stage \<Rightarrow> bool" where
  "less_stage st st' \<longleftrightarrow> st \<le> st' \<and> \<not> st' \<le> (st :: stage)"

instance
proof
  fix x y z :: stage
  show "x < y \<longleftrightarrow> x \<le> y \<and> \<not> y \<le> x" by (rule less_stage_def)
  show "x \<le> x" by (cases x) simp_all
  show "x \<le> y \<Longrightarrow> y \<le> z \<Longrightarrow> x \<le> z" by (cases x; cases y; cases z) simp_all
  show "x \<le> y \<Longrightarrow> y \<le> x \<Longrightarrow> x = y" by (cases x; cases y) simp_all
  show "x \<le> y \<or> y \<le> x" by (cases x; cases y) auto
qed

end

lemma thread_step_advances:
  "thread_step m ds ls st t = Inr (st', t') \<Longrightarrow> st' = Measure \<or> st < st'"
  by (cases st) (auto simp: thread_step_def less_stage_def rbind_eq_Inr split: if_splits prod.splits)

definition steps_left :: "nat \<Rightarrow> nat \<Rightarrow> stage \<Rightarrow> nat" where
  "steps_left d l st =
     (case st of Measure \<Rightarrow> d + l + 3 | Decide n \<Rightarrow> d - n + l + 2 | Log n \<Rightarrow> l - n + 1)"

lemma thread_step_left:
  assumes "thread_step m ds ls st t = Inr (st', t')" and "st' \<noteq> Measure"
  shows "steps_left (length ds) (length ls) st' < steps_left (length ds) (length ls) st"
  using assms
  by (cases st) (auto simp: thread_step_def steps_left_def rbind_eq_Inr split: if_splits prod.splits)

lemma thread_run_ends:
  "steps_left (length ds) (length ls) st \<le> fuel \<Longrightarrow> thread_run m ds ls fuel st t \<noteq> None"
proof (induction fuel arbitrary: st t)
  case 0
  then show ?case by (cases st) (simp_all add: steps_left_def)
next
  case (Suc fuel)
  show ?case
  proof (cases "thread_step m ds ls st t")
    case (Inr r)
    obtain st' t' where r: "r = (st', t')" by (cases r)
    show ?thesis
    proof (cases "st' = Measure")
      case False
      then have "steps_left (length ds) (length ls) st' \<le> fuel"
        using thread_step_left [of m ds ls st t st' t'] Suc.prems Inr r by simp
      from Suc.IH [OF this, of t'] show ?thesis
        using False Inr r by (cases st') simp_all
    qed (simp add: Inr r)
  qed simp
qed

section \<open>The transition system\<close>

record system =
  core :: planter
  stage_h :: stage   cmd_h :: "char list"
  stage_p :: stage   cmd_p :: "char list"
  stage_g :: stage   cmd_g :: "char list"
  stage_m :: stage   cmd_m :: "char list"

inductive sys_step :: "system \<Rightarrow> system \<Rightarrow> bool" where
  humitemp: "thread_step (humitemp_measure char_signed delivered) humitemp_decisions
      (humitemp_logs stale) (stage_h s) (cmd_h s, core s) = Inr (st, cmd, p) \<Longrightarrow>
    sys_step s (s\<lparr>core := p, stage_h := st, cmd_h := cmd\<rparr>)"
| photo: "thread_step (photo_measure (fst (photo_get_intensity wr rd temp))) [led_auto] (photo_logs stale)
      (stage_p s) (cmd_p s, core s) = Inr (st, cmd, p) \<Longrightarrow>
    sys_step s (s\<lparr>core := p, stage_p := st, cmd_p := cmd\<rparr>)"
| magnetic: "thread_step (magnetic_measure get later) [valve_auto] (magnetic_logs stale)
      (stage_g s) (cmd_g s, core s) = Inr (st, cmd, p) \<Longrightarrow>
    sys_step s (s\<lparr>core := p, stage_g := st, cmd_g := cmd\<rparr>)"
| moisture: "thread_step (moisture_measure get) [drain_auto] (moisture_logs stale)
      (stage_m s) (cmd_m s, core s) = Inr (st, cmd, p) \<Longrightarrow>
    sys_step s (s\<lparr>core := p, stage_m := st, cmd_m := cmd\<rparr>)"
| main: "main_loop accept_rc (core s) = Inr (started, p) \<Longrightarrow> sys_step s (s\<lparr>core := p\<rparr>)"
| request: "socket_handler env (core s) c = Some (Inr (p, c')) \<Longrightarrow> length (cmd0 env) = MQ_MSG_SIZE \<Longrightarrow>
    set (snaps env) \<subseteq> {core s} \<Longrightarrow> sys_step s (s\<lparr>core := p\<rparr>)"

section \<open>The invariant of the global state\<close>

definition core_inv :: "planter \<Rightarrow> bool" where
  "core_inv p \<longleftrightarrow> queue_ok p \<and> states_valid p \<and> (g_mode p = 0 \<or> g_mode p = 1) \<and>
     (presses (hw (dev p)) \<le> 2147483647 \<longrightarrow> agrees p)"

lemma core_inv_cong:
  assumes "core_inv p" and "dev q = dev p" and "g_state_led q = g_state_led p"
    and "g_state_fan q = g_state_fan p" and "g_state_solenoid q = g_state_solenoid p"
    and "g_state_drain q = g_state_drain p" and "g_state_humidifier q = g_state_humidifier p"
    and "g_state_dryer q = g_state_dryer p" and "g_mode q = 0 \<or> g_mode q = 1" and "queue_ok q"
  shows "core_inv q"
proof -
  have "agrees q = agrees p" using assms by (intro agrees_cong)
  moreover have "states_valid q = states_valid p" using assms by (simp add: states_valid_def)
  ultimately show ?thesis using assms by (simp add: core_inv_def)
qed

lemma core_inv_mq: "core_inv p \<Longrightarrow> queue_ok (p\<lparr>mq := ms\<rparr>) \<Longrightarrow> core_inv (p\<lparr>mq := ms\<rparr>)"
  by (rule core_inv_cong) (auto simp: core_inv_def)

subsection \<open>Presses are never taken back\<close>

lemma presses_sys [simp]:
  "presses (hw w) \<le> presses (hw (sys_ioctl fd cmd arg w))"
  by (simp add: sys_ioctl_def split: option.split)

lemma presses_sys_trans: "presses (hw v) \<le> presses (hw w) \<Longrightarrow> presses (hw v) \<le> presses (hw (sys_ioctl fd cmd arg w))"
  by (rule le_trans [OF _ presses_sys])

lemma presses_usleep: "presses (hw v) \<le> presses (hw w) \<Longrightarrow> presses (hw v) \<le> presses (hw (usleep n w))"
  by (simp add: usleep_def)

lemma presses_upd: "presses (hw w) \<le> presses (hw (sys_ioctl fd cmd arg (w\<lparr>cnt := k\<rparr>)))"
  "presses (hw w) \<le> presses (hw (sys_ioctl fd cmd arg (w\<lparr>fan_duty := d\<rparr>)))"
  "presses (hw w) \<le> presses (hw (sys_ioctl fd cmd arg (w\<lparr>servo_duty := d\<rparr>)))"
  by (rule order_trans [OF _ presses_sys], simp)+

lemma presses_relay:
  "presses (hw w) \<le> presses (hw (snd (relay_connect ch w)))"
  "presses (hw w) \<le> presses (hw (snd (relay_disconnect ch w)))"
  by (simp_all add: relay_connect_def relay_disconnect_def)

lemma presses_fan: "presses (hw w) \<le> presses (hw (snd (fan_rotate sp w)))"
  using presses_relay(1) [of w 3] presses_upd(2) [of "snd (relay_connect 3 w)"]
  by (auto simp: fan_rotate_def Let_def intro: order_trans)

lemma presses_servo: "presses (hw w) \<le> presses (hw (servo_set pw w))"
  by (simp add: servo_set_def Let_def presses_usleep presses_upd)

lemma presses_push: "presses (hw w) \<le> presses (hw (humidifier_push w))"
  by (simp add: humidifier_push_def Let_def presses_usleep presses_sys_trans presses_upd)

lemma presses_push_2: "presses (hw w) \<le> presses (hw (humidifier_push_2 w))"
  using presses_push [of w] presses_push [of "usleep 500000 (humidifier_push w)"]
  by (simp add: humidifier_push_2_def)

lemma presses_if:
  "n \<le> presses (hw v) \<Longrightarrow> n \<le> presses (hw w) \<Longrightarrow> n \<le> presses (hw (if b then v else w))"
  by simp

lemma handler_presses_mono: "presses (hw (dev p)) \<le> presses (hw (dev (message_queue_handler c p)))"
proof -
  have drain: "presses (hw w) \<le> presses (hw (drain_open w))" "presses (hw w) \<le> presses (hw (drain_close w))" for w
    by (simp_all add: drain_open_def drain_close_def servo_rotate_def presses_servo)
  have button: "presses (hw w) \<le> presses (hw (humidifier_on w))" "presses (hw w) \<le> presses (hw (humidifier_off w))" for w
    by (simp_all add: humidifier_on_def humidifier_off_def presses_usleep presses_push presses_push_2)
  show ?thesis
    unfolding handler_dev led_on_def led_off_def solenoid_open_def solenoid_close_def dryer_on_def dryer_off_def fan_off_def
    by (intro presses_if presses_relay presses_fan drain button order_refl)
qed

lemma core_inv_handler [simp]: "core_inv p \<Longrightarrow> core_inv (message_queue_handler c p)"
  using handler_presses_mono [of p c] agrees_handler [of p c]
  by (auto simp: core_inv_def)

subsection \<open>The main loop\<close>

lemma core_inv_poll: "core_inv p \<Longrightarrow> mq_poll p = Inr q \<Longrightarrow> core_inv q"
proof (cases "queued p")
  case Nil
  assume "core_inv p" "mq_poll p = Inr q"
  with mq_poll_Nil [OF Nil] show ?thesis by simp
next
  case (Cons c cs)
  assume p: "core_inv p" "mq_poll p = Inr q"
  then have ok: "queue_ok p" by (simp add: core_inv_def)
  then have "queue_ok (p\<lparr>mq := tl (mq p)\<rparr>)"
    by (auto simp: queue_ok_def dest: list.set_sel(2) [rotated])
      (metis list.sel(2) list.set_sel(2))+
  then show ?thesis
    using p mq_poll_Cons [OF ok Cons] core_inv_mq [OF p(1)] by auto
qed

lemma mq_poll_total:
  assumes "core_inv p"
  shows "\<exists>q. mq_poll p = Inr q"
proof (cases "queued p")
  case Nil
  then show ?thesis using mq_poll_Nil by blast
next
  case (Cons c cs)
  then show ?thesis using mq_poll_Cons assms unfolding core_inv_def by blast
qed

subsection \<open>The threads\<close>

lemma agrees_upd [simp]:
  "agrees (p\<lparr>sens := s\<rparr>) = agrees p"
  "agrees (p\<lparr>db := d\<rparr>) = agrees p"
  "agrees (p\<lparr>mq := ms\<rparr>) = agrees p"
  "agrees (p\<lparr>titles := m\<rparr>) = agrees p"
  "agrees (p\<lparr>disk := f\<rparr>) = agrees p"
  "agrees (p\<lparr>shell := sh\<rparr>) = agrees p"
  "agrees (p\<lparr>current_music := cm\<rparr>) = agrees p"
  "agrees (p\<lparr>g_photo := v\<rparr>) = agrees p"
  "agrees (p\<lparr>g_magnet := v\<rparr>) = agrees p"
  "agrees (p\<lparr>g_moisture := v\<rparr>) = agrees p"
  "agrees (p\<lparr>g_mode := v\<rparr>) = agrees p"
  "agrees (p\<lparr>sens := s, g_humi := v, g_temp := u\<rparr>) = agrees p"
  by (rule agrees_cong; simp)+

lemma states_valid_upd [simp]:
  "states_valid (p\<lparr>sens := s\<rparr>) = states_valid p"
  "states_valid (p\<lparr>db := d\<rparr>) = states_valid p"
  "states_valid (p\<lparr>mq := ms\<rparr>) = states_valid p"
  "states_valid (p\<lparr>titles := m\<rparr>) = states_valid p"
  "states_valid (p\<lparr>disk := f\<rparr>) = states_valid p"
  "states_valid (p\<lparr>shell := sh\<rparr>) = states_valid p"
  "states_valid (p\<lparr>current_music := cm\<rparr>) = states_valid p"
  "states_valid (p\<lparr>g_photo := v\<rparr>) = states_valid p"
  "states_valid (p\<lparr>g_magnet := v\<rparr>) = states_valid p"
  "states_valid (p\<lparr>g_moisture := v\<rparr>) = states_valid p"
  "states_valid (p\<lparr>g_mode := v\<rparr>) = states_valid p"
  "states_valid (p\<lparr>sens := s, g_humi := v, g_temp := u\<rparr>) = states_valid p"
  by (simp_all add: states_valid_def)

lemma core_inv_sensors [simp]:
  "core_inv p \<Longrightarrow> core_inv (p\<lparr>sens := s\<rparr>)" "core_inv p \<Longrightarrow> core_inv (p\<lparr>g_photo := v\<rparr>)"
  "core_inv p \<Longrightarrow> core_inv (p\<lparr>g_magnet := v\<rparr>)" "core_inv p \<Longrightarrow> core_inv (p\<lparr>g_moisture := v\<rparr>)"
  "core_inv p \<Longrightarrow> core_inv (p\<lparr>db := d\<rparr>)"
  "core_inv p \<Longrightarrow> core_inv (p\<lparr>sens := s, g_humi := v, g_temp := u\<rparr>)"
  by (simp_all add: core_inv_def queue_ok_def)

text \<open>
  A property of thread and state that measuring, deciding and logging keep is kept by every
  stage of the thread.
\<close>

locale thread_keeps =
  fixes sample :: "thread \<Rightarrow> bool \<times> thread"
    and decisions :: "(thread \<Rightarrow> thread result) list"
    and logs :: "(planter \<Rightarrow> planter result) list"
    and J :: "thread \<Rightarrow> bool"
  assumes sample_J: "J t \<Longrightarrow> J (snd (sample t))"
    and decide_J: "f \<in> set decisions \<Longrightarrow> f t = Inr t' \<Longrightarrow> J t \<Longrightarrow> J t'"
    and log_J: "g \<in> set logs \<Longrightarrow> g p = Inr q \<Longrightarrow> J (cmd, p) \<Longrightarrow> J (cmd, q)"
begin

lemma step_J:
  assumes "thread_step sample decisions logs st t = Inr (st', t')" and "J t"
  shows "J t'"
proof (cases st)
  case Measure
  then show ?thesis using assms sample_J [of t] by (auto simp: thread_step_def split: prod.splits)
next
  case (Decide n)
  then show ?thesis
    using assms decide_J [of "decisions ! n" t] by (auto simp: thread_step_def rbind_eq_Inr split: if_splits)
next
  case (Log n)
  then show ?thesis
    using assms log_J [of "logs ! n" "snd t" _ "fst t"]
    by (auto simp: thread_step_def rbind_eq_Inr split: if_splits)
qed

end

text \<open>
  What the transition system relies on in a sensor thread: measuring touches neither the
  queue nor the devices, every decision keeps the invariant and the buffer, logging writes
  to the database only.
\<close>

definition keeps :: "(thread \<Rightarrow> thread result) \<Rightarrow> bool" where
  "keeps f \<longleftrightarrow> (\<forall>t. length (fst t) = MQ_MSG_SIZE \<and> core_inv (snd t) \<longrightarrow>
     (\<exists>t'. f t = Inr t' \<and> length (fst t') = MQ_MSG_SIZE \<and> core_inv (snd t')))"

locale sensor_thread =
  fixes sample :: "thread \<Rightarrow> bool \<times> thread"
    and decisions :: "(thread \<Rightarrow> thread result) list"
    and logs :: "(planter \<Rightarrow> planter result) list"
  assumes measure_keeps: "core_inv (snd t) \<Longrightarrow> core_inv (snd (snd (sample t)))"
    and measure_buf: "fst (snd (sample t)) = fst t"
    and decide_keeps: "f \<in> set decisions \<Longrightarrow> keeps f"
    and log_only: "g \<in> set logs \<Longrightarrow> g p = Inr q \<Longrightarrow> \<exists>d. q = p\<lparr>db := d\<rparr>"

sublocale sensor_thread \<subseteq> thread_keeps sample decisions logs
  "\<lambda>t. length (fst t) = MQ_MSG_SIZE \<and> core_inv (snd t)"
proof unfold_locales
  show "length (fst (snd (sample t))) = MQ_MSG_SIZE \<and> core_inv (snd (snd (sample t)))"
    if "length (fst t) = MQ_MSG_SIZE \<and> core_inv (snd t)" for t
    using that measure_keeps measure_buf by simp
  show "length (fst t') = MQ_MSG_SIZE \<and> core_inv (snd t')"
    if "f \<in> set decisions" "f t = Inr t'" "length (fst t) = MQ_MSG_SIZE \<and> core_inv (snd t)" for f t t'
    using decide_keeps [OF that(1)] that(2,3) unfolding keeps_def by force
  show "length (fst (cmd, q)) = MQ_MSG_SIZE \<and> core_inv (snd (cmd, q))"
    if "g \<in> set logs" "g p = Inr q" "length (fst (cmd, p)) = MQ_MSG_SIZE \<and> core_inv (snd (cmd, p))" for g p q cmd
    using log_only [OF that(1,2)] that(3) by auto
qed

context sensor_thread begin

lemma step_keeps:
  assumes "length (fst t) = MQ_MSG_SIZE" and "core_inv (snd t)"
    and "thread_step sample decisions logs st t = Inr (st', t')"
  shows "length (fst t') = MQ_MSG_SIZE" "core_inv (snd t')"
  using step_J [OF assms(3)] assms(1,2) by simp_all

text \<open>The only fault of a step is one of the database: decisions never fail.\<close>

lemma decide_total:
  assumes "length (fst t) = MQ_MSG_SIZE" and "core_inv (snd t)"
  shows "\<exists>r. thread_step sample decisions logs (Decide n) t = Inr r"
proof (cases "n < length decisions")
  case True
  then have "keeps (decisions ! n)" by (simp add: decide_keeps)
  then show ?thesis using assms True unfolding keeps_def by (fastforce simp: thread_step_def)
qed (simp add: thread_step_def)

end

lemma keeps_sends:
  assumes "\<And>t. thread_ok t \<Longrightarrow> \<exists>cs. sends_of cs t (f t)"
  shows "keeps f"
  unfolding keeps_def
proof (intro allI impI)
  fix t :: thread assume t: "length (fst t) = MQ_MSG_SIZE \<and> core_inv (snd t)"
  then have "thread_ok t" by (simp add: thread_ok_def core_inv_def)
  then obtain cmd ms where "f t = Inr (cmd, (snd t)\<lparr>mq := ms\<rparr>)" "thread_ok (cmd, (snd t)\<lparr>mq := ms\<rparr>)"
    using assms unfolding sends_of_def by blast
  then show "\<exists>t'. f t = Inr t' \<and> length (fst t') = MQ_MSG_SIZE \<and> core_inv (snd t')"
    using t core_inv_mq by (auto simp: thread_ok_def)
qed

lemma decisions_keep:
  "keeps fan_auto" "keeps humidifier_auto" "keeps dryer_auto" "keeps cooler_auto" "keeps led_auto"
  "keeps valve_auto" "keeps drain_auto"
  by (rule keeps_sends, blast dest: auto_demands)+

lemma log_value_db: "log_value stale table v p = Inr q \<Longrightarrow> \<exists>d. q = p\<lparr>db := d\<rparr>"
  by (auto simp: log_value_def rbind_eq_Inr)

interpretation humitemp: sensor_thread "humitemp_measure char_signed delivered" humitemp_decisions
  "humitemp_logs stale"
  by unfold_locales
    (auto simp: humitemp_measure_def humitemp_decisions_def humitemp_logs_def Let_def decisions_keep
      dest: log_value_db split: prod.splits option.splits)

interpretation photo: sensor_thread "photo_measure v" "[led_auto]" "photo_logs stale"
  by unfold_locales (auto simp: photo_measure_def photo_logs_def Let_def decisions_keep
      dest: log_value_db split: prod.splits)

interpretation magnetic: sensor_thread "magnetic_measure get later" "[valve_auto]" "magnetic_logs stale"
  by unfold_locales (auto simp: magnetic_measure_def magnetic_logs_def decisions_keep dest: log_value_db)

interpretation moisture: sensor_thread "moisture_measure get" "[drain_auto]" "moisture_logs stale"
  by unfold_locales (auto simp: moisture_measure_def moisture_logs_def decisions_keep dest: log_value_db)

end
