(* ===== verification/Reachability.thy ===== *)
theory Reachability
  imports System
begin

text \<open>
  The invariant in every reachable state, whatever the interleaving: requests keep it, the
  start establishes it, and an uninterrupted thread does what the rounds of theory \<open>Control\<close>
  do.
\<close>

section \<open>Requests keep the invariant\<close>

lemma core_inv_records [simp]:
  "core_inv p \<Longrightarrow> core_inv (p\<lparr>titles := m\<rparr>)" "core_inv p \<Longrightarrow> core_inv (p\<lparr>disk := f\<rparr>)"
  "core_inv p \<Longrightarrow> core_inv (p\<lparr>shell := sh\<rparr>)" "core_inv p \<Longrightarrow> core_inv (p\<lparr>current_music := cm\<rparr>)"
  by (simp_all add: core_inv_def queue_ok_def)

lemma transfer_state_data_snap:
  "transfer_state_data ps c = Some (Inr (p, c')) \<Longrightarrow> p \<in> set ps"
proof (induction ps arbitrary: c)
  case (Cons u ps)
  obtain rc d where n: "network_send (state_text u) c = (rc, d)" by fastforce
  have "sprintf_buf (state_text u) = Inr b \<Longrightarrow> b = state_text u" for b
    by (simp add: sprintf_buf_def split: if_splits)
  then show ?case
    using Cons.prems n by (auto simp: ok_simps split: if_splits dest: Cons.IH)
qed simp

lemma transfer_sensor_data_snap:
  "transfer_sensor_data ps c = Some (Inr (p, c')) \<Longrightarrow> p \<in> set ps"
proof (induction ps arbitrary: c)
  case (Cons u ps)
  obtain rc d where n: "network_send (sensor_text u) c = (rc, d)" by fastforce
  have "sprintf_buf (sensor_text u) = Inr b \<Longrightarrow> b = sensor_text u" for b
    by (simp add: sprintf_buf_def split: if_splits)
  then show ?case
    using Cons.prems n by (auto simp: ok_simps split: if_splits dest: Cons.IH)
qed simp

lemma with_state_ok: "with_state p r = Some (Inr (q, c)) \<Longrightarrow> q = p"
  by (auto simp: with_state_def ok_simps)

lemma play_music_only:
  assumes "play_music p c = Some (Inr (q, c'))"
  obtains sh m where "q = p\<lparr>shell := sh, current_music := m\<rparr>" "no_nul m" "length m < NETWORK_BUFSIZE"
proof -
  obtain name c2 where n: "recv_str c = Inr (name, c2)"
    using assms by (cases "recv_str c") (auto simp: play_music_def vbind_def)
  then have name: "no_nul name" "length name < NETWORK_BUFSIZE"
    using recv_str_string(1,2) [OF n] by (auto simp: NETWORK_BUFSIZE_def)
  show ?thesis
  proof (cases "current_music p = name")
    case True
    then show ?thesis using assms n that [where sh = "shell q" and m = "[]"]
      by (auto simp: play_music_def ok_simps Let_def no_nul_def NETWORK_BUFSIZE_def)
  next
    case False
    then show ?thesis using assms n name that [where sh = "shell q" and m = name]
      by (auto simp: play_music_def ok_simps Let_def)
  qed
qed

text \<open>
  A property of the global state that the single effects of the requests keep is kept by
  every request.
\<close>

locale request_invariant =
  fixes J :: "planter \<Rightarrow> bool"
  assumes keep_records: "J p \<Longrightarrow> J (p\<lparr>titles := m\<rparr>)" "J p \<Longrightarrow> J (p\<lparr>disk := f\<rparr>)" "J p \<Longrightarrow> J (p\<lparr>shell := sh\<rparr>)"
    and keep_db: "J p \<Longrightarrow> database_data_socket_transfer stale sensor (db p) = Inr (texts, d) \<Longrightarrow> J (p\<lparr>db := d\<rparr>)"
    and keep_music: "J p \<Longrightarrow> no_nul name \<Longrightarrow> length name < NETWORK_BUFSIZE \<Longrightarrow> J (p\<lparr>current_music := name\<rparr>)"
    and keep_mode: "J p \<Longrightarrow> J (p\<lparr>g_mode := xor (g_mode p) 1\<rparr>)"
    and keep_handler: "J p \<Longrightarrow> J (message_queue_handler k p)"
    and keep_boundary: "J p \<Longrightarrow> length cmd = MQ_MSG_SIZE \<Longrightarrow>
      receive_boundary_data cmd p c = Some (Inr (q, c')) \<Longrightarrow> J q"
begin

lemma state_change_J: "state_change p c = Some (Inr (q, c')) \<Longrightarrow> J p \<Longrightarrow> J q"
  by (auto simp: state_change_def ok_simps keep_handler split: if_splits)

lemma mode_toggle_J: "mode_toggle p c = Some (Inr (q, c')) \<Longrightarrow> J p \<Longrightarrow> J q"
  by (auto simp: mode_toggle_def ok_simps Let_def intro: keep_mode)

lemma play_music_J: "play_music p c = Some (Inr (q, c')) \<Longrightarrow> J p \<Longrightarrow> J q"
  by (elim play_music_only) (simp add: keep_music keep_records(3))

lemma delete_file_J: "delete_file stale p c = Some (Inr (q, c')) \<Longrightarrow> J p \<Longrightarrow> J q"
  by (auto simp: delete_file_def ok_simps keep_records split: if_splits)

lemma receive_file_J: "receive_file stale env op p c = Some (Inr (q, c')) \<Longrightarrow> J p \<Longrightarrow> J q"
  by (auto simp: receive_file_def ok_simps Let_def case_prod_beta keep_records split: if_splits)

lemma transfer_database_J: "transfer_database_data stale p c = Some (Inr (q, c')) \<Longrightarrow> J p \<Longrightarrow> J q"
  by (auto simp: transfer_database_data_def ok_simps keep_db)

lemma socket_handler_J:
  assumes "socket_handler env p c = Some (Inr (q, c'))" and "J p"
    and "length (cmd0 env) = MQ_MSG_SIZE" and "set (snaps env) \<subseteq> {p}"
  shows "J q"
proof -
  obtain buf c1 where r: "recv_str c = Inr (buf, c1)"
    using assms(1) by (auto simp: socket_handler_def ok_simps)
  have snaps: "J u" if "u \<in> set (snaps env)" for u
    using that assms(2,4) by auto
  show ?thesis
    using assms(1-3) r snaps
    by (auto simp: socket_handler_def Let_def vbind_eq_ok lift_r_ok vok_ok
        dest: with_state_ok transfer_state_data_snap transfer_sensor_data_snap
        intro: state_change_J mode_toggle_J play_music_J delete_file_J receive_file_J
          transfer_database_J keep_boundary
        split: if_splits)
qed

end

lemma receive_boundary_keeps:
  assumes "receive_boundary_data cmd p c = Some (Inr (q, c'))" and "queue_ok p"
    and "length cmd = MQ_MSG_SIZE"
  obtains buf ms where "q = (new_boundaries buf p)\<lparr>mq := ms\<rparr>" "queue_ok q"
proof -
  obtain buf c1 where r: "recv_str c = Inr (buf, c1)"
    using assms(1) by (auto simp: receive_boundary_data_def ok_simps)
  obtain ms where "q = (new_boundaries buf p)\<lparr>mq := ms\<rparr>" "queue_ok q"
    using receive_boundary_data_spec [OF r assms(3,2)] assms(1)
    by (metis Pair_inject vok_def option.inject sum.inject(2))
  then show ?thesis by (rule that)
qed

lemma xor_mode: "v = 0 \<or> v = 1 \<Longrightarrow> xor v 1 = 0 \<or> xor v 1 = (1 :: int)"
  by auto

lemma core_inv_mode: "core_inv p \<Longrightarrow> core_inv (p\<lparr>g_mode := xor (g_mode p) 1\<rparr>)"
  using xor_mode [of "g_mode p"] by (auto simp: core_inv_def queue_ok_def)

interpretation core_inv: request_invariant core_inv
proof unfold_locales
  show "core_inv q" if "core_inv p" "length cmd = MQ_MSG_SIZE"
    "receive_boundary_data cmd p c = Some (Inr (q, c'))" for p cmd c q c'
    using that(3) _ that(2) by (rule receive_boundary_keeps) (use that(1) in \<open>auto simp: core_inv_def\<close>)
qed (simp_all add: core_inv_mode)

section \<open>Every reachable state\<close>

definition sys_inv :: "system \<Rightarrow> bool" where
  "sys_inv s \<longleftrightarrow> core_inv (core s) \<and> length (cmd_h s) = MQ_MSG_SIZE \<and>
     length (cmd_p s) = MQ_MSG_SIZE \<and> length (cmd_g s) = MQ_MSG_SIZE \<and> length (cmd_m s) = MQ_MSG_SIZE"

inductive_cases sys_stepE: "sys_step s s'"

lemma sys_inv_step:
  assumes "sys_inv s" and "sys_step s s'"
  shows "sys_inv s'"
  using assms(2)
proof (cases rule: sys_stepE [consumes 1, case_names humitemp photo magnetic moisture main request])
  case (humitemp char_signed delivered stale st cmd p)
  then show ?thesis
    using humitemp.step_keeps [OF _ _ humitemp(2)] assms(1) by (simp add: sys_inv_def)
next
  case (photo wr rd temp stale st cmd p)
  then show ?thesis
    using photo.step_keeps [OF _ _ photo(2)] assms(1) by (simp add: sys_inv_def)
next
  case (magnetic get later stale st cmd p)
  then show ?thesis
    using magnetic.step_keeps [OF _ _ magnetic(2)] assms(1) by (simp add: sys_inv_def)
next
  case (moisture get stale st cmd p)
  then show ?thesis
    using moisture.step_keeps [OF _ _ moisture(2)] assms(1) by (simp add: sys_inv_def)
next
  case (main accept_rc started p)
  then show ?thesis
    using core_inv_poll [of "core s" p] assms(1)
    by (auto simp: sys_inv_def main_loop_def rbind_eq_Inr)
next
  case (request env c p c')
  then show ?thesis
    using core_inv.socket_handler_J [OF request(2)] assms(1) by (auto simp: sys_inv_def)
qed

interpretation planter_system: transition_system sys_step sys_inv
  by unfold_locales (rule sys_inv_step)

section \<open>The start\<close>

definition sys_start :: "planter \<Rightarrow> system" where
  "sys_start p =
     \<lparr>core = p, stage_h = Measure, cmd_h = replicate MQ_MSG_SIZE nul,
      stage_p = Measure, cmd_p = replicate MQ_MSG_SIZE nul,
      stage_g = Measure, cmd_g = replicate MQ_MSG_SIZE nul,
      stage_m = Measure, cmd_m = replicate MQ_MSG_SIZE nul\<rparr>"

lemma sys_inv_start: "core_inv p \<Longrightarrow> sys_inv (sys_start p)"
  by (simp add: sys_inv_def sys_start_def)

lemma devices_init_dev: "dev (devices_init rc p) = actuators_init (dev p)"
  by (simp add: devices_init_def actuators_init_def Let_def)

lemma devices_init_keeps [simp]:
  "titles (devices_init rc p) = titles p" "db (devices_init rc p) = db p"
  "g_mode (devices_init rc p) = g_mode p"
  by (simp_all add: devices_init_def Let_def)

lemma init_fields [simp]:
  "titles (states_init p) = titles p" "db (states_init p) = db p" "g_mode (states_init p) = g_mode p"
  "dev (states_init p) = dev p"
  "titles (boundary_init p) = titles p" "db (boundary_init p) = db p" "g_mode (boundary_init p) = g_mode p"
  "dev (boundary_init p) = dev p" "states_valid (boundary_init p) = states_valid p"
  "g_state_led (boundary_init p) = g_state_led p" "g_state_fan (boundary_init p) = g_state_fan p"
  "g_state_solenoid (boundary_init p) = g_state_solenoid p" "g_state_drain (boundary_init p) = g_state_drain p"
  "g_state_humidifier (boundary_init p) = g_state_humidifier p" "g_state_dryer (boundary_init p) = g_state_dryer p"
  by (simp_all add: states_init_def boundary_init_def boundary_update_def states_valid_def)

text \<open>
  When the four devices can be opened, the state variables agree with the devices as \<open>main\<close>
  enters its loop.
\<close>

lemma init_agrees:
  assumes "dev p = world0 openf cfg" and "opens openf"
  shows "agrees (boundary_init (states_init (devices_init rc p)))"
proof -
  let ?p = "states_init (devices_init rc p)"
  have d: "dev ?p = actuators_init (world0 openf cfg)" using assms(1) by (simp add: devices_init_dev)
  have "agrees ?p"
    using actuators_init_panel [OF assms(2), of cfg] states_valid_init [of "devices_init rc p"]
    unfolding agrees_def d by (simp add: states_init_def cmd_defs)
  then show ?thesis using agrees_cong [of "boundary_init ?p" ?p] by simp
qed

definition leftover_ok :: "char list list \<Rightarrow> bool" where
  "leftover_ok ms \<longleftrightarrow> length ms \<le> MQ_MAX_MSG \<and> (\<forall>m \<in> set ms. valid_cmd (msg_value m) \<and> msg_for (msg_value m) m)"

lemma main_init_inv:
  assumes "dev p = world0 openf cfg" and "opens openf" and "g_mode p = 0" and "mq_rc \<noteq> -1"
    and "leftover_ok left"
    and "main_init stale rc env dir db_ok mq_rc left p = Some (Inr q)"
  shows "core_inv q" "agrees q" "boundaries_ok q" "queued q = map msg_value left"
proof -
  let ?p = "boundary_init (states_init (devices_init rc p))"
  obtain m d where q: "q = message_queue_init mq_rc left (?p\<lparr>titles := m, db := d\<rparr>)"
    using assms(6) by (auto simp: main_init_def Let_def rbind_eq_Inr split: option.splits sum.splits)
  have a: "agrees ?p" using init_agrees [OF assms(1,2)] .
  show "agrees q"
    using agrees_cong [of q ?p] a by (simp add: q message_queue_init_def)
  moreover have "states_valid q" using \<open>agrees q\<close> by (simp add: agrees_def)
  ultimately show "core_inv q"
    using assms(3-5) by (simp add: core_inv_def q message_queue_init_def queue_ok_def leftover_ok_def)
  show "boundaries_ok q"
    using boundary_init_ok [of "states_init (devices_init rc p)"]
    by (simp add: q message_queue_init_def boundaries_ok_def)
  show "queued q = map msg_value left"
    using assms(4) by (simp add: q message_queue_init_def queued_def)
qed

section \<open>A thread left alone\<close>

lemma thread_run_Suc:
  "thread_run m ds ls (Suc n) st t =
     (case thread_step m ds ls st t of Inl e \<Rightarrow> Some (Inl e)
      | Inr (st', t') \<Rightarrow> if st' = Measure then Some (Inr t') else thread_run m ds ls n st' t')"
  by (simp split: sum.split prod.split stage.split)

lemma thread_run_log:
  "thread_run m ds [g] (Suc (Suc n)) (Log 0) (cmd, p) = Some (rbind (g p) (\<lambda>p. Inr (cmd, p)))"
  "thread_run m ds [g, h] (Suc (Suc (Suc n))) (Log 0) (cmd, p) =
     Some (rbind (g p) (\<lambda>p. rbind (h p) (\<lambda>p. Inr (cmd, p))))"
  by (auto simp: thread_run_Suc thread_step_def simp del: thread_run.simps split: sum.split)
    (auto simp: rbind_def split: sum.splits)

end
