(* ===== verification/Lifecycle.thy ===== *)
theory Lifecycle
  imports Reachability
begin

text \<open>
  Whole runs: a sensor thread without interruption is the round of \<open>Control\<close>; a run without
  client requests; the shutdown on SIGINT.
\<close>

section \<open>Rounds\<close>

definition humitemp_thread ::
    "bool \<Rightarrow> bool \<Rightarrow> int \<times> u8 list \<Rightarrow> nat \<Rightarrow> stage \<Rightarrow> thread \<Rightarrow> thread result option" where
  "humitemp_thread char_signed stale delivered =
     thread_run (humitemp_measure char_signed delivered) humitemp_decisions (humitemp_logs stale)"

lemma rbind_case: "rbind r f = (case r of Inl e \<Rightarrow> Inl e | Inr x \<Rightarrow> f x)"
  by (simp add: rbind_def)

lemma thread_run_decide:
  "thread_run m [f1, f2, f3, f4] [g, h] (Suc (Suc (Suc (Suc (Suc (Suc (Suc (Suc n)))))))) (Decide 0) t =
     Some (rbind (f1 t) (\<lambda>t. rbind (f2 t) (\<lambda>t. rbind (f3 t) (\<lambda>t. rbind (f4 t)
       (\<lambda>(cmd, p). rbind (g p) (\<lambda>p. rbind (h p) (\<lambda>p. Inr (cmd, p))))))))"
  by (auto simp: thread_run_Suc thread_step_def thread_run_log rbind_case simp del: thread_run.simps
      split: sum.splits)

lemma humitemp_thread_round:
  "humitemp_thread char_signed stale delivered (9 + n) Measure t =
   Some (humitemp_handler char_signed stale delivered t)"
proof -
  obtain cmd p where t: "t = (cmd, p)" by (cases t)
  obtain rc s where r: "humitemp_read char_signed delivered (sens p) = (rc, s)" by fastforce
  have nine: "9 + n = Suc (Suc (Suc (Suc (Suc (Suc (Suc (Suc (Suc n))))))))" by simp
  show ?thesis
  proof (cases rc)
    case None
    then show ?thesis
      by (simp add: humitemp_thread_def nine thread_run_Suc thread_step_def humitemp_measure_def
          humitemp_handler_def r t del: thread_run.simps)
  next
    case (Some ht)
    obtain h u where ht: "ht = (h, u)" by (cases ht)
    let ?p = "p\<lparr>sens := s, g_humi := h, g_temp := u\<rparr>"
    have m: "humitemp_measure char_signed delivered t = (True, cmd, ?p)"
      by (simp add: humitemp_measure_def t r Some ht)
    show ?thesis
    proof (cases "g_mode p = MODE_AUTO")
      case True
      have "humitemp_thread char_signed stale delivered (9 + n) Measure t =
          thread_run (humitemp_measure char_signed delivered) humitemp_decisions (humitemp_logs stale)
            (Suc (Suc (Suc (Suc (Suc (Suc (Suc (Suc n)))))))) (Decide 0) (cmd, ?p)"
        using True unfolding humitemp_thread_def nine by (subst thread_run_Suc) (simp add: thread_step_def m)
      also have "\<dots> = Some (rbind (humitemp_control (cmd, ?p)) (\<lambda>(cmd, p).
          rbind (log_value stale DATABASE_HUMI (g_humi p) p) (\<lambda>p.
          rbind (log_value stale DATABASE_TEMP (g_temp p) p) (\<lambda>p. Inr (cmd, p)))))"
        unfolding humitemp_decisions_def humitemp_logs_def thread_run_decide humitemp_control_def
        by (simp add: rbind_assoc)
      finally show ?thesis
        using True by (simp add: humitemp_handler_def t r Some ht)
    next
      case False
      have "humitemp_thread char_signed stale delivered (9 + n) Measure t =
          thread_run (humitemp_measure char_signed delivered) humitemp_decisions (humitemp_logs stale)
            (Suc (Suc (Suc (Suc (Suc (Suc (Suc (Suc n)))))))) (Log 0) (cmd, ?p)"
        using False unfolding humitemp_thread_def nine by (subst thread_run_Suc) (simp add: thread_step_def m)
      then show ?thesis
        using False
        by (simp add: humitemp_logs_def thread_run_log humitemp_handler_def t r Some ht del: thread_run.simps)
    qed
  qed
qed

text \<open>
  A round from the \<open>read\<close> of the sensor on. The driver runs at time \<open>now\<close> on the line \<open>wire\<close>; when
  it does not return, neither does the round. With a closed descriptor \<open>read\<close> fails at once.
\<close>

definition humitemp_round :: "bool \<Rightarrow> bool \<Rightarrow> signal \<Rightarrow> nat \<Rightarrow> bool \<Rightarrow> thread \<Rightarrow> thread result option" where
  "humitemp_round char_signed stale wire now copy_fails t =
     (let s = sens (snd t) in
      if s_files s (fd_humitemp s) = Some HUMITEMP_DEV_PATH then
        (case DHT11_read wire 5 copy_fails now of None \<Rightarrow> None
         | Some (Inl e) \<Rightarrow> Some (Inl e)
         | Some (Inr (rc, bytes, calls)) \<Rightarrow> humitemp_thread char_signed stale (rc, bytes) 9 Measure t)
      else humitemp_thread char_signed stale (-1, []) 9 Measure t)"

lemma humitemp_read_small:
  assumes "s_files s (fd_humitemp s) = Some HUMITEMP_DEV_PATH" and "length ws = 5"
    and "uint (ws ! 0) < 128" and "uint (ws ! 2) < 128"
  shows "humitemp_read char_signed (5, ws) s =
    (Some (uint (ws ! 0), uint (ws ! 2)), s\<lparr>humitemp_buf := ws @ drop (length ws) (humitemp_buf s)\<rparr>)"
proof -
  have c: "char_value char_signed b = uint b" if "uint b < 128" for b
  proof -
    have "- (2 ^ 7) \<le> uint b" by (rule order_trans [OF _ uint_ge_0]) simp
    then have "signed_take_bit 7 (uint b) = uint b" by (rule signed_take_bit_int_eq_self) (simp add: that)
    then show ?thesis by (simp add: char_value_def sint_uint)
  qed
  have ge: "uint b \<noteq> -1" for b :: u8 using uint_ge_0 [of b] by linarith
  have n: "(ws @ zs) ! 0 = ws ! 0" "(ws @ zs) ! 2 = ws ! 2" for zs using assms(2) by (simp_all add: nth_append)
  show ?thesis using assms(1) c [OF assms(3)] c [OF assms(4)] ge by (simp add: humitemp_read_def Let_def n)
qed

lemma humitemp_round_reply:
  assumes "reply wire now up low high fs" and "map (map fst) fs = map byte_bits ws" and "length ws = 5"
    and "DHT11_checksum ws = uint (ws ! 4)"
    and "s_files (sens p) (fd_humitemp (sens p)) = Some HUMITEMP_DEV_PATH"
  shows "humitemp_round char_signed stale wire now False (cmd, p) =
    Some (humitemp_handler char_signed stale (5, ws) (cmd, p))"
  using DHT11_read_reply [OF assms(1-3), of 5 False] assms(3-5)
    humitemp_thread_round [of char_signed stale "(5, ws)" 0 "(cmd, p)"]
  by (simp add: humitemp_round_def)

section \<open>A run without requests\<close>

inductive quiet_step :: "system \<Rightarrow> system \<Rightarrow> bool" where
  humitemp: "thread_step (humitemp_measure char_signed delivered) humitemp_decisions
      (humitemp_logs stale) (stage_h s) (cmd_h s, core s) = Inr (st, cmd, p) \<Longrightarrow>
    quiet_step s (s\<lparr>core := p, stage_h := st, cmd_h := cmd\<rparr>)"
| photo: "thread_step (photo_measure (fst (photo_get_intensity wr rd temp))) [led_auto] (photo_logs stale)
      (stage_p s) (cmd_p s, core s) = Inr (st, cmd, p) \<Longrightarrow>
    quiet_step s (s\<lparr>core := p, stage_p := st, cmd_p := cmd\<rparr>)"
| magnetic: "thread_step (magnetic_measure get later) [valve_auto] (magnetic_logs stale)
      (stage_g s) (cmd_g s, core s) = Inr (st, cmd, p) \<Longrightarrow>
    quiet_step s (s\<lparr>core := p, stage_g := st, cmd_g := cmd\<rparr>)"
| moisture: "thread_step (moisture_measure get) [drain_auto] (moisture_logs stale)
      (stage_m s) (cmd_m s, core s) = Inr (st, cmd, p) \<Longrightarrow>
    quiet_step s (s\<lparr>core := p, stage_m := st, cmd_m := cmd\<rparr>)"
| main: "main_loop accept_rc (core s) = Inr (started, p) \<Longrightarrow> quiet_step s (s\<lparr>core := p\<rparr>)"

lemma quiet_step_sys: "quiet_step s s' \<Longrightarrow> sys_step s s'"
  by (induction rule: quiet_step.induct) (blast intro: sys_step.intros)+

text \<open>
  The drain: \<open>states_init\<close> says open, the only automatic drain command is sent when the state
  is closed, so none is ever sent.
\<close>

definition drain_idle :: "planter \<Rightarrow> bool" where
  "drain_idle p \<longleftrightarrow> g_state_drain p = 5 \<and> (\<forall>c \<in> set (queued p). c \<noteq> 5 \<and> c \<noteq> 6) \<and>
     (presses (hw (dev p)) \<le> 2147483647 \<longrightarrow>
        drain_pwm (panel_of (dev p)) = Some (MG995_PWM_DEGREE_0, MG995_PWM_PERIOD))"

definition drain_inv :: "planter \<Rightarrow> bool" where
  "drain_inv p \<longleftrightarrow> core_inv p \<and> drain_idle p"

definition keeps_drain :: "(thread \<Rightarrow> thread result) \<Rightarrow> bool" where
  "keeps_drain f \<longleftrightarrow> (\<forall>t t'. length (fst t) = MQ_MSG_SIZE \<longrightarrow> drain_inv (snd t) \<longrightarrow>
     f t = Inr t' \<longrightarrow> drain_idle (snd t'))"

lemma keeps_drain_sends:
  assumes "\<And>t. thread_ok t \<Longrightarrow> drain_idle (snd t) \<Longrightarrow>
    \<exists>cs. sends_of cs t (f t) \<and> (\<forall>c \<in> set cs. c \<noteq> 5 \<and> c \<noteq> 6)"
  shows "keeps_drain f"
  unfolding keeps_drain_def
proof (intro allI impI)
  fix t t' assume t: "length (fst t) = MQ_MSG_SIZE" "drain_inv (snd t)" "f t = Inr t'"
  then have "thread_ok t" "drain_idle (snd t)" by (simp_all add: thread_ok_def drain_inv_def core_inv_def)
  then obtain cs where cs: "sends_of cs t (f t)" "\<forall>c \<in> set cs. c \<noteq> 5 \<and> c \<noteq> 6" using assms by blast
  then obtain cmd ms where "t' = (cmd, (snd t)\<lparr>mq := ms\<rparr>)"
    "queued ((snd t)\<lparr>mq := ms\<rparr>) = take MQ_MAX_MSG (queued (snd t) @ cs)"
    using t(3) by (auto simp: sends_of_def)
  then show "drain_idle (snd t')"
    using \<open>drain_idle (snd t)\<close> cs(2)
    by (auto simp: drain_idle_def dest!: in_set_takeD)
qed

lemma decisions_keep_drain:
  "keeps_drain fan_auto" "keeps_drain humidifier_auto" "keeps_drain dryer_auto"
  "keeps_drain cooler_auto" "keeps_drain led_auto" "keeps_drain valve_auto" "keeps_drain drain_auto"
proof -
  note d = auto_demands
  show "keeps_drain fan_auto" by (rule keeps_drain_sends, rule exI, rule conjI, erule d) (auto simp: demand_defs)
  show "keeps_drain humidifier_auto" by (rule keeps_drain_sends, rule exI, rule conjI, erule d) (auto simp: demand_defs)
  show "keeps_drain dryer_auto" by (rule keeps_drain_sends, rule exI, rule conjI, erule d) (auto simp: demand_defs)
  show "keeps_drain cooler_auto" by (rule keeps_drain_sends, rule exI, rule conjI, erule d) (auto simp: demand_defs)
  show "keeps_drain led_auto" by (rule keeps_drain_sends, rule exI, rule conjI, erule d) (auto simp: demand_defs)
  show "keeps_drain valve_auto" by (rule keeps_drain_sends, rule exI, rule conjI, erule d) (auto simp: demand_defs)
  show "keeps_drain drain_auto"
    by (rule keeps_drain_sends, rule exI, rule conjI, erule d) (auto simp: demand_defs drain_idle_def)
qed

locale drain_idle_thread = sensor_thread +
  assumes decide_drain: "f \<in> set decisions \<Longrightarrow> keeps_drain f"
    and sample_drain: "drain_idle (snd t) \<Longrightarrow> drain_idle (snd (snd (sample t)))"
begin

lemma step_drain:
  assumes "length (fst t) = MQ_MSG_SIZE" and "drain_inv (snd t)"
    and "thread_step sample decisions logs st t = Inr (st', t')"
  shows "drain_inv (snd t')"
proof -
  have inv: "core_inv (snd t)" "drain_idle (snd t)" using assms(2) by (simp_all add: drain_inv_def)
  have "drain_idle (snd t')"
  proof (cases st)
    case Measure
    then show ?thesis
      using assms(3) sample_drain [OF inv(2)] by (auto simp: thread_step_def split: prod.splits)
  next
    case (Decide n)
    show ?thesis
    proof (cases "n < length decisions")
      case True
      then have "keeps_drain (decisions ! n)" by (simp add: decide_drain)
      moreover have "(decisions ! n) t = Inr t'"
        using assms(3) Decide True by (auto simp: thread_step_def rbind_eq_Inr)
      ultimately show ?thesis using assms(1,2) unfolding keeps_drain_def by blast
    qed (use assms inv Decide in \<open>simp add: thread_step_def\<close>)
  next
    case (Log n)
    show ?thesis
    proof (cases "n < length logs")
      case True
      then obtain p where "(logs ! n) (snd t) = Inr p" "t' = (fst t, p)"
        using assms(3) Log by (auto simp: thread_step_def rbind_eq_Inr)
      then show ?thesis
        using log_only [of "logs ! n" "snd t" p] True inv(2) by (auto simp: drain_idle_def queued_def)
    qed (use assms inv Log in \<open>simp add: thread_step_def\<close>)
  qed
  then show ?thesis using step_keeps(2) [OF assms(1) inv(1) assms(3)] by (simp add: drain_inv_def)
qed

end

lemma drain_idle_upd [simp]:
  "drain_idle (p\<lparr>sens := s\<rparr>) = drain_idle p" "drain_idle (p\<lparr>g_photo := v\<rparr>) = drain_idle p"
  "drain_idle (p\<lparr>g_magnet := v\<rparr>) = drain_idle p" "drain_idle (p\<lparr>g_moisture := v\<rparr>) = drain_idle p"
  "drain_idle (p\<lparr>sens := s, g_humi := v, g_temp := u\<rparr>) = drain_idle p"
  by (simp_all add: drain_idle_def queued_def)

interpretation humitemp_drain: drain_idle_thread "humitemp_measure char_signed delivered"
  humitemp_decisions "humitemp_logs stale"
  by unfold_locales
    (auto simp: humitemp_measure_def humitemp_decisions_def Let_def decisions_keep_drain
      split: prod.splits option.splits)

interpretation photo_drain: drain_idle_thread "photo_measure v" "[led_auto]" "photo_logs stale"
  by unfold_locales (auto simp: photo_measure_def Let_def decisions_keep_drain split: prod.splits)

interpretation magnetic_drain: drain_idle_thread "magnetic_measure get later" "[valve_auto]"
  "magnetic_logs stale"
  by unfold_locales (auto simp: magnetic_measure_def decisions_keep_drain)

interpretation moisture_drain: drain_idle_thread "moisture_measure get" "[drain_auto]" "moisture_logs stale"
  by unfold_locales (auto simp: moisture_measure_def decisions_keep_drain)

lemma drain_inv_poll:
  assumes "drain_inv p" and "mq_poll p = Inr q"
  shows "drain_inv q"
proof (cases "queued p")
  case Nil
  then show ?thesis using assms mq_poll_Nil [OF Nil] by simp
next
  case (Cons c cs)
  have inv: "core_inv p" "drain_idle p" using assms(1) by (simp_all add: drain_inv_def)
  let ?p = "p\<lparr>mq := tl (mq p)\<rparr>"
  have q: "q = message_queue_handler c ?p"
    using mq_poll_Cons [OF _ Cons] inv(1) assms(2) by (simp add: core_inv_def)
  have c: "c \<noteq> 5" "c \<noteq> 6" "queued ?p = cs"
    using inv(2) Cons by (auto simp: drain_idle_def queued_def)
  have pwm: "drain_pwm (panel_of (dev q)) = drain_pwm (panel_of (dev p))"
    if "presses (hw (dev p)) \<le> 2147483647"
  proof -
    have "ready (dev ?p)" using that inv(1) by (simp add: core_inv_def agrees_def)
    then show ?thesis using that c handler_panel(2) [of ?p c] by (simp add: q panel_cmd_def)
  qed
  have "presses (hw (dev p)) \<le> presses (hw (dev q))"
    using handler_presses_mono [of ?p c] by (simp add: q)
  then have few: "presses (hw (dev p)) \<le> 2147483647" if "presses (hw (dev q)) \<le> 2147483647"
    using that by simp
  have "g_state_drain q = g_state_drain p" "queued q = cs"
    using c by (simp_all add: q)
  then have "drain_idle q"
    using inv(2) Cons pwm few by (simp add: drain_idle_def)
  then show ?thesis using core_inv_poll [OF inv(1) assms(2)] by (simp add: drain_inv_def)
qed

definition quiet_inv :: "system \<Rightarrow> bool" where
  "quiet_inv s \<longleftrightarrow> sys_inv s \<and> drain_idle (core s)"

lemma quiet_inv_step:
  assumes "quiet_inv s" and "quiet_step s s'"
  shows "quiet_inv s'"
proof -
  have i: "sys_inv s" "drain_inv (core s)"
    using assms(1) by (simp_all add: quiet_inv_def sys_inv_def drain_inv_def)
  have "drain_inv (core s')"
    using assms(2)
  proof cases
    case (humitemp char_signed delivered stale st cmd p)
    then show ?thesis using humitemp_drain.step_drain [OF _ _ humitemp(2)] i by (simp add: sys_inv_def)
  next
    case (photo wr rd temp stale st cmd p)
    then show ?thesis using photo_drain.step_drain [OF _ _ photo(2)] i by (simp add: sys_inv_def)
  next
    case (magnetic get later stale st cmd p)
    then show ?thesis using magnetic_drain.step_drain [OF _ _ magnetic(2)] i by (simp add: sys_inv_def)
  next
    case (moisture get stale st cmd p)
    then show ?thesis using moisture_drain.step_drain [OF _ _ moisture(2)] i by (simp add: sys_inv_def)
  next
    case (main accept_rc started p)
    then show ?thesis using drain_inv_poll i(2) by (auto simp: main_loop_def rbind_eq_Inr)
  qed
  then show ?thesis
    using sys_inv_step [OF i(1) quiet_step_sys [OF assms(2)]] by (simp add: quiet_inv_def drain_inv_def)
qed

interpretation quiet_system: transition_system quiet_step quiet_inv
  by unfold_locales (rule quiet_inv_step)

section \<open>Shutdown\<close>

text \<open>
  What \<open>devices_deinit\<close> leaves: the relays are opened first and their file closed, so that the
  later call of \<open>relay_disconnect\<close> in \<open>fan_deinit\<close> goes to a closed descriptor.
\<close>

lemma humidifier_deinit_log:
  assumes "files v (fd_humidifier v) = Some HUMIDIFIER_PATH" and "cnt v smod 3 = int (presses (hw v) mod 3)"
  shows "\<exists>cs. hw (humidifier_deinit v) = hw v @ cs \<and>
    (\<forall>p v. p \<noteq> GPG 15 \<longrightarrow> foldl (level_step p) v cs = v) \<and> (\<forall>ch v. foldl (pwm_step ch) v cs = v) \<and>
    (presses (hw v) + presses cs) mod 3 = 0"
proof -
  note d = humidifier_deinit_def humidifier_off_def humidifier_push_2_def usleep_def sys_close_def
    assms humidifier_push_log
  consider "presses (hw v) mod 3 = 0" | "presses (hw v) mod 3 = 1" | "presses (hw v) mod 3 = 2"
    by linarith
  then show ?thesis
  proof cases
    case 1
    then show ?thesis by (simp add: d)
  next
    case 2
    then have "Suc (Suc (presses (hw v))) mod 3 = 0" by presburger
    with 2 show ?thesis by (simp add: d)
  next
    case 3
    then have "Suc (presses (hw v)) mod 3 = 0" by presburger
    with 3 show ?thesis by (simp add: d)
  qed
qed

lemma shutdown_panel:
  assumes "ready (dev p)" and "presses (hw (dev p)) \<le> 2147483647"
  shows "panel_of (dev (devices_deinit p)) =
    \<lparr>led_lit = False, valve_open = False, fan_powered = False, dryer_powered = False,
     fan_pwm = None, drain_pwm = None, mist = 0\<rparr>"
proof -
  let ?w = "dev p"
  have fds: "fd_relay ?w \<noteq> fd_fan ?w" "fd_relay ?w \<noteq> fd_servo ?w" "fd_relay ?w \<noteq> fd_humidifier ?w"
    "fd_fan ?w \<noteq> fd_servo ?w" "fd_fan ?w \<noteq> fd_humidifier ?w" "fd_servo ?w \<noteq> fd_humidifier ?w"
    using assms(1) paths_distinct by (auto simp: ready_def)
  note r = assms(1) [unfolded ready_def]
  have c: "cnt ?w smod 3 = int (presses (hw ?w) mod 3)" by (rule cnt_mode [OF assms])
  have c2: "cnt ?w = int (presses (hw ?w))" using assms by (simp add: ready_def in_i32_def)
  define w1 where "w1 = fan_deinit (servo_deinit (relay_deinit ?w))"
  have w1: "files w1 (fd_humidifier w1) = Some HUMIDIFIER_PATH" "cnt w1 = cnt ?w"
    "presses (hw w1) = presses (hw ?w)"
    "\<forall>ch \<in> {1,2,3,4}. \<not> relay_closed ch w1" "pwm_setting 3 (hw w1) = None" "pwm_setting 2 (hw w1) = None"
    using r fds fds [symmetric] paths_distinct paths_distinct [symmetric]
    by (simp_all add: w1_def relay_deinit_def servo_deinit_def fan_deinit_def sys_close_def Let_def
      servo_set_def usleep_def sys_ioctl_def relay_disconnect_def
      panel_simps)
  have off: "\<exists>cs. hw (humidifier_deinit w1) = hw w1 @ cs \<and>
      (\<forall>p v. p \<noteq> GPG 15 \<longrightarrow> foldl (level_step p) v cs = v) \<and> (\<forall>ch v. foldl (pwm_step ch) v cs = v) \<and>
      (presses (hw w1) + presses cs) mod 3 = 0"
    using humidifier_deinit_log [OF w1(1)] w1(2,3) c by simp
  have "dev (devices_deinit p) = humidifier_deinit w1"
    by (simp add: devices_deinit_def w1_def Let_def)
  then show ?thesis
    using off w1 by (auto simp: panel_simps)
qed

text \<open>At the start the drain has been turned to 0 and no drain command is queued.\<close>

lemma main_init_drain:
  assumes "dev p = world0 openf cfg" and "opens openf" and "mq_rc \<noteq> -1"
    and "main_init stale rc env dir db_ok mq_rc [] p = Some (Inr q)"
  shows "drain_idle q"
proof -
  let ?p = "boundary_init (states_init (devices_init rc p))"
  obtain m d where q: "q = message_queue_init mq_rc [] (?p\<lparr>titles := m, db := d\<rparr>)"
    using assms(4) by (auto simp: main_init_def Let_def rbind_eq_Inr split: option.splits sum.splits)
  have "dev q = actuators_init (world0 openf cfg)"
    using assms(1) by (simp add: q message_queue_init_def devices_init_dev)
  then show ?thesis
    using actuators_init_panel(2) [OF assms(2), of cfg]
    by (simp add: drain_idle_def q message_queue_init_def queued_def states_init_def cmd_defs)
qed

end
