(* ===== verification/Locking.thy ===== *)
theory Locking
  imports Reachability
begin

text \<open>
  The two requests that hold \<open>recv_trans_lock\<close>, the upload and the playlist transfer, one step
  at a time: what \<open>receive_file\<close> and \<open>transfer_list\<close> of theory \<open>Server\<close> do as a whole is done
  here by a thread that other threads interrupt. A thread waits at \<open>pthread_mutex_lock\<close> as long
  as another one holds the lock. The steps of any number of such threads interleave with all
  steps of theory \<open>System\<close> that leave playlist and files alone. What is left out is
  \<open>delete_file\<close>, which takes no lock: \<open>music_remove\<close> leaves the defined behaviour in any case.
\<close>

section \<open>The threads\<close>

datatype task =
    Upload                      \<comment> \<open>\<open>receive_file\<close> before \<open>pthread_mutex_lock\<close>\<close>
  | UpName
  | UpLoop string bool nat      \<comment> \<open>file name, whether it was opened, file position\<close>
  | UpAdd string bool
  | UpEnd
  | Listing                     \<comment> \<open>\<open>transfer_list\<close> before \<open>pthread_mutex_lock\<close>\<close>
  | LsHead
  | LsTitle "addr option"       \<comment> \<open>at the test of the loop, with \<open>head\<close>\<close>
  | LsNext addr                 \<comment> \<open>before \<open>head=head->next\<close>\<close>
  | LsMusic
  | LsEnd
  | Returned

type_synonym serving = "nat option \<times> planter \<times> task \<times> conn"

text \<open>One step of thread \<open>i\<close>; \<open>None\<close> while it waits for the lock, and when it has returned.\<close>

fun serve_step :: "bool \<Rightarrow> malloc_env \<Rightarrow> (string \<Rightarrow> bool) \<Rightarrow> nat \<Rightarrow> serving \<Rightarrow> serving vresult" where
  "serve_step stale env openable i (lk, p, Upload, c) =
     (if lk = None then vok (Some i, p, UpName, c) else None)"
| "serve_step stale env openable i (lk, p, UpName, c) =
     vbind (lift_r (recv_str c)) (\<lambda>(filename, c).
       if openable filename then
         vok (lk, p\<lparr>disk := (disk p)(filename \<mapsto> (case disk p filename of None \<Rightarrow> [] | Some s \<Rightarrow> s))\<rparr>,
           UpLoop filename True 0, c)
       else vok (lk, p, UpLoop filename False 0, c))"
| "serve_step stale env openable i (lk, p, UpLoop filename opened off, c) =
     (case network_recv (NETWORK_BUFSIZE - 1) c of (bytes_read, data, c) \<Rightarrow>
        if bytes_read = 0 then vok (lk, p, UpAdd filename opened, c)
        else if bytes_read = -1 then vok (lk, p, UpLoop filename opened off, c)
        else if opened then
          vok (lk, p\<lparr>disk := (disk p)(filename \<mapsto> write_at off data (case disk p filename of None \<Rightarrow> [] | Some s \<Rightarrow> s))\<rparr>,
            UpLoop filename opened (off + length data), c)
        else vok (lk, p, UpLoop filename opened off, c))"
| "serve_step stale env openable i (lk, p, UpAdd filename opened, c) =
     vbind (lift_o (music_add stale env filename (titles p))) (\<lambda>m.
     vbind (lift_o (music_print stale m)) (\<lambda>_. vok (lk, p\<lparr>titles := m\<rparr>, UpEnd, c)))"
| "serve_step stale env openable i (lk, p, UpEnd, c) =
     vok (None, p, Returned, snd (network_send_cmd_end c))"
| "serve_step stale env openable i (lk, p, Listing, c) =
     (if lk = None then vok (Some i, p, LsHead, c) else None)"
| "serve_step stale env openable i (lk, p, LsHead, c) =
     vok (lk, p, LsTitle (list_head (fst (titles p))), c)"
| "serve_step stale env openable i (lk, p, LsTitle None, c) =
     vok (lk, p, LsMusic, snd (network_send_cmd_end c))"
| "serve_step stale env openable i (lk, p, LsTitle (Some a), c) =
     vbind (lift_r (read_elmt stale (snd (titles p)) (Some a))) (\<lambda>e.
     vbind (lift_r (sprintf_buf (list_data e @ [CHR 0x0A]))) (\<lambda>buf.
       vok (lk, p, LsNext a, snd (network_send buf c))))"
| "serve_step stale env openable i (lk, p, LsNext a, c) =
     vbind (lift_r (read_elmt stale (snd (titles p)) (Some a))) (\<lambda>e.
       vok (lk, p, LsTitle (list_next e), c))"
| "serve_step stale env openable i (lk, p, LsMusic, c) =
     (if current_music p \<noteq> [] then
        vbind (lift_r (send_titles [current_music p] c)) (\<lambda>c. vok (lk, p, LsEnd, c))
      else vok (lk, p, LsEnd, c))"
| "serve_step stale env openable i (lk, p, LsEnd, c) =
     vok (None, p, Returned, snd (network_send_cmd_end c))"
| "serve_step stale env openable i (lk, p, Returned, c) = None"

text \<open>Thread \<open>i\<close> alone until it returns.\<close>

fun serve_run :: "bool \<Rightarrow> malloc_env \<Rightarrow> (string \<Rightarrow> bool) \<Rightarrow> nat \<Rightarrow> nat \<Rightarrow> serving \<Rightarrow> serving vresult" where
  "serve_run stale env openable i 0 s = None"
| "serve_run stale env openable i (Suc fuel) s =
     (if fst (snd (snd s)) = Returned then vok s
      else vbind (serve_step stale env openable i s) (serve_run stale env openable i fuel))"

section \<open>Alone, a thread does what the request function does\<close>

lemma run_upload_tail:
  "3 \<le> n \<Longrightarrow> serve_run stale env openable i n (lk, p, UpAdd f op, c) =
     vbind (lift_o (music_add stale env f (titles p))) (\<lambda>m. vbind (lift_o (music_print stale m)) (\<lambda>_.
       vok (None, p\<lparr>titles := m\<rparr>, Returned, snd (network_send_cmd_end c))))"
proof -
  assume "3 \<le> n"
  then obtain k where "n = 3 + k" using le_Suc_ex by blast
  then have n: "n = Suc (Suc (Suc k))" by simp
  show ?thesis unfolding n by (auto simp: vbind_def vok_def split: option.splits sum.splits)
qed

lemma run_upload_loop:
  assumes "inbox_size (inbox c) + 4 \<le> n" and "op \<Longrightarrow> disk p f = Some content"
  shows "serve_run stale env openable i n (lk, p, UpLoop f op off, c) =
    (case receive_loop op c off content of (content', c') \<Rightarrow>
      vbind (lift_o (music_add stale env f (titles p))) (\<lambda>m. vbind (lift_o (music_print stale m)) (\<lambda>_.
        vok (None, (if op then p\<lparr>disk := (disk p)(f \<mapsto> content')\<rparr> else p)\<lparr>titles := m\<rparr>, Returned,
          snd (network_send_cmd_end c')))))"
  using assms
proof (induction "inbox_size (inbox c)" arbitrary: c p off content n rule: less_induct)
  case less
  obtain k d c' where r: "network_recv (NETWORK_BUFSIZE - 1) c = (k, d, c')" by (metis prod_cases3)
  obtain n' where n: "n = Suc n'" using less.prems(1) by (cases n) simp_all
  show ?case
  proof (cases "k = 0")
    case True
    then have "serve_run stale env openable i n (lk, p, UpLoop f op off, c) =
        serve_run stale env openable i n' (lk, p, UpAdd f op, c')"
      by (simp add: n r del: network_recv.simps One_nat_def)
    moreover have "receive_loop op c off content = (content, c')"
      using True by (subst receive_loop.simps) (simp add: r del: network_recv.simps One_nat_def)
    moreover have "p\<lparr>disk := (disk p)(f \<mapsto> content)\<rparr> = p" if op
      using less.prems(2) [OF that] by (simp add: fun_upd_idem)
    moreover have "3 \<le> n'" using less.prems(1) n by simp
    ultimately show ?thesis by (simp add: run_upload_tail)
  next
    case False
    have small: "inbox_size (inbox c') < inbox_size (inbox c)" by (rule network_recv_smaller [OF r False])
    then have fuel: "inbox_size (inbox c') + 4 \<le> n'" using less.prems(1) n by simp
    show ?thesis
    proof (cases "op \<and> k \<noteq> -1")
      case True
      let ?q = "p\<lparr>disk := (disk p)(f \<mapsto> write_at off d content)\<rparr>"
      have "serve_run stale env openable i n (lk, p, UpLoop f op off, c) =
          serve_run stale env openable i n' (lk, ?q, UpLoop f op (off + length d), c')"
        using True False less.prems(2) by (simp add: n r del: network_recv.simps One_nat_def)
      moreover have "receive_loop op c off content = receive_loop op c' (off + length d) (write_at off d content)"
        using True False by (subst receive_loop.simps) (simp add: r del: network_recv.simps One_nat_def)
      ultimately show ?thesis
        using less.hyps [OF small fuel, of ?q "write_at off d content" "off + length d"] True
        by (auto split: prod.splits)
    next
      case False': False
      have "serve_run stale env openable i n (lk, p, UpLoop f op off, c) =
          serve_run stale env openable i n' (lk, p, UpLoop f op off, c')"
        using False False' by (auto simp add: n r simp del: network_recv.simps One_nat_def)
      moreover have "receive_loop op c off content = receive_loop op c' off content"
        using False False' by (subst receive_loop.simps) (auto simp add: r simp del: network_recv.simps One_nat_def)
      ultimately show ?thesis
        using less.hyps [OF small fuel less.prems(2)] by simp
    qed
  qed
qed

lemma recv_str_size: "recv_str c = Inr (f, c') \<Longrightarrow> inbox_size (inbox c') \<le> inbox_size (inbox c)"
proof -
  assume f: "recv_str c = Inr (f, c')"
  obtain k d c1 where r: "network_recv (NETWORK_BUFSIZE - 1) c = (k, d, c1)" by (metis prod_cases3)
  have "c1 = c'" using f r by (simp add: recv_str_def split: if_splits del: network_recv.simps One_nat_def)
  then show ?thesis
    using network_recv_smaller [OF r] r by (cases "inbox c") (auto split: portion.splits)
qed

lemma run_upload:
  assumes "inbox_size (inbox c) + 6 \<le> n"
  shows "serve_run stale env openable i n (None, p, Upload, c) =
    vbind (receive_file stale env openable p c) (\<lambda>(p, c). vok (None, p, Returned, c))"
proof -
  obtain k where "n = inbox_size (inbox c) + 6 + k" using assms le_Suc_ex by blast
  then obtain n' where n: "n = Suc (Suc n')" "inbox_size (inbox c) + 4 \<le> n'" by simp
  show ?thesis
  proof (cases "recv_str c")
    case (Inr r)
    obtain f c1 where r: "r = (f, c1)" by fastforce
    have fuel: "inbox_size (inbox c1) + 4 \<le> n'" using recv_str_size [of c f c1] Inr r n by simp
    obtain content c2 where l: "receive_loop (openable f) c1 0 (case disk p f of None \<Rightarrow> [] | Some s \<Rightarrow> s) = (content, c2)"
      by fastforce
    show ?thesis
    proof (cases "openable f")
      case True
      let ?s = "case disk p f of None \<Rightarrow> [] | Some s \<Rightarrow> s"
      have "serve_run stale env openable i n (None, p, Upload, c) =
          serve_run stale env openable i n' (Some i, p\<lparr>disk := (disk p)(f \<mapsto> ?s)\<rparr>, UpLoop f True 0, c1)"
        using True by (simp add: n Inr r)
      also have "\<dots> = vbind (receive_file stale env openable p c) (\<lambda>(p, c). vok (None, p, Returned, c))"
        using l True by (subst run_upload_loop [OF fuel, of _ _ _ ?s])
          (auto simp: receive_file_def Inr r vbind_def vok_def split: option.splits sum.splits)
      finally show ?thesis .
    next
      case False
      then have "serve_run stale env openable i n (None, p, Upload, c) =
          serve_run stale env openable i n' (Some i, p, UpLoop f False 0, c1)"
        by (simp add: n Inr r)
      also have "\<dots> = vbind (receive_file stale env openable p c) (\<lambda>(p, c). vok (None, p, Returned, c))"
        using l False by (subst run_upload_loop [OF fuel, of _ _ _ "case disk p f of None \<Rightarrow> [] | Some s \<Rightarrow> s"])
          (auto simp: receive_file_def Inr r vbind_def vok_def split: option.splits sum.splits)
      finally show ?thesis .
    qed
  qed (simp add: n receive_file_def)
qed

text \<open>The titles from an element on, two steps each.\<close>

lemma run_titles:
  assumes "chain (snd (titles p)) q xs None" and "2 * length xs + 4 \<le> n"
  shows "serve_run stale env openable i n (lk, p, LsTitle q, c) =
    vbind (lift_r (send_titles (map snd xs) c)) (\<lambda>c.
    vbind (if current_music p \<noteq> [] then lift_r (send_titles [current_music p] (snd (network_send_cmd_end c)))
           else vok (snd (network_send_cmd_end c))) (\<lambda>c.
      vok (None, p, Returned, snd (network_send_cmd_end c))))"
  using assms
proof (induction xs arbitrary: q c n)
  case Nil
  then obtain k where "n = 4 + k" using le_Suc_ex by auto
  then have "n = Suc (Suc (Suc (Suc k)))" by simp
  then show ?case using Nil by (auto simp: vbind_def vok_def split: option.splits sum.splits)
next
  case (Cons x xs)
  obtain e where e: "q = Some (fst x)" "read_elmt stale (snd (titles p)) q = Inr e" "list_data e = snd x"
    "chain (snd (titles p)) (list_next e) xs None"
    using Cons.prems(1) by (rule chain_Cons_read)
  obtain k where "n = 2 * length xs + 6 + k" using Cons.prems(2) le_Suc_ex by fastforce
  then obtain n' where n: "n = Suc (Suc n')" "2 * length xs + 4 \<le> n'" by simp
  show ?case
  proof (cases "sprintf_buf (snd x @ [CHR 0x0A])")
    case (Inr buf)
    then show ?thesis using e Cons.IH [OF e(4) n(2)] by (simp add: n(1))
  qed (use e in \<open>simp add: n(1)\<close>)
qed

lemma run_listing:
  assumes "music_rep (titles p) ts" and "2 * length ts + 6 \<le> n"
  shows "serve_run stale env openable i n (None, p, Listing, c) =
    vbind (transfer_list stale p c) (\<lambda>c. vok (None, p, Returned, c))"
proof -
  obtain xs where xs: "chain (snd (titles p)) (list_head (fst (titles p))) xs None" "map snd xs = ts"
    using assms(1) by (auto simp: music_rep_def is_list_def)
  obtain k where "n = 2 * length xs + 6 + k" using assms(2) xs(2) le_Suc_ex by fastforce
  then obtain n' where n: "n = Suc (Suc n')" "2 * length xs + 4 \<le> n'" by simp
  have "serve_run stale env openable i n (None, p, Listing, c) =
      serve_run stale env openable i n' (Some i, p, LsTitle (list_head (fst (titles p))), c)"
    by (simp add: n)
  then show ?thesis
    using music_print_rep [OF assms(1), of stale]
    by (auto simp: run_titles [OF xs(1) n(2)] xs(2) transfer_list_def Let_def vbind_def vok_def
        split: option.splits sum.splits)
qed

section \<open>All threads together\<close>

record server =
  machine :: system
  recv_trans_lock :: "nat option"          \<comment> \<open>the thread that holds it\<close>
  tasks :: "(task \<times> conn) list"

definition same_files :: "planter \<Rightarrow> planter \<Rightarrow> bool" where
  "same_files p q \<longleftrightarrow> titles q = titles p \<and> disk q = disk p"

text \<open>\<open>malloc\<close> returns storage that is not in use.\<close>

definition allocator_ok :: "malloc_env \<Rightarrow> bool" where
  "allocator_ok env \<longleftrightarrow> (\<forall>h a. elmt_malloc env h = Some a \<longrightarrow> unused h a)"

inductive server_step :: "server \<Rightarrow> server \<Rightarrow> bool" where
  accept: "recv_str c = Inr (buf, c') \<Longrightarrow>
      tk = (if atoi buf = NETWORK_CMD_FILE_CLIENT_TO_SERVER then Upload else Listing) \<Longrightarrow>
      atoi buf = NETWORK_CMD_FILE_CLIENT_TO_SERVER \<or> atoi buf = NETWORK_CMD_LIST_SERVER_TO_CLIENT \<Longrightarrow>
    server_step w (w\<lparr>tasks := tasks w @ [(tk, c')]\<rparr>)"
| serve: "i < length (tasks w) \<Longrightarrow> tasks w ! i = (tk, c) \<Longrightarrow> allocator_ok env \<Longrightarrow>
      serve_step stale env openable i (recv_trans_lock w, core (machine w), tk, c) =
        Some (Inr (lk, p, tk', c')) \<Longrightarrow>
    server_step w (w\<lparr>machine := (machine w)\<lparr>core := p\<rparr>, recv_trans_lock := lk, tasks := (tasks w)[i := (tk', c')]\<rparr>)"
| other: "sys_step (machine w) s \<Longrightarrow> same_files (core (machine w)) (core s) \<Longrightarrow>
    server_step w (w\<lparr>machine := s\<rparr>)"

inductive_cases server_stepE: "server_step w w'"

fun inside :: "task \<Rightarrow> bool" where
  "inside Upload = False" | "inside Listing = False" | "inside Returned = False" | "inside t = True"

text \<open>
  At most one thread is inside, the one that holds the lock; the playlist is well formed; the
  rest of the program keeps its invariant.
\<close>

definition server_inv :: "server \<Rightarrow> bool" where
  "server_inv w \<longleftrightarrow> sys_inv (machine w) \<and> (\<exists>ts. music_rep (titles (core (machine w))) ts) \<and>
     (\<forall>i. recv_trans_lock w = Some i \<longleftrightarrow> i < length (tasks w) \<and> inside (fst (tasks w ! i)))"

lemma music_add_keeps_rep:
  assumes "allocator_ok env" and "music_rep m ts" and "music_add stale env name m = Some (Inr m')"
  shows "\<exists>ts'. music_rep m' ts'"
proof (cases "name \<in> set ts")
  case True
  then show ?thesis using music_add_old [OF assms(2) True] assms(2,3) by auto
next
  case False
  show ?thesis
  proof (cases "music_ready env name m")
    case True
    then show ?thesis using music_add_new [OF assms(2) False True, of stale] assms(3) by auto
  next
    case no: False
    obtain l h xs where m: "m = (l, h)" "is_list l h xs" "map snd xs = ts"
      using assms(2) by (cases m) (auto simp: music_rep_def)
    have "name \<notin> snd ` set xs" using m(3) False by force
    then have "music_find stale h (list_head l) name = Some (Inr False)"
      using m(2) by (simp add: is_list_def music_find_spec [of h _ xs])
    then have "str_malloc env name" "elmt_malloc env h = None"
      using assms(1,3) no m(1)
      by (auto simp: music_add_def music_ready_def allocator_ok_def split: if_splits option.splits)
    then have "m' = m" using assms(3) \<open>music_find _ _ _ _ = _\<close> m(1)
      by (simp add: music_add_def list_ins_next_def)
    then show ?thesis using assms(2) by blast
  qed
qed

text \<open>What a step of a thread may do to the state outside of it.\<close>

lemma serve_step_core:
  assumes "serve_step stale env openable i (lk, p, tk, c) = Some (Inr (lk', q, tk', c'))"
  shows "q = p\<lparr>titles := titles q, disk := disk q\<rparr>"
  using assms
  by (cases "(stale, env, openable, i, lk, p, tk, c)" rule: serve_step.cases)
    (auto simp: ok_simps simp del: network_recv.simps split: if_splits prod.splits)

lemma serve_step_lock:
  assumes "serve_step stale env openable i (lk, p, tk, c) = Some (Inr (lk', q, tk', c'))"
  shows "if inside tk then lk' = (if inside tk' then lk else None)
    else lk = None \<and> lk' = Some i \<and> inside tk' \<and> q = p"
  using assms
  by (cases "(stale, env, openable, i, lk, p, tk, c)" rule: serve_step.cases)
    (auto simp: ok_simps simp del: network_recv.simps split: if_splits prod.splits)

lemma serve_step_titles:
  assumes "serve_step stale env openable i (lk, p, tk, c) = Some (Inr (lk', q, tk', c'))"
  shows "titles q = titles p \<or> (\<exists>name. music_add stale env name (titles p) = Some (Inr (titles q)))"
  using assms
  by (cases "(stale, env, openable, i, lk, p, tk, c)" rule: serve_step.cases)
    (auto simp: ok_simps simp del: network_recv.simps split: if_splits prod.splits)

lemma server_inv_step:
  assumes "server_inv w" and "server_step w w'"
  shows "server_inv w'"
  using assms(2)
proof (cases rule: server_stepE [consumes 1, case_names accept serve other])
  case (accept c buf c')
  then show ?thesis using assms(1) by (auto simp: server_inv_def nth_append)
next
  case (serve i tk c env stale openable lk p tk' c')
  have lock: "\<forall>i. recv_trans_lock w = Some i \<longleftrightarrow> i < length (tasks w) \<and> inside (fst (tasks w ! i))"
    and inv: "core_inv (core (machine w))" and rep: "\<exists>ts. music_rep (titles (core (machine w))) ts"
    using assms(1) by (auto simp: server_inv_def sys_inv_def)
  have "core_inv (core (machine w)\<lparr>titles := titles p, disk := disk p\<rparr>)"
    using inv by simp
  then have "core_inv p" using serve_step_core [OF serve(5)] by metis
  moreover have "\<exists>ts. music_rep (titles p) ts"
    using serve_step_titles [OF serve(5)] rep music_add_keeps_rep [OF serve(4)] by metis
  moreover have "lk = Some j \<longleftrightarrow> j < length (tasks w) \<and> inside (fst (((tasks w)[i := (tk', c')]) ! j))" for j
    using serve_step_lock [OF serve(5)] lock [rule_format, of i] lock [rule_format, of j] serve(2,3)
    by (cases "j = i") (auto split: if_splits)
  ultimately show ?thesis using assms(1) serve(1) by (simp add: server_inv_def sys_inv_def)
next
  case (other s)
  then show ?thesis using assms(1) sys_inv_step [of "machine w" s] by (auto simp: server_inv_def same_files_def)
qed

interpretation server: transition_system server_step server_inv
  by unfold_locales (rule server_inv_step)

text \<open>
  The steps left out of \<open>other\<close>: only uploads, which have their own steps here, and deletions
  change the playlist or the files.
\<close>

lemma handler_files: "titles (message_queue_handler x p) = titles p" "disk (message_queue_handler x p) = disk p"
  by (simp_all add: message_queue_handler_def)

lemma send_cmd_same_files: "send_cmd x t = Inr t' \<Longrightarrow> same_files (snd t) (snd t')"
  by (auto simp: send_cmd_def rbind_eq_Inr mq_send_def same_files_def)

lemma requests_same_files:
  assumes "socket_handler env p c = Some (Inr (q, c'))" and "set (snaps env) \<subseteq> {p}"
    and "recv_str c = Inr (buf, c1)" and "atoi buf \<noteq> NETWORK_CMD_FILE_CLIENT_TO_SERVER"
    and "atoi buf \<noteq> NETWORK_CMD_DELETE_CLIENT_TO_SERVER"
  shows "same_files p q"
proof -
  have handler: "same_files p (message_queue_handler x p)" for x
    by (simp add: same_files_def handler_files)
  have change: "state_change p c1 = Some (Inr (q, c')) \<Longrightarrow> same_files p q" for c1
    using handler by (auto simp: state_change_def ok_simps same_files_def split: if_splits)
  have bound: "receive_boundary_data (cmd0 env) p c1 = Some (Inr (q, c')) \<Longrightarrow> same_files p q" for c1
    by (auto simp: receive_boundary_data_def ok_simps rbind_eq_Inr dest!: send_cmd_same_files)
      (auto simp: same_files_def new_boundaries_def [symmetric])
  show ?thesis
    using assms change bound
    by (auto simp: socket_handler_def Let_def vbind_eq_ok lift_r_ok vok_ok play_music_def mode_toggle_def
        transfer_database_data_def same_files_def
        dest: with_state_ok transfer_state_data_snap transfer_sensor_data_snap
        split: if_splits)
qed

lemma main_loop_same_files:
  "main_loop rc p = Inr (started, q) \<Longrightarrow> same_files p q"
  by (auto simp: main_loop_def rbind_eq_Inr mq_poll_def mq_receive_def same_files_def handler_files
      split: option.splits list.splits if_splits)

section \<open>Between lock and unlock\<close>

definition thread_at :: "nat \<Rightarrow> (planter \<Rightarrow> task \<Rightarrow> conn \<Rightarrow> bool) \<Rightarrow> server \<Rightarrow> bool" where
  "thread_at i A w \<longleftrightarrow> server_inv w \<and> i < length (tasks w) \<and>
     A (core (machine w)) (fst (tasks w ! i)) (snd (tasks w ! i))"

text \<open>
  What a thread knows while it holds the lock, in the manner of rely and guarantee: its own
  steps preserve \<open>A\<close>, and \<open>A\<close> depends on the rest of the state through playlist and files
  only, which no other thread changes. Once the thread has returned, \<open>A\<close> is about its
  connection alone.
\<close>

locale critical_thread =
  fixes i :: nat
    and A :: "planter \<Rightarrow> task \<Rightarrow> conn \<Rightarrow> bool"
  assumes own: "A p tk c \<Longrightarrow> inside tk \<Longrightarrow>
      serve_step stale env openable i (lk, p, tk, c) = Some (Inr (lk', q, tk', c')) \<Longrightarrow> A q tk' c'"
    and rely: "A p tk c \<Longrightarrow> same_files p q \<Longrightarrow> A q tk c"
    and returned: "A p tk c \<Longrightarrow> \<not> inside tk \<Longrightarrow> tk = Returned \<and> A q tk c"
begin

lemma at_step:
  assumes "thread_at i A w" and "server_step w w'"
  shows "thread_at i A w'"
proof -
  have inv': "server_inv w'" using server_inv_step [OF _ assms(2)] assms(1) by (simp add: thread_at_def)
  have a: "i < length (tasks w)" "A (core (machine w)) (fst (tasks w ! i)) (snd (tasks w ! i))"
    and lock: "\<forall>j. recv_trans_lock w = Some j \<longleftrightarrow> j < length (tasks w) \<and> inside (fst (tasks w ! j))"
    using assms(1) by (auto simp: thread_at_def server_inv_def)
  have out: "A q (fst (tasks w ! i)) (snd (tasks w ! i))" if "\<not> inside (fst (tasks w ! i))" for q
    using returned [OF a(2) that] by blast
  show ?thesis
    using assms(2)
  proof (cases rule: server_stepE [consumes 1, case_names accept serve other])
    case (serve j tk c env stale openable lk p tk' c')
    show ?thesis
    proof (cases "j = i")
      case True
      then have "inside tk"
        using serve(3,5) returned [OF a(2)] by (cases "inside tk") auto
      then have "A p tk' c'" using own [OF _ _ serve(5) [unfolded True]] a(2) serve(3) True by simp
      then show ?thesis using inv' serve(1) a(1) True by (simp add: thread_at_def)
    next
      case False
      have "A p (fst (tasks w ! i)) (snd (tasks w ! i))"
      proof (cases "inside (fst (tasks w ! i))")
        case True
        then have "recv_trans_lock w = Some i" using lock a(1) by simp
        then have "\<not> inside tk \<and> recv_trans_lock w \<noteq> None"
          using lock [rule_format, of j] serve(2,3) False by auto
        then show ?thesis using serve_step_lock [OF serve(5)] by simp
      qed (rule out)
      then show ?thesis using inv' serve(1) a(1) False by (simp add: thread_at_def)
    qed
  next
    case (other s)
    then show ?thesis using rely [OF a(2)] inv' a(1) by (simp add: thread_at_def)
  qed (use a inv' in \<open>simp_all add: thread_at_def nth_append\<close>)
qed

sublocale critical: transition_system server_step "thread_at i A"
  by unfold_locales (rule at_step)

lemma reached:
  assumes "server_step\<^sup>*\<^sup>* w w'" and "server_inv w" and "i < length (tasks w)" and "tasks w ! i = (tk, c)"
    and "A (core (machine w)) tk c"
  shows "i < length (tasks w')" "A (core (machine w')) (fst (tasks w' ! i)) (snd (tasks w' ! i))"
  using critical.inv_reach [OF assms(1)] assms(2-5) by (auto simp: thread_at_def)

end

text \<open>The transfer of the playlist \<open>ts\<close> over the connection that was \<open>c0\<close>.\<close>

definition title_line :: "string \<Rightarrow> string" where
  "title_line t = t @ [CHR 0x0A]"

definition listing_at :: "string list \<Rightarrow> conn \<Rightarrow> planter \<Rightarrow> task \<Rightarrow> conn \<Rightarrow> bool" where
  "listing_at ts c0 p tk c =
     (case tk of
        LsHead \<Rightarrow> music_rep (titles p) ts \<and> c = c0
      | LsTitle q \<Rightarrow> music_rep (titles p) ts \<and>
          (\<exists>us xs. ts = us @ map snd xs \<and> chain (snd (titles p)) q xs None \<and> c = send_all (map title_line us) c0)
      | LsNext a \<Rightarrow> music_rep (titles p) ts \<and>
          (\<exists>us x xs. ts = us @ map snd xs \<and> chain (snd (titles p)) (Some a) (x # xs) None \<and>
             c = send_all (map title_line us) c0)
      | LsMusic \<Rightarrow> c = send_all (map title_line (ts @ [show_int NETWORK_CMD_END])) c0
      | LsEnd \<Rightarrow> (\<exists>cm. length cm \<le> 1 \<and> c = send_all (map title_line (ts @ [show_int NETWORK_CMD_END] @ cm)) c0)
      | Returned \<Rightarrow> (\<exists>cm. length cm \<le> 1 \<and>
          c = send_all (map title_line (ts @ [show_int NETWORK_CMD_END] @ cm @ [show_int NETWORK_CMD_END])) c0)
      | _ \<Rightarrow> False)"

lemma listing_start:
  assumes "music_rep (titles p) ts"
  shows "listing_at ts c0 p (LsTitle (list_head (fst (titles p)))) c0"
proof -
  obtain xs where "chain (snd (titles p)) (list_head (fst (titles p))) xs None" "ts = map snd xs"
    using assms by (auto simp: music_rep_def is_list_def)
  then have "ts = [] @ map snd xs \<and> chain (snd (titles p)) (list_head (fst (titles p))) xs None \<and>
      c0 = send_all (map title_line []) c0" by simp
  then show ?thesis using assms unfolding listing_at_def task.case by blast
qed

lemma listing_own:
  assumes "listing_at ts c0 p tk c" and "inside tk"
    and "serve_step stale env openable i (lk, p, tk, c) = Some (Inr (lk', q, tk', c'))"
  shows "listing_at ts c0 q tk' c'"
proof (cases tk)
  case LsHead
  then have "music_rep (titles p) ts" "c = c0" using assms(1) by (simp_all add: listing_at_def)
  moreover have "tk' = LsTitle (list_head (fst (titles p)))" "q = p" "c' = c"
    using assms(3) LsHead by (auto simp: vok_ok)
  ultimately show ?thesis by (simp add: listing_start)
next
  case (LsTitle h)
  then obtain us xs where u: "music_rep (titles p) ts" "ts = us @ map snd xs" "chain (snd (titles p)) h xs None"
    "c = send_all (map title_line us) c0" using assms(1) by (auto simp: listing_at_def)
  show ?thesis
  proof (cases xs)
    case Nil
    then show ?thesis using assms(3) LsTitle u
      by (auto simp: listing_at_def vok_ok network_send_cmd_end_def title_line_def)
  next
    case (Cons x ys)
    obtain e where e: "h = Some (fst x)" "read_elmt stale (snd (titles p)) h = Inr e" "list_data e = snd x"
      using u(3) unfolding Cons by (rule chain_Cons_read)
    have "sprintf_buf (snd x @ [CHR 0x0A]) = Inr b \<Longrightarrow> b = title_line (snd x)" for b
      by (simp add: sprintf_buf_def title_line_def split: if_splits)
    then have t: "tk' = LsNext (fst x)" "q = p" "c' = send_all (map title_line (us @ [snd x])) c0"
      using assms(3) LsTitle u(4) e by (auto simp: ok_simps)
    have "ts = (us @ [snd x]) @ map snd ys" "chain (snd (titles p)) (Some (fst x)) (x # ys) None"
      using u(2,3) e(1) Cons by simp_all
    then have "listing_at ts c0 p (LsNext (fst x)) (send_all (map title_line (us @ [snd x])) c0)"
      using u(1) unfolding listing_at_def task.case by blast
    then show ?thesis by (simp only: t)
  qed
next
  case (LsNext a)
  then obtain us x xs where u: "music_rep (titles p) ts" "ts = us @ map snd xs"
    "chain (snd (titles p)) (Some a) (x # xs) None" "c = send_all (map title_line us) c0"
    using assms(1) by (auto simp: listing_at_def)
  obtain e where e: "read_elmt stale (snd (titles p)) (Some a) = Inr e" "chain (snd (titles p)) (list_next e) xs None"
    using u(3) by (rule chain_Cons_read)
  have t: "tk' = LsTitle (list_next e)" "q = p" "c' = c" using assms(3) LsNext e(1) by (auto simp: ok_simps)
  have "listing_at ts c0 p (LsTitle (list_next e)) c"
    using u(1,2,4) e(2) unfolding listing_at_def task.case by blast
  then show ?thesis by (simp only: t)
next
  case LsMusic
  have "sprintf_buf (current_music p @ [CHR 0x0A]) = Inr b \<Longrightarrow> b = title_line (current_music p)" for b
    by (simp add: sprintf_buf_def title_line_def split: if_splits)
  then show ?thesis using assms LsMusic
    by (auto simp: listing_at_def ok_simps rbind_eq_Inr split: if_splits
        intro: exI [of _ "[]"] exI [of _ "[current_music p]"])
next
  case LsEnd
  then obtain cm where "length cm \<le> 1" "c = send_all (map title_line (ts @ [show_int NETWORK_CMD_END] @ cm)) c0"
    using assms(1) by (auto simp: listing_at_def)
  then show ?thesis using assms(3) LsEnd
    by (auto simp: listing_at_def vok_ok network_send_cmd_end_def title_line_def intro!: exI [of _ cm])
qed (use assms in \<open>simp_all add: listing_at_def\<close>)

interpretation listing: critical_thread i "listing_at ts c0"
proof unfold_locales
  show "listing_at ts c0 q tk' c'" if "listing_at ts c0 p tk c" "inside tk"
    "serve_step stale env openable i (lk, p, tk, c) = Some (Inr (lk', q, tk', c'))"
    for p tk c stale env openable lk lk' q tk' c'
    using that by (rule listing_own)
  show "listing_at ts c0 q tk c" if "listing_at ts c0 p tk c" "same_files p q" for p q tk c
    using that by (cases tk) (auto simp: listing_at_def same_files_def)
  show "tk = Returned \<and> listing_at ts c0 q tk c" if "listing_at ts c0 p tk c" "\<not> inside tk" for p q tk c
    using that by (cases tk) (simp_all add: listing_at_def)
qed

text \<open>
  The upload of the file \<open>name\<close> with the contents \<open>parts\<close>, over the connection that was \<open>c0\<close> and
  the files that were \<open>d0\<close>.
\<close>

definition upload_at :: "string \<Rightarrow> portion list \<Rightarrow> (string \<Rightarrow> string option) \<Rightarrow> conn \<Rightarrow> planter \<Rightarrow> task \<Rightarrow> conn \<Rightarrow> bool" where
  "upload_at name parts d0 c0 p tk c =
     (let old = (case d0 name of None \<Rightarrow> [] | Some s \<Rightarrow> s);
          stored = (\<lambda>data. d0(name \<mapsto> data @ drop (length data) old)) in
      case tk of
        UpName \<Rightarrow> c = c0 \<and> whole (c0\<lparr>inbox := parts\<rparr>) \<and> recv_str c0 = Inr (name, c0\<lparr>inbox := parts\<rparr>) \<and> disk p = d0
      | UpLoop f opened off \<Rightarrow> f = name \<and> whole c \<and>
          (\<exists>pre. pending parts = pre @ pending (inbox c) \<and> (opened \<longrightarrow> off = length pre) \<and>
             disk p = (if opened then stored pre else d0))
      | UpAdd f opened \<Rightarrow> f = name \<and> disk p = (if opened then stored (pending parts) else d0)
      | UpEnd \<Rightarrow> disk p = stored (pending parts) \<or> disk p = d0
      | Returned \<Rightarrow> True
      | _ \<Rightarrow> False)"

lemma whole_recv:
  assumes "network_recv n c = (k, d, c')" and "whole c" and "0 < n"
  shows "whole c'" "k \<noteq> -1" "k = 0 \<Longrightarrow> pending (inbox c) = []"
  using assms by (auto simp: whole_def split: list.splits portion.splits if_splits)

lemma upload_own:
  assumes "upload_at name parts d0 c0 p tk c" and "inside tk"
    and "serve_step stale env openable i (lk, p, tk, c) = Some (Inr (lk', q, tk', c'))"
  shows "upload_at name parts d0 c0 q tk' c'"
proof (cases tk)
  case UpName
  let ?old = "case d0 name of None \<Rightarrow> [] | Some s \<Rightarrow> s"
  have u: "recv_str c = Inr (name, c0\<lparr>inbox := parts\<rparr>)" "disk p = d0" "whole (c0\<lparr>inbox := parts\<rparr>)"
    using assms(1) UpName by (auto simp: upload_at_def)
  show ?thesis
    using assms(3) UpName u by (auto simp: upload_at_def vok_ok whole_def Let_def split: if_splits)
next
  case (UpLoop f op off)
  let ?old = "case d0 name of None \<Rightarrow> [] | Some s \<Rightarrow> s"
  let ?stored = "\<lambda>data. d0(name \<mapsto> data @ drop (length data) ?old)"
  obtain pre where u: "f = name" "whole c" "pending parts = pre @ pending (inbox c)"
    "op \<longrightarrow> off = length pre" "disk p = (if op then ?stored pre else d0)"
    using assms(1) UpLoop by (auto simp: upload_at_def Let_def)
  obtain k d c1 where r: "network_recv (NETWORK_BUFSIZE - 1) c = (k, d, c1)" by (metis prod_cases3)
  have p: "d @ pending (inbox c1) = pending (inbox c)" by (rule network_recv_pending [OF r])
  show ?thesis
  proof (cases "k = 0")
    case True
    have "pending (inbox c) = []" using whole_recv(3) [OF r u(2) _ True] by (simp add: NETWORK_BUFSIZE_def)
    then show ?thesis using assms(3) UpLoop u True
      by (auto simp add: r upload_at_def vok_ok Let_def simp del: network_recv.simps One_nat_def)
  next
    case False
    have w: "whole c1" "k \<noteq> -1" using whole_recv(1,2) [OF r u(2)] by (simp_all add: NETWORK_BUFSIZE_def)
    have "write_at (length pre) d (pre @ drop (length pre) ?old) = (pre @ d) @ drop (length (pre @ d)) ?old"
      by (simp add: write_at_def add.commute)
    then show ?thesis using assms(3) UpLoop u w False p [symmetric]
      by (auto simp add: r upload_at_def vok_ok Let_def simp del: network_recv.simps One_nat_def
        intro!: exI [of _ "pre @ d"] split: if_splits)
  qed
next
  case (UpAdd f op)
  then show ?thesis using assms(1,3)
    by (auto simp: upload_at_def ok_simps Let_def split: if_splits)
qed (use assms in \<open>simp_all add: upload_at_def vok_ok Let_def\<close>)

interpretation upload: critical_thread i "upload_at name parts d0 c0"
proof unfold_locales
  show "upload_at name parts d0 c0 q tk' c'" if "upload_at name parts d0 c0 p tk c" "inside tk"
    "serve_step stale env openable i (lk, p, tk, c) = Some (Inr (lk', q, tk', c'))"
    for p tk c stale env openable lk lk' q tk' c'
    using that by (rule upload_own)
  show "upload_at name parts d0 c0 q tk c" if "upload_at name parts d0 c0 p tk c" "same_files p q" for p q tk c
    using that by (cases tk) (simp_all add: upload_at_def same_files_def)
  show "tk = Returned \<and> upload_at name parts d0 c0 q tk c"
    if "upload_at name parts d0 c0 p tk c" "\<not> inside tk" for p q tk c
    using that by (cases tk) (simp_all add: upload_at_def)
qed

section \<open>The start, and no thread stuck inside\<close>

lemma music_add_entries_rep:
  "allocator_ok env \<Longrightarrow> music_rep m ts \<Longrightarrow> music_add_entries stale env entries m = Some (Inr m') \<Longrightarrow>
   \<exists>ts'. music_rep m' ts'"
proof (induction entries arbitrary: m ts)
  case (Cons d entries)
  show ?case
  proof (cases "is_mp3 d")
    case True
    then obtain m1 where m1: "music_add stale env d m = Some (Inr m1)"
      "music_add_entries stale env entries m1 = Some (Inr m')"
      using Cons.prems(3) by (auto split: option.splits sum.splits)
    from music_add_keeps_rep [OF Cons.prems(1,2) m1(1)] obtain us where "music_rep m1 us" by blast
    then show ?thesis by (rule Cons.IH [OF Cons.prems(1) _ m1(2)])
  qed (use Cons in auto)
qed auto

lemma main_init_rep:
  assumes "allocator_ok env" and "main_init stale rc env dir db_ok mq_rc left p = Some (Inr q)"
  shows "\<exists>ts. music_rep (titles q) ts"
proof -
  obtain m d r where m: "music_init stale env dir (snd (titles p)) = Some (Inr m)"
    "q = message_queue_init mq_rc left (r\<lparr>titles := m, db := d\<rparr>)"
    using assms(2) by (auto simp: main_init_def Let_def rbind_eq_Inr split: option.splits sum.splits)
  have init: "music_rep (list_init True, snd (titles p)) []"
    by (simp add: music_rep_def is_list_init)
  have "\<exists>ts. music_rep m ts"
  proof (cases dir)
    case None
    then show ?thesis using m(1) init by (auto simp: music_init_def music_get_from_directory_def)
  next
    case (Some entries)
    then have "music_add_entries stale env entries (list_init True, snd (titles p)) = Some (Inr m)"
      using m(1) by (simp add: music_init_def music_get_from_directory_def)
    then show ?thesis by (rule music_add_entries_rep [OF assms(1) init])
  qed
  then show ?thesis by (simp add: m(2) message_queue_init_def)
qed

definition server_start :: "planter \<Rightarrow> server" where
  "server_start p = \<lparr>machine = sys_start p, recv_trans_lock = None, tasks = []\<rparr>"

lemma server_inv_start:
  "core_inv p \<Longrightarrow> music_rep (titles p) ts \<Longrightarrow> server_inv (server_start p)"
  using sys_inv_start [of p] by (auto simp: server_inv_def server_start_def sys_start_def)

lemma music_add_returns:
  assumes "music_rep m ts"
  shows "music_add stale env name m \<noteq> None"
proof -
  obtain l h xs where m: "m = (l, h)" "chain h (list_head l) xs None"
    using assms by (cases m) (auto simp: music_rep_def is_list_def)
  then show ?thesis
    by (auto simp: music_add_def music_find_spec [OF m(2)] split: bool.split)
qed

lemma inside_not_stuck:
  assumes "inside tk" and "music_rep (titles p) ts" and "allocator_ok env"
  shows "serve_step stale env openable i (lk, p, tk, c) \<noteq> None"
proof (cases tk)
  case (UpAdd name op)
  have "music_print stale m \<noteq> None" if "music_add stale env name (titles p) = Some (Inr m)" for m
    using music_add_keeps_rep [OF assms(3,2) that] music_print_rep [of m _ stale] by auto
  then show ?thesis using music_add_returns [OF assms(2), of stale env name] UpAdd
    by (auto simp: vbind_def lift_o_def lift_r_def vok_def split: option.splits sum.splits)
next
  case (LsTitle q)
  then show ?thesis by (cases q) (auto simp: vbind_def lift_r_def vok_def split: option.splits sum.splits)
qed (use assms(1) in \<open>auto simp: vbind_def lift_r_def vok_def simp del: network_recv.simps
       split: option.splits sum.splits prod.splits\<close>)

text \<open>A thread that runs alone is one of the interleavings.\<close>

lemma serve_reaches:
  assumes "serve_step stale env openable i (recv_trans_lock w, core (machine w), tk, c) =
      Some (Inr (lk, p, tk', c'))"
    and "i < length (tasks w)" and "tasks w ! i = (tk, c)" and "allocator_ok env"
  obtains w' where "server_step w w'" "core (machine w') = p" "recv_trans_lock w' = lk"
    "i < length (tasks w')" "tasks w' ! i = (tk', c')"
  by (rule that [OF server_step.serve [OF assms(2,3,4,1)]]) (use assms(2) in simp_all)

lemma run_reaches:
  assumes "serve_run stale env openable i n (recv_trans_lock w, core (machine w), tk, c) =
      Some (Inr (lk, p, tk', c'))"
    and "i < length (tasks w)" and "tasks w ! i = (tk, c)" and "allocator_ok env"
  shows "\<exists>w'. server_step\<^sup>*\<^sup>* w w' \<and> core (machine w') = p \<and> recv_trans_lock w' = lk \<and>
    tasks w' ! i = (tk', c')"
  using assms(1-3)
proof (induction n arbitrary: w tk c)
  case (Suc n)
  show ?case
  proof (cases "tk = Returned")
    case True
    then have "recv_trans_lock w = lk" "core (machine w) = p" "tk' = tk" "c' = c"
      using Suc.prems(1) by (auto simp: vok_def)
    then show ?thesis using Suc.prems(3) by blast
  next
    case False
    then obtain lk1 p1 tk1 c1 where s:
      "serve_step stale env openable i (recv_trans_lock w, core (machine w), tk, c) = Some (Inr (lk1, p1, tk1, c1))"
      "serve_run stale env openable i n (lk1, p1, tk1, c1) = Some (Inr (lk, p, tk', c'))"
      using Suc.prems(1) by (auto simp: vbind_eq_ok)
    from s(1) Suc.prems(2,3) assms(4) obtain w1 where w1: "server_step w w1" "core (machine w1) = p1"
      "recv_trans_lock w1 = lk1" "i < length (tasks w1)" "tasks w1 ! i = (tk1, c1)"
      by (rule serve_reaches)
    then show ?thesis using Suc.IH [of w1 tk1 c1] s(2) by (meson converse_rtranclp_into_rtranclp)
  qed
qed simp

end
