(* ===== verification/Typing.thy ===== *)
theory Typing
  imports Locking
begin

text \<open>
  The values of the global variables: in every reachable state each stays within what its C
  type holds, and the sensor values within what the sensors can deliver, so that the
  unbounded integers of the model are the integers of the program and the texts built from
  them fit their buffers.
\<close>

section \<open>What a sensor thread does outside of the queue\<close>

text \<open>A decision sends, a log entry goes to the database.\<close>

lemma send_cmd_only: "send_cmd c t = Inr t' \<Longrightarrow> snd t' = (snd t)\<lparr>mq := mq (snd t')\<rparr>"
  by (auto simp: send_cmd_def rbind_eq_Inr mq_send_def)

lemma decision_only:
  assumes "f \<in> {fan_auto, humidifier_auto, dryer_auto, cooler_auto, led_auto, valve_auto, drain_auto}"
    and "f t = Inr t'"
  shows "snd t' = (snd t)\<lparr>mq := mq (snd t')\<rparr>"
  using assms by (auto simp: auto_defs Let_def dest: send_cmd_only split: if_splits)

text \<open>Every sensor thread therefore keeps what its own measurement keeps.\<close>

lemma thread_keeps_planter:
  assumes "\<And>p ms. I p \<Longrightarrow> I (p\<lparr>mq := ms\<rparr>)" and "\<And>p d. I p \<Longrightarrow> I (p\<lparr>db := d\<rparr>)"
    and "\<And>t. I (snd t) \<Longrightarrow> I (snd (snd (sample t)))"
    and "set decisions \<subseteq> {fan_auto, humidifier_auto, dryer_auto, cooler_auto, led_auto, valve_auto, drain_auto}"
    and "\<And>g p q. g \<in> set logs \<Longrightarrow> g p = Inr q \<Longrightarrow> \<exists>d. q = p\<lparr>db := d\<rparr>"
  shows "thread_keeps sample decisions logs (\<lambda>t. I (snd t))"
proof
  show "I (snd t')" if "f \<in> set decisions" "f t = Inr t'" "I (snd t)" for f t t'
  proof -
    have "snd t' = (snd t)\<lparr>mq := mq (snd t')\<rparr>" using decision_only [of f t t'] assms(4) that by blast
    then show ?thesis using assms(1) [OF that(3), of "mq (snd t')"] by (rule ssubst)
  qed
  show "I (snd (cmd, q))" if "g \<in> set logs" "g p = Inr q" "I (snd (cmd, p))" for cmd g p q
    using assms(2) assms(5) [OF that(1,2)] that(3) by auto
qed (rule assms(3))

section \<open>The ranges\<close>

definition globals_fit :: "planter \<Rightarrow> bool" where
  "globals_fit p \<longleftrightarrow> -128 \<le> g_humi p \<and> g_humi p < 256 \<and> -128 \<le> g_temp p \<and> g_temp p < 256 \<and>
     -1 \<le> g_photo p \<and> g_photo p \<le> 54612 \<and> g_magnet p \<in> {0, 1} \<and> g_moisture p \<in> {0, 1} \<and>
     (\<forall>v \<in> {g_humi_upper_fan p, g_humi_under_fan p, g_humi_upper_humidifier p,
        g_humi_under_humidifier p, g_temp_upper_dryer p, g_temp_under_dryer p,
        g_temp_upper_cooler p, g_temp_under_cooler p, g_photo_upper_led p, g_photo_under_led p}. in_i32 v) \<and>
     no_nul (current_music p) \<and> length (current_music p) < NETWORK_BUFSIZE"

lemma globals_fit_upd [simp]:
  "globals_fit p \<Longrightarrow> globals_fit (p\<lparr>mq := ms\<rparr>)" "globals_fit p \<Longrightarrow> globals_fit (p\<lparr>db := d\<rparr>)"
  "globals_fit p \<Longrightarrow> globals_fit (p\<lparr>titles := m\<rparr>)" "globals_fit p \<Longrightarrow> globals_fit (p\<lparr>disk := f\<rparr>)"
  "globals_fit p \<Longrightarrow> globals_fit (p\<lparr>shell := sh\<rparr>)" "globals_fit p \<Longrightarrow> globals_fit (p\<lparr>g_mode := v\<rparr>)"
  "globals_fit p \<Longrightarrow> globals_fit (message_queue_handler c p)"
  by (simp_all add: globals_fit_def)

lemma photo_range: "-1 \<le> fst (photo_get_intensity wr rd temp) \<and> fst (photo_get_intensity wr rd temp) \<le> 54612"
  using photo_intensity_range [of wr rd temp] by auto

lemma new_boundaries_fit: "globals_fit p \<Longrightarrow> globals_fit (new_boundaries buf p)"
proof -
  have nth: "in_i32 v \<Longrightarrow> in_i32 (nth_or (scan_ints 5 buf) i v)" for i v
    using scan_ints_i32 [of "scan_ints 5 buf ! i" 5 buf] by (simp add: nth_or_def)
  assume "globals_fit p"
  then show ?thesis
    by (simp add: globals_fit_def new_boundaries_def boundary_update_def scan_boundaries_def Let_def nth)
qed

text \<open>What requests leave behind.\<close>

lemma receive_boundary_only:
  assumes "receive_boundary_data cmd p c = Some (Inr (q, c'))"
  obtains buf ms where "q = (new_boundaries buf p)\<lparr>mq := ms\<rparr>"
proof -
  obtain buf c1 where r: "recv_str c = Inr (buf, c1)"
    using assms by (auto simp: receive_boundary_data_def ok_simps)
  obtain t1 t2 t3 where t: "send_cmd MQ_CMD_FAN_OFF (cmd, new_boundaries buf p) = Inr t1"
    "send_cmd MQ_CMD_DRYER_OFF t1 = Inr t2" "send_cmd MQ_CMD_LED_OFF t2 = Inr t3"
    "send_cmd MQ_CMD_HUMIDIFIER_OFF t3 = Inr (fst t3, q) \<or> (\<exists>cmd'. send_cmd MQ_CMD_HUMIDIFIER_OFF t3 = Inr (cmd', q))"
    using assms r by (auto simp: receive_boundary_data_def ok_simps new_boundaries_def rbind_eq_Inr)
  have mq: "\<exists>ms. snd t' = (snd t)\<lparr>mq := ms\<rparr>" if "send_cmd k t = Inr t'" for k t t'
    using send_cmd_only [OF that] by blast
  obtain m1 where "snd t1 = (new_boundaries buf p)\<lparr>mq := m1\<rparr>" using mq [OF t(1)] by auto
  moreover obtain m2 where "snd t2 = (snd t1)\<lparr>mq := m2\<rparr>" using mq [OF t(2)] by auto
  moreover obtain m3 where "snd t3 = (snd t2)\<lparr>mq := m3\<rparr>" using mq [OF t(3)] by auto
  moreover obtain m4 where "q = (snd t3)\<lparr>mq := m4\<rparr>" using mq t(4) by fastforce
  ultimately have "q = (new_boundaries buf p)\<lparr>mq := m4\<rparr>" by simp
  then show ?thesis by (rule that)
qed

interpretation globals_fit: request_invariant globals_fit
proof unfold_locales
  show "globals_fit q" if "globals_fit p" "receive_boundary_data cmd p c = Some (Inr (q, c'))" for p cmd c q c'
    using that(2) by (rule receive_boundary_only) (use that(1) in \<open>simp add: new_boundaries_fit\<close>)
qed (simp_all add: globals_fit_def)

section \<open>The sensor threads\<close>

lemma photo_measure_fits:
  "globals_fit (snd t) \<Longrightarrow> globals_fit (snd (snd (photo_measure (fst (photo_get_intensity wr rd temp)) t)))"
  using photo_range [of wr rd temp] by (simp add: photo_measure_def globals_fit_def case_prod_beta Let_def)

lemma humitemp_measure_fits:
  "globals_fit (snd t) \<Longrightarrow> globals_fit (snd (snd (humitemp_measure char_signed delivered t)))"
proof -
  assume fit: "globals_fit (snd t)"
  obtain rc s where r: "humitemp_read char_signed delivered (sens (snd t)) = (rc, s)" by fastforce
  then show ?thesis
    using fit humitemp_read_bounds [of char_signed delivered "sens (snd t)"]
    by (cases rc) (auto simp: humitemp_measure_def globals_fit_def case_prod_beta Let_def)
qed

lemma logs_only:
  "g \<in> set (humitemp_logs stale) \<Longrightarrow> g p = Inr q \<Longrightarrow> \<exists>d. q = p\<lparr>db := d\<rparr>"
  "g \<in> set (photo_logs stale) \<Longrightarrow> g p = Inr q \<Longrightarrow> \<exists>d. q = p\<lparr>db := d\<rparr>"
  "g \<in> set (magnetic_logs stale) \<Longrightarrow> g p = Inr q \<Longrightarrow> \<exists>d. q = p\<lparr>db := d\<rparr>"
  "g \<in> set (moisture_logs stale) \<Longrightarrow> g p = Inr q \<Longrightarrow> \<exists>d. q = p\<lparr>db := d\<rparr>"
  by (auto simp: humitemp_logs_def photo_logs_def magnetic_logs_def moisture_logs_def dest: log_value_db)

interpretation humitemp_fits: thread_keeps "humitemp_measure char_signed delivered" humitemp_decisions
  "humitemp_logs stale" "\<lambda>t. globals_fit (snd t)"
  by (rule thread_keeps_planter) (auto simp: humitemp_decisions_def humitemp_measure_fits logs_only(1))

interpretation photo_fits: thread_keeps "photo_measure (fst (photo_get_intensity wr rd temp))" "[led_auto]"
  "photo_logs stale" "\<lambda>t. globals_fit (snd t)"
  by (rule thread_keeps_planter) (auto simp: photo_measure_fits logs_only(2))

interpretation magnetic_fits: thread_keeps "magnetic_measure get later" "[valve_auto]" "magnetic_logs stale"
  "\<lambda>t. globals_fit (snd t)"
  by (rule thread_keeps_planter)
    (use mag_valid_range in \<open>auto simp: magnetic_measure_def globals_fit_def logs_only(3)\<close>)

interpretation moisture_fits: thread_keeps "moisture_measure get" "[drain_auto]" "moisture_logs stale"
  "\<lambda>t. globals_fit (snd t)"
  by (rule thread_keeps_planter)
    (use moisture_range in \<open>auto simp: moisture_measure_def globals_fit_def logs_only(4)\<close>)

text \<open>
  The same contract, for the playlist and the files: a sensor thread is always among the
  steps that leave them alone.
\<close>

interpretation humitemp_files: thread_keeps "humitemp_measure char_signed delivered" humitemp_decisions
  "humitemp_logs stale" "\<lambda>t. same_files p0 (snd t)"
  by (rule thread_keeps_planter)
    (auto simp: humitemp_decisions_def humitemp_measure_def same_files_def case_prod_beta Let_def logs_only(1)
      split: option.split)

interpretation photo_files: thread_keeps "photo_measure v" "[led_auto]" "photo_logs stale" "\<lambda>t. same_files p0 (snd t)"
  by (rule thread_keeps_planter) (auto simp: photo_measure_def same_files_def case_prod_beta Let_def logs_only(2))

interpretation magnetic_files: thread_keeps "magnetic_measure get later" "[valve_auto]" "magnetic_logs stale"
  "\<lambda>t. same_files p0 (snd t)"
  by (rule thread_keeps_planter) (auto simp: magnetic_measure_def same_files_def logs_only(3))

interpretation moisture_files: thread_keeps "moisture_measure get" "[drain_auto]" "moisture_logs stale"
  "\<lambda>t. same_files p0 (snd t)"
  by (rule thread_keeps_planter) (auto simp: moisture_measure_def same_files_def logs_only(4))

section \<open>Every reachable state\<close>

lemma main_loop_fits: "main_loop rc p = Inr (started, q) \<Longrightarrow> globals_fit p \<Longrightarrow> globals_fit q"
  by (auto simp: main_loop_def rbind_eq_Inr mq_poll_def mq_receive_def
      split: option.splits list.splits if_splits)

lemma fits_step:
  assumes "globals_fit (core s)" and "sys_step s s'"
  shows "globals_fit (core s')"
  using assms(2)
proof (cases rule: sys_stepE [consumes 1, case_names humitemp photo magnetic moisture main request])
  case (humitemp char_signed delivered stale st cmd p)
  then show ?thesis using humitemp_fits.step_J [OF humitemp(2)] assms(1) by simp
next
  case (photo wr rd temp stale st cmd p)
  then show ?thesis using photo_fits.step_J [OF photo(2)] assms(1) by simp
next
  case (magnetic get later stale st cmd p)
  then show ?thesis using magnetic_fits.step_J [OF magnetic(2)] assms(1) by simp
next
  case (moisture get stale st cmd p)
  then show ?thesis using moisture_fits.step_J [OF moisture(2)] assms(1) by simp
next
  case (main accept_rc started p)
  then show ?thesis using main_loop_fits assms(1) by simp
next
  case (request env c p c')
  then show ?thesis using globals_fit.socket_handler_J [OF request(2) _ request(3,4)] assms(1) by simp
qed

interpretation fits: transition_system sys_step "\<lambda>s. globals_fit (core s)"
  by unfold_locales (rule fits_step)

text \<open>
  A step of a sensor thread, of the main loop, or of a request other than upload and deletion,
  is one of the steps of theory \<open>Locking\<close>.
\<close>

lemma sensor_steps_same_files:
  "thread_step (humitemp_measure char_signed delivered) humitemp_decisions (humitemp_logs stale) st (cmd, p) =
     Inr (st', cmd', q) \<Longrightarrow> same_files p q"
  "thread_step (photo_measure v) [led_auto] (photo_logs stale) st (cmd, p) = Inr (st', cmd', q) \<Longrightarrow> same_files p q"
  "thread_step (magnetic_measure get later) [valve_auto] (magnetic_logs stale) st (cmd, p) = Inr (st', cmd', q) \<Longrightarrow>
     same_files p q"
  "thread_step (moisture_measure get) [drain_auto] (moisture_logs stale) st (cmd, p) = Inr (st', cmd', q) \<Longrightarrow>
     same_files p q"
  using humitemp_files.step_J [of char_signed delivered stale st "(cmd, p)" st' "(cmd', q)" p]
    photo_files.step_J [of v stale st "(cmd, p)" st' "(cmd', q)" p]
    magnetic_files.step_J [of get later stale st "(cmd, p)" st' "(cmd', q)" p]
    moisture_files.step_J [of get stale st "(cmd, p)" st' "(cmd', q)" p]
  by (auto simp: same_files_def)

section \<open>The start, and the texts\<close>

text \<open>The variables of static storage before \<open>main\<close>: zero. The boundaries \<open>main\<close> sets itself.\<close>

definition globals_zero :: "planter \<Rightarrow> bool" where
  "globals_zero p \<longleftrightarrow> g_humi p = 0 \<and> g_temp p = 0 \<and> g_photo p = 0 \<and> g_magnet p = 0 \<and> g_moisture p = 0 \<and>
     g_mode p = 0 \<and> current_music p = []"

lemma main_init_fits:
  assumes "globals_zero p" and "main_init stale rc env dir db_ok mq_rc left p = Some (Inr q)"
  shows "globals_fit q"
proof -
  have "globals_fit (boundary_init (states_init (devices_init rc p)))"
    using assms(1)
    by (simp add: globals_fit_def globals_zero_def boundary_init_def boundary_update_def states_init_def
        devices_init_def Let_def boundary_consts in_i32_def NETWORK_BUFSIZE_def no_nul_def)
  then show ?thesis using assms(2)
    by (auto simp: main_init_def Let_def rbind_eq_Inr message_queue_init_def globals_fit_def
        split: option.splits sum.splits)
qed

lemma texts_fit:
  assumes "globals_fit p" and "states_valid p" and "g_mode p = 0 \<or> g_mode p = 1"
  shows "sprintf_buf (state_text p) = Inr (state_text p)"
    and "sprintf_buf (sensor_text p) = Inr (sensor_text p)"
    and "sprintf_buf (lines_of (boundary_values p)) = Inr (lines_of (boundary_values p))"
    and "sprintf_buf (lines_of [g_mode p]) = Inr (lines_of [g_mode p])"
proof -
  have fits: "sprintf_buf (lines_of vs) = Inr (lines_of vs)" if "\<forall>v \<in> set vs. in_i32 v" "length vs \<le> 6" for vs
    using lines_of_length [of vs] that by (simp add: sprintf_buf_def NETWORK_BUFSIZE_def)
  have state: "in_i32 v" if "v \<in> {1, 2} \<or> v \<in> {3, 4, 13} \<or> v \<in> {5, 6} \<or> v \<in> {7, 8} \<or> v \<in> {9, 10} \<or> v \<in> {11, 12}"
    for v using that by (elim disjE) (simp_all add: in_i32_def, auto)
  show "sprintf_buf (state_text p) = Inr (state_text p)" unfolding state_text_def
    by (rule fits) (use assms(2) in \<open>simp_all add: states_valid_def state del: insert_iff\<close>)
  show "sprintf_buf (sensor_text p) = Inr (sensor_text p)" unfolding sensor_text_def
    by (rule fits) (use assms(1) in \<open>auto simp: globals_fit_def in_i32_def\<close>)
  show "sprintf_buf (lines_of (boundary_values p)) = Inr (lines_of (boundary_values p))"
    unfolding boundary_values_def by (rule fits) (use assms(1) in \<open>auto simp: globals_fit_def\<close>)
  show "sprintf_buf (lines_of [g_mode p]) = Inr (lines_of [g_mode p])"
    by (rule fits) (use assms(3) in \<open>auto simp: in_i32_def\<close>)
qed

end
