(* ===== verification/Actions.thy ===== *)
theory Actions
  imports Typing
begin

text \<open>
  \<open>message_queue_handler\<close> taken apart into its system calls and assignments. A call is the list
  of the actions still to be done; the last one stores the state variable. Every action belongs
  to one device: it reads and writes the part of the state that makes up this device, and
  nothing else.
\<close>

section \<open>The handler, action by action\<close>

datatype act =
    Connect int | Disconnect int       \<comment> \<open>the ioctl of \<open>relay_connect\<close>, \<open>relay_disconnect\<close>\<close>
  | FanPulse int | FanDuty             \<comment> \<open>\<open>duty.pulse_width\<close> of the fan, and its ioctl\<close>
  | ServoPulse int | ServoDuty
  | Count | Button ioc                 \<comment> \<open>\<open>cnt++\<close>, and an ioctl of the humidifier\<close>
  | IfCount int "act list" "act list"  \<comment> \<open>\<open>if (cnt % 3 == r)\<close>\<close>
  | Nap nat
  | Store int                          \<comment> \<open>the assignment to the state variable\<close>

definition handler_state :: "int \<Rightarrow> planter \<Rightarrow> planter" where
  "handler_state mq_cmd p =
     (if mq_cmd = MQ_CMD_LED_ON then p\<lparr>g_state_led := STATE_LED_ON\<rparr>
      else if mq_cmd = MQ_CMD_LED_OFF then p\<lparr>g_state_led := STATE_LED_OFF\<rparr>
      else if mq_cmd = MQ_CMD_FAN_ON then p\<lparr>g_state_fan := STATE_FAN_ON\<rparr>
      else if mq_cmd = MQ_CMD_FAN_OFF then p\<lparr>g_state_fan := STATE_FAN_OFF\<rparr>
      else if mq_cmd = MQ_CMD_DRAIN_OPEN then p\<lparr>g_state_drain := STATE_DRAIN_OPEN\<rparr>
      else if mq_cmd = MQ_CMD_DRAIN_CLOSE then p\<lparr>g_state_drain := STATE_DRAIN_CLOSE\<rparr>
      else if mq_cmd = MQ_CMD_SOLENOID_OPEN then p\<lparr>g_state_solenoid := STATE_SOLENOID_OPEN\<rparr>
      else if mq_cmd = MQ_CMD_SOLENOID_CLOSE then p\<lparr>g_state_solenoid := STATE_SOLENOID_CLOSE\<rparr>
      else if mq_cmd = MQ_CMD_HUMIDIFIER_ON then p\<lparr>g_state_humidifier := STATE_HUMIDIFIER_ON\<rparr>
      else if mq_cmd = MQ_CMD_HUMIDIFIER_OFF then p\<lparr>g_state_humidifier := STATE_HUMIDIFIER_OFF\<rparr>
      else if mq_cmd = MQ_CMD_DRYER_ON then p\<lparr>g_state_dryer := STATE_DRYER_ON\<rparr>
      else if mq_cmd = MQ_CMD_DRYER_OFF then p\<lparr>g_state_dryer := STATE_DRYER_OFF\<rparr>
      else if mq_cmd = MQ_CMD_FAN_VERY_FAST then p\<lparr>g_state_fan := STATE_FAN_VERY_FAST\<rparr>
      else p)"

text \<open>One action: the new state, and the actions a taken branch adds.\<close>

fun exec_act :: "act \<Rightarrow> planter \<Rightarrow> planter \<times> act list" where
  "exec_act (Connect ch) p = (p\<lparr>dev := snd (relay_connect ch (dev p))\<rparr>, [])"
| "exec_act (Disconnect ch) p = (p\<lparr>dev := snd (relay_disconnect ch (dev p))\<rparr>, [])"
| "exec_act (FanPulse pw) p = (p\<lparr>dev := (dev p)\<lparr>fan_duty := (fan_duty (dev p))\<lparr>pulse_width := pw\<rparr>\<rparr>\<rparr>, [])"
| "exec_act FanDuty p =
     (p\<lparr>dev := sys_ioctl (fd_fan (dev p)) PWM_FAN_DUTYRATE (Some (fan_duty (dev p))) (dev p)\<rparr>, [])"
| "exec_act (ServoPulse pw) p = (p\<lparr>dev := (dev p)\<lparr>servo_duty := (servo_duty (dev p))\<lparr>pulse_width := pw\<rparr>\<rparr>\<rparr>, [])"
| "exec_act ServoDuty p =
     (p\<lparr>dev := sys_ioctl (fd_servo (dev p)) MG995_PWM_DUTYRATE (Some (servo_duty (dev p))) (dev p)\<rparr>, [])"
| "exec_act Count p = (p\<lparr>dev := (dev p)\<lparr>cnt := wrap32 (cnt (dev p) + 1)\<rparr>\<rparr>, [])"
| "exec_act (Button cmd) p = (p\<lparr>dev := sys_ioctl (fd_humidifier (dev p)) cmd None (dev p)\<rparr>, [])"
| "exec_act (IfCount r as bs) p = (p, if cnt (dev p) smod 3 = r then as else bs)"
| "exec_act (Nap n) p = (p\<lparr>dev := usleep n (dev p)\<rparr>, [])"
| "exec_act (Store c) p = (handler_state c p, [])"

definition fan_rotate_acts :: "int \<Rightarrow> act list" where
  "fan_rotate_acts speed =
     Connect 3 # (if speed \<ge> 0 \<and> speed < 11 then [FanPulse (PWM_FAN_SPEED speed), FanDuty] else [])"

definition servo_acts :: "int \<Rightarrow> act list" where
  "servo_acts pw = [ServoPulse pw, ServoDuty, Nap 1000000]"

definition push_acts :: "act list" where
  "push_acts = [Count, Button HUMIDIFIER_LOW, Nap 200000, Button HUMIDIFIER_HIGH]"

definition push_2_acts :: "act list" where
  "push_2_acts = push_acts @ [Nap 500000] @ push_acts"

definition handler_acts :: "int \<Rightarrow> act list" where
  "handler_acts mq_cmd =
     (if mq_cmd = MQ_CMD_LED_ON then [Connect 1]
      else if mq_cmd = MQ_CMD_LED_OFF then [Disconnect 1]
      else if mq_cmd = MQ_CMD_FAN_ON then fan_rotate_acts FAN_SPEED_FAST
      else if mq_cmd = MQ_CMD_FAN_OFF then [Disconnect 3]
      else if mq_cmd = MQ_CMD_DRAIN_OPEN then servo_acts MG995_PWM_DEGREE_45
      else if mq_cmd = MQ_CMD_DRAIN_CLOSE then servo_acts MG995_PWM_DEGREE_0
      else if mq_cmd = MQ_CMD_SOLENOID_OPEN then [Connect 2]
      else if mq_cmd = MQ_CMD_SOLENOID_CLOSE then [Disconnect 2]
      else if mq_cmd = MQ_CMD_HUMIDIFIER_ON then
        [IfCount 0 push_acts [IfCount 1 [] push_2_acts], Nap 100000]
      else if mq_cmd = MQ_CMD_HUMIDIFIER_OFF then
        [IfCount 0 [] [IfCount 1 push_2_acts push_acts], Nap 100000]
      else if mq_cmd = MQ_CMD_DRYER_ON then [Connect 4]
      else if mq_cmd = MQ_CMD_DRYER_OFF then [Disconnect 4]
      else if mq_cmd = MQ_CMD_FAN_VERY_FAST then fan_rotate_acts FAN_SPEED_VERY_FAST
      else []) @ (if valid_cmd mq_cmd then [Store mq_cmd] else [])"

text \<open>Without interruption the actions are the handler.\<close>

fun weight :: "act \<Rightarrow> nat" where
  "weight (IfCount r as bs) = Suc (sum_list (map weight as) + sum_list (map weight bs))"
| "weight a = 1"

lemma exec_weight: "exec_act a p = (p', branch) \<Longrightarrow> sum_list (map weight branch) < weight a"
  by (cases a) auto

function run_acts :: "act list \<Rightarrow> planter \<Rightarrow> planter" where
  "run_acts [] p = p"
| "run_acts (a # as) p = (case exec_act a p of (p', branch) \<Rightarrow> run_acts (branch @ as) p')"
  by pat_completeness auto
termination
  by (relation "measure (\<lambda>(as, p). sum_list (map weight as))") (auto dest: exec_weight [OF sym])

lemma run_append [simp]: "run_acts (as @ bs) p = run_acts bs (run_acts as p)"
  by (induction as p rule: run_acts.induct) (auto split: prod.splits)

lemma sys_ioctl_static [simp]:
  "os_open (sys_ioctl fd cmd arg w) = os_open w" "pwm_result (sys_ioctl fd cmd arg w) = pwm_result w"
  "files (sys_ioctl fd cmd arg w) = files w" "fd_relay (sys_ioctl fd cmd arg w) = fd_relay w"
  "fd_fan (sys_ioctl fd cmd arg w) = fd_fan w" "fd_servo (sys_ioctl fd cmd arg w) = fd_servo w"
  "fd_humidifier (sys_ioctl fd cmd arg w) = fd_humidifier w" "fan_duty (sys_ioctl fd cmd arg w) = fan_duty w"
  "servo_duty (sys_ioctl fd cmd arg w) = servo_duty w" "cnt (sys_ioctl fd cmd arg w) = cnt w"
  by (simp_all add: sys_ioctl_def split: option.split)

lemma run_handler: "run_acts (handler_acts c) p = message_queue_handler c p"
proof (cases "valid_cmd c")
  case True
  have push: "run_acts push_acts p = p\<lparr>dev := humidifier_push (dev p)\<rparr>" for p
    by (simp add: push_acts_def humidifier_push_def Let_def usleep_def)
  have push2: "run_acts push_2_acts p = p\<lparr>dev := humidifier_push_2 (dev p)\<rparr>" for p
    by (simp add: push_2_acts_def push humidifier_push_2_def)
  have servo: "run_acts (servo_acts pw) p = p\<lparr>dev := servo_set pw (dev p)\<rparr>" for pw p
    by (simp add: servo_acts_def servo_set_def Let_def)
  have fan: "run_acts (fan_rotate_acts sp) p = p\<lparr>dev := snd (fan_rotate sp (dev p))\<rparr>" for sp p
    by (simp add: fan_rotate_acts_def fan_rotate_def Let_def)
  show ?thesis
    using True unfolding valid_cmd_iff
    by (elim disjE) (simp_all add: handler_acts_def message_queue_handler_def handler_state_def cmd_defs valid_cmd_def
        push push2 servo fan led_on_def led_off_def fan_off_def solenoid_open_def solenoid_close_def
        dryer_on_def dryer_off_def drain_open_def drain_close_def servo_rotate_def
        SERVO_0_DEGREE_def SERVO_45_DEGREE_def humidifier_on_def humidifier_off_def)
next
  case False
  then show ?thesis by (auto simp: handler_acts_def handler_invalid valid_cmd_iff cmd_defs)
qed

section \<open>What belongs to a device\<close>

datatype device = Lamp | Fan | Drain | Valve | Humidifier | Dryer

definition device_of :: "int \<Rightarrow> device option" where
  "device_of c =
     (if c \<in> {1, 2} then Some Lamp else if c \<in> {3, 4, 13} then Some Fan else if c \<in> {5, 6} then Some Drain
      else if c \<in> {7, 8} then Some Valve else if c \<in> {9, 10} then Some Humidifier
      else if c \<in> {11, 12} then Some Dryer else None)"

definition channel_of :: "device \<Rightarrow> int" where
  "channel_of d = (case d of Lamp \<Rightarrow> 1 | Valve \<Rightarrow> 2 | Fan \<Rightarrow> 3 | Dryer \<Rightarrow> 4 | _ \<Rightarrow> 0)"

fun belongs :: "device \<Rightarrow> act \<Rightarrow> bool" where
  "belongs d (Connect ch) = (ch = channel_of d)"
| "belongs d (Disconnect ch) = (ch = channel_of d)"
| "belongs d (FanPulse pw) = (d = Fan)"
| "belongs d FanDuty = (d = Fan)"
| "belongs d (ServoPulse pw) = (d = Drain)"
| "belongs d ServoDuty = (d = Drain)"
| "belongs d Count = (d = Humidifier)"
| "belongs d (Button cmd) = (d = Humidifier \<and> (cmd = HUMIDIFIER_LOW \<or> cmd = HUMIDIFIER_HIGH))"
| "belongs d (IfCount r as bs) = (d = Humidifier \<and> list_all (belongs d) as \<and> list_all (belongs d) bs)"
| "belongs d (Nap n) = True"
| "belongs d (Store c) = (device_of c = Some d)"

text \<open>The part of the state that a device and its state variable make up.\<close>

definition device_view :: "device \<Rightarrow> planter \<Rightarrow>
    int option \<times> (int \<times> int) option \<times> pwm_duty option \<times> int \<times> nat \<times> int" where
  "device_view d p =
     (let w = dev p in
      case d of
        Lamp \<Rightarrow> (gpio_level (relay_pin 1) (hw w), None, None, 0, 0, g_state_led p)
      | Valve \<Rightarrow> (gpio_level (relay_pin 2) (hw w), None, None, 0, 0, g_state_solenoid p)
      | Dryer \<Rightarrow> (gpio_level (relay_pin 4) (hw w), None, None, 0, 0, g_state_dryer p)
      | Fan \<Rightarrow> (gpio_level (relay_pin 3) (hw w), pwm_setting 3 (hw w), Some (fan_duty w), 0, 0, g_state_fan p)
      | Drain \<Rightarrow> (None, pwm_setting 2 (hw w), Some (servo_duty w), 0, 0, g_state_drain p)
      | Humidifier \<Rightarrow> (None, None, None, cnt w, presses (hw w), g_state_humidifier p))"

definition files_open :: "world \<Rightarrow> bool" where
  "files_open w \<longleftrightarrow> files w (fd_relay w) = Some RELAY_DEV_PATH \<and> files w (fd_fan w) = Some PWM_FAN_PATH \<and>
     files w (fd_servo w) = Some MG995_PWM_PATH \<and> files w (fd_humidifier w) = Some HUMIDIFIER_PATH"

lemma handler_state_cases:
  "handler_state c p =
     (case device_of c of None \<Rightarrow> p
      | Some Lamp \<Rightarrow> p\<lparr>g_state_led := c\<rparr> | Some Fan \<Rightarrow> p\<lparr>g_state_fan := c\<rparr>
      | Some Drain \<Rightarrow> p\<lparr>g_state_drain := c\<rparr> | Some Valve \<Rightarrow> p\<lparr>g_state_solenoid := c\<rparr>
      | Some Humidifier \<Rightarrow> p\<lparr>g_state_humidifier := c\<rparr> | Some Dryer \<Rightarrow> p\<lparr>g_state_dryer := c\<rparr>)"
  by (simp add: handler_state_def device_of_def cmd_defs)

lemma handler_state_keeps [simp]:
  "dev (handler_state c p) = dev p" "mq (handler_state c p) = mq p" "mqd_main (handler_state c p) = mqd_main p"
  "g_mode (handler_state c p) = g_mode p"
  by (simp_all add: handler_state_def)

lemma store_view:
  "device_of c = Some d \<Longrightarrow> e \<noteq> d \<Longrightarrow> device_view e (handler_state c p) = device_view e p"
  "device_of c = Some d \<Longrightarrow> device_view d p = device_view d q \<Longrightarrow> device_view d (handler_state c p) = device_view d (handler_state c q)"
  by (cases d; cases e; simp add: handler_state_cases device_view_def Let_def)
    (cases d; simp add: handler_state_cases device_view_def Let_def)

text \<open>A relay channel drives its own pin; the PWM ioctls and the button their own lines.\<close>

lemma relay_log:
  assumes "files_open w"
  shows "snd (relay_connect (channel_of d) w) =
      (if channel_of d = 0 then w else w\<lparr>hw := hw w @ [GpioSet (relay_pin (channel_of d)) 0]\<rparr>)"
    "snd (relay_disconnect (channel_of d) w) =
      (if channel_of d = 0 then w else w\<lparr>hw := hw w @ [GpioSet (relay_pin (channel_of d)) 1]\<rparr>)"
  using assms
  by (cases d; simp add: files_open_def relay_connect_def relay_disconnect_def channel_of_def sys_ioctl_def relay_pin_def)+

lemma duty_log:
  assumes "files_open w"
  shows "sys_ioctl (fd_fan w) PWM_FAN_DUTYRATE (Some u) w = w\<lparr>hw := hw w @ [PwmConfig 3 (pulse_width u) (period u)]\<rparr>"
    "sys_ioctl (fd_servo w) MG995_PWM_DUTYRATE (Some u) w = w\<lparr>hw := hw w @ [PwmConfig 2 (pulse_width u) (period u)]\<rparr>"
    "sys_ioctl (fd_humidifier w) HUMIDIFIER_LOW None w = w\<lparr>hw := hw w @ [GpioSet (GPG 15) 0]\<rparr>"
    "sys_ioctl (fd_humidifier w) HUMIDIFIER_HIGH None w = w\<lparr>hw := hw w @ [GpioSet (GPG 15) 1]\<rparr>"
  using assms by (simp_all add: files_open_def sys_ioctl_def)

lemma view_relay:
  "device_view e (p\<lparr>dev := (dev p)\<lparr>hw := hw (dev p) @ [GpioSet (relay_pin (channel_of d)) v]\<rparr>\<rparr>) =
     (if e = d \<and> channel_of d \<noteq> 0 then (Some v, snd (device_view e p)) else device_view e p)"
  by (cases d; cases e; simp add: device_view_def Let_def channel_of_def relay_pin_def)

lemma view_other_log:
  "device_view e (p\<lparr>dev := (dev p)\<lparr>hw := hw (dev p) @ [GpioSet (GPG 15) v]\<rparr>\<rparr>) =
     (case device_view e p of (l, m, u, c, n, s) \<Rightarrow> (l, m, u, c, if e = Humidifier \<and> v = 0 then Suc n else n, s))"
  "device_view e (p\<lparr>dev := (dev p)\<lparr>hw := hw (dev p) @ [PwmConfig ch pw per]\<rparr>\<rparr>) =
     (case device_view e p of (l, m, u, c, n, s) \<Rightarrow>
        (l, if e = Fan \<and> ch = 3 \<or> e = Drain \<and> ch = 2 then Some (pw, per) else m, u, c, n, s))"
  "device_view e (p\<lparr>dev := (dev p)\<lparr>hw := hw (dev p) @ [Sleep k]\<rparr>\<rparr>) = device_view e p"
  by (cases e; simp add: device_view_def Let_def relay_pin_def)+

lemma view_vars:
  "device_view e (p\<lparr>dev := (dev p)\<lparr>fan_duty := u\<rparr>\<rparr>) =
     (case device_view e p of (l, m, v, c, n, s) \<Rightarrow> (l, m, if e = Fan then Some u else v, c, n, s))"
  "device_view e (p\<lparr>dev := (dev p)\<lparr>servo_duty := u\<rparr>\<rparr>) =
     (case device_view e p of (l, m, v, c, n, s) \<Rightarrow> (l, m, if e = Drain then Some u else v, c, n, s))"
  "device_view e (p\<lparr>dev := (dev p)\<lparr>cnt := k\<rparr>\<rparr>) =
     (case device_view e p of (l, m, v, c, n, s) \<Rightarrow> (l, m, v, if e = Humidifier then k else c, n, s))"
  by (cases e; simp add: device_view_def Let_def)+

lemma view_reads:
  "device_view Fan p = device_view Fan q \<Longrightarrow> fan_duty (dev p) = fan_duty (dev q)"
  "device_view Drain p = device_view Drain q \<Longrightarrow> servo_duty (dev p) = servo_duty (dev q)"
  "device_view Humidifier p = device_view Humidifier q \<Longrightarrow> cnt (dev p) = cnt (dev q)"
  by (simp_all add: device_view_def Let_def)

lemmas view_simps = relay_log duty_log view_relay view_other_log view_vars usleep_def

lemma exec_opened: "files_open (dev p) \<Longrightarrow> files_open (dev (fst (exec_act a p)))"
  by (cases a) (simp_all add: files_open_def relay_connect_def relay_disconnect_def usleep_def)

text \<open>An action of a device leaves the others alone, and does to its own what it finds there.\<close>

lemma exec_frame:
  assumes "files_open (dev p)" and "belongs d a" and "e \<noteq> d"
  shows "device_view e (fst (exec_act a p)) = device_view e p"
proof (cases a)
  case (Store c)
  then show ?thesis using assms store_view(1) by simp
qed (use assms in \<open>auto simp: view_simps split: prod.split\<close>)

lemma exec_local:
  assumes "files_open (dev p)" and "files_open (dev q)" and "belongs d a" and "device_view d p = device_view d q"
  shows "snd (exec_act a p) = snd (exec_act a q)" "device_view d (fst (exec_act a p)) = device_view d (fst (exec_act a q))"
proof -
  have reads: "d = Fan \<Longrightarrow> fan_duty (dev p) = fan_duty (dev q)" "d = Drain \<Longrightarrow> servo_duty (dev p) = servo_duty (dev q)"
    "d = Humidifier \<Longrightarrow> cnt (dev p) = cnt (dev q)"
    using view_reads [of p q] assms(4) by simp_all
  have "snd (exec_act a p) = snd (exec_act a q) \<and> device_view d (fst (exec_act a p)) = device_view d (fst (exec_act a q))"
  proof (cases a)
    case (Store c)
    then show ?thesis using assms(3,4) store_view(2) [of c d p q] by simp
  next
    case (Button cmd)
    then have "d = Humidifier" "cmd = HUMIDIFIER_LOW \<or> cmd = HUMIDIFIER_HIGH" using assms(3) by simp_all
    then show ?thesis using assms(1,2,4) Button by (elim disjE) (simp_all add: view_simps)
  qed (use assms reads in \<open>simp_all add: view_simps\<close>)
  then show "snd (exec_act a p) = snd (exec_act a q)" "device_view d (fst (exec_act a p)) = device_view d (fst (exec_act a q))" by simp_all
qed

lemma exec_belongs: "belongs d a \<Longrightarrow> list_all (belongs d) (snd (exec_act a p))"
  by (cases a) auto

lemma run_opened: "files_open (dev p) \<Longrightarrow> files_open (dev (run_acts as p))"
proof (induction as p rule: run_acts.induct)
  case (2 a as p)
  then show ?case using exec_opened [of p a] by (cases "exec_act a p") simp
qed simp

lemma run_frame:
  "files_open (dev p) \<Longrightarrow> list_all (belongs d) as \<Longrightarrow> e \<noteq> d \<Longrightarrow> device_view e (run_acts as p) = device_view e p"
proof (induction as p rule: run_acts.induct)
  case (2 a as p)
  then show ?case
    using exec_opened [of p a] exec_frame [of p d a e] exec_belongs [of d a p] by (cases "exec_act a p") simp
qed simp

lemma run_local:
  "files_open (dev p) \<Longrightarrow> files_open (dev q) \<Longrightarrow> list_all (belongs d) as \<Longrightarrow> device_view d p = device_view d q \<Longrightarrow>
   device_view d (run_acts as p) = device_view d (run_acts as q)"
proof (induction as p arbitrary: q rule: run_acts.induct)
  case (2 a as p)
  have a: "belongs d a" "list_all (belongs d) as" using "2.prems"(3) by simp_all
  note e = exec_opened [OF "2.prems"(1), of a] exec_opened [OF "2.prems"(2), of a]
    exec_local [OF "2.prems"(1,2) a(1) "2.prems"(4)] exec_belongs [OF a(1), of p]
  obtain p' branch where p: "exec_act a p = (p', branch)" by fastforce
  then obtain q' where q: "exec_act a q = (q', branch)" using e(3) by (metis prod.collapse snd_conv)
  have "device_view d (run_acts (branch @ as) p') = device_view d (run_acts (branch @ as) q')"
    by (rule "2.IH" [OF p [symmetric]]) (use e p q a(2) in simp_all)
  then show ?case by (simp add: p q)
qed simp

lemma device_of_valid: "device_of c = None \<longleftrightarrow> \<not> valid_cmd c"
  by (auto simp: device_of_def valid_cmd_iff)

lemma handler_acts_belong: "device_of c = Some d \<Longrightarrow> list_all (belongs d) (handler_acts c)"
proof -
  assume d: "device_of c = Some d"
  then have "valid_cmd c" using device_of_valid [of c] by auto
  then show ?thesis
    unfolding valid_cmd_iff
    by (elim disjE) (use d in \<open>simp_all add: handler_acts_def cmd_defs device_of_def valid_cmd_def channel_of_def
      fan_rotate_acts_def servo_acts_def push_acts_def push_2_acts_def split: device.split\<close>)
qed

lemma handler_acts_None: "device_of c = None \<Longrightarrow> handler_acts c = []"
  by (auto simp: device_of_valid handler_acts_def cmd_defs valid_cmd_iff)

section \<open>Agreement, device by device\<close>

definition agrees_on :: "device \<Rightarrow> planter \<Rightarrow> bool" where
  "agrees_on d p =
     (let w = panel_of (dev p) in
      case d of
        Lamp \<Rightarrow> g_state_led p = STATE_LED_ON \<longleftrightarrow> led_lit w
      | Valve \<Rightarrow> g_state_solenoid p = STATE_SOLENOID_OPEN \<longleftrightarrow> valve_open w
      | Dryer \<Rightarrow> g_state_dryer p = STATE_DRYER_ON \<longleftrightarrow> dryer_powered w
      | Humidifier \<Rightarrow> mist w = (if g_state_humidifier p = STATE_HUMIDIFIER_ON then 1 else 0)
      | Fan \<Rightarrow> (fan_powered w \<longleftrightarrow> g_state_fan p \<noteq> STATE_FAN_OFF) \<and>
          (g_state_fan p = STATE_FAN_ON \<longrightarrow> fan_pwm w = Some (24000, PWM_FAN_PERIOD)) \<and>
          (g_state_fan p = STATE_FAN_VERY_FAST \<longrightarrow> fan_pwm w = Some (40000, PWM_FAN_PERIOD))
      | Drain \<Rightarrow> g_state_drain p = STATE_DRAIN_CLOSE \<longrightarrow> drain_pwm w = Some (MG995_PWM_DEGREE_0, MG995_PWM_PERIOD))"

definition ready_on :: "device \<Rightarrow> world \<Rightarrow> bool" where
  "ready_on d w =
     (case d of Fan \<Rightarrow> period (fan_duty w) = PWM_FAN_PERIOD
      | Drain \<Rightarrow> period (servo_duty w) = MG995_PWM_PERIOD
      | Humidifier \<Rightarrow> cnt w = wrap32 (int (presses (hw w)))
      | _ \<Rightarrow> True)"

definition ok_on :: "device \<Rightarrow> planter \<Rightarrow> bool" where
  "ok_on d p \<longleftrightarrow> ready_on d (dev p) \<and> agrees_on d p"

lemma ok_on_view: "device_view d p = device_view d q \<Longrightarrow> ok_on d p = ok_on d q"
  by (cases d) (auto simp: ok_on_def ready_on_def agrees_on_def device_view_def Let_def panel_of_def relay_closed_def)

lemma agrees_ok_on: "agrees p \<Longrightarrow> ok_on d p"
  by (cases d) (simp_all add: agrees_def ok_on_def ready_def ready_on_def agrees_on_def Let_def cmd_defs del: mist_panel_of)

lemma ready_opened: "ready w \<Longrightarrow> files_open w"
  by (simp add: ready_def files_open_def)

text \<open>
  What no action takes away, whatever the calls: the open files and the periods. \<open>counted\<close> says
  how far the count of the presses is ahead of the button.
\<close>

definition steady :: "world \<Rightarrow> bool" where
  "steady w \<longleftrightarrow> files_open w \<and> period (fan_duty w) = PWM_FAN_PERIOD \<and> period (servo_duty w) = MG995_PWM_PERIOD"

definition counted :: "nat \<Rightarrow> world \<Rightarrow> bool" where
  "counted k w \<longleftrightarrow> cnt w = wrap32 (int (presses (hw w)) + int k)"

lemma ready_steady: "ready w \<longleftrightarrow> steady w \<and> counted 0 w"
  by (auto simp: ready_def steady_def files_open_def counted_def)

lemma exec_steady: "steady (dev p) \<Longrightarrow> steady (dev (fst (exec_act a p)))"
  using exec_opened [of p a]
  by (cases a) (simp_all add: steady_def relay_connect_def relay_disconnect_def usleep_def)

text \<open>
  A whole call leaves its device in agreement, whatever the others are doing: they can be
  thought of as settled.
\<close>

definition repair :: "planter \<Rightarrow> planter" where
  "repair p = p\<lparr>dev := (dev p)
     \<lparr>fan_duty := (fan_duty (dev p))\<lparr>period := PWM_FAN_PERIOD\<rparr>,
      servo_duty := (servo_duty (dev p))\<lparr>period := MG995_PWM_PERIOD\<rparr>,
      cnt := wrap32 (int (presses (hw (dev p))))\<rparr>\<rparr>"

lemma repair_ready: "files_open (dev p) \<Longrightarrow> ready (dev (repair p))"
  by (simp add: files_open_def ready_def repair_def)

lemma repair_view: "ready_on d (dev p) \<Longrightarrow> device_view d (repair p) = device_view d p"
  by (cases d) (simp_all add: repair_def device_view_def ready_on_def Let_def)

lemma handler_ok_ready:
  assumes "device_of c = Some d" and "ready (dev p)" and "presses (hw (dev p)) \<le> 2147483647"
  shows "ok_on d (message_queue_handler c p)"
proof -
  note h = handler_panel [OF assms(2,3), of c]
  have "ready_on d (dev (message_queue_handler c p))"
    using h(1) by (cases d) (simp_all add: ready_def ready_on_def)
  moreover have "agrees_on d (message_queue_handler c p)"
    unfolding agrees_on_def h(2) Let_def
    using assms(1) by (auto simp: device_of_def panel_cmd_def handler_states cmd_defs split: if_splits simp del: mist_panel_of)
  ultimately show ?thesis by (simp add: ok_on_def)
qed

lemma whole_call_ok:
  assumes "device_of c = Some d" and "files_open (dev p)" and "ready_on d (dev p)" and "presses (hw (dev p)) \<le> 2147483647"
  shows "ok_on d (run_acts (handler_acts c) p)"
proof -
  have "device_view d (run_acts (handler_acts c) (repair p)) = device_view d (run_acts (handler_acts c) p)"
    using assms(1-3) ready_opened [OF repair_ready [OF assms(2)]] repair_view [of d p]
    by (intro run_local handler_acts_belong) simp_all
  moreover have "ok_on d (run_acts (handler_acts c) (repair p))"
    unfolding run_handler using assms
    by (intro handler_ok_ready repair_ready) (simp_all add: repair_def)
  ultimately show ?thesis using ok_on_view by blast
qed

end
