(* ===== verification/Races.thy ===== *)
theory Races
  imports Actions
begin

text \<open>
  \<open>message_queue_handler\<close> without a lock. It is called by the main loop and by every request
  thread in \<open>state_change\<close>; the steps are the actions of theory \<open>Actions\<close>, and those of several
  calls interleave with each other and with the rest of the program.
\<close>

section \<open>Calls that interleave\<close>

datatype caller = Main | Client

record racing =
  planter_sys :: system
  calls :: "(caller \<times> int \<times> act list) list"   \<comment> \<open>in the handler: by whom, the command, what is left\<close>
  admitted :: "conn list"                      \<comment> \<open>in \<open>state_change\<close>, after the test of the mode\<close>

definition with_core :: "planter \<Rightarrow> racing \<Rightarrow> racing" where
  "with_core p w = w\<lparr>planter_sys := (planter_sys w)\<lparr>core := p\<rparr>\<rparr>"

definition same_panel :: "planter \<Rightarrow> planter \<Rightarrow> bool" where
  "same_panel p q \<longleftrightarrow> dev q = dev p \<and> g_state_led q = g_state_led p \<and> g_state_fan q = g_state_fan p \<and>
     g_state_solenoid q = g_state_solenoid p \<and> g_state_drain q = g_state_drain p \<and>
     g_state_humidifier q = g_state_humidifier p \<and> g_state_dryer q = g_state_dryer p"

definition without :: "nat \<Rightarrow> 'a list \<Rightarrow> 'a list" where
  "without i xs = take i xs @ drop (Suc i) xs"

text \<open>
  The main loop takes a message when it is not inside a call. A client whose request found the
  manual mode is admitted; it calls the handler when its command has arrived, whatever the
  mode is then. All other steps leave devices and state variables alone.
\<close>

inductive race_step :: "racing \<Rightarrow> racing \<Rightarrow> bool" where
  take_message: "Main \<notin> fst ` set (calls w) \<Longrightarrow> mq_receive (core (planter_sys w)) = (Some m, p) \<Longrightarrow>
      c_str m = Some s \<Longrightarrow>
    race_step w (with_core p w\<lparr>calls := calls w @ [(Main, atoi s, handler_acts (atoi s))]\<rparr>)"
| admit: "g_mode (core (planter_sys w)) = MODE_MANUAL \<Longrightarrow> race_step w (w\<lparr>admitted := admitted w @ [c]\<rparr>)"
| call: "i < length (admitted w) \<Longrightarrow> recv_str (admitted w ! i) = Inr (buf, c) \<Longrightarrow>
    race_step w (w\<lparr>calls := calls w @ [(Client, atoi buf, handler_acts (atoi buf))],
      admitted := without i (admitted w)\<rparr>)"
| action: "i < length (calls w) \<Longrightarrow> calls w ! i = (who, c, a # as) \<Longrightarrow>
      exec_act a (core (planter_sys w)) = (p, branch) \<Longrightarrow>
    race_step w (with_core p w\<lparr>calls := (calls w)[i := (who, c, branch @ as)]\<rparr>)"
| leave: "i < length (calls w) \<Longrightarrow> calls w ! i = (who, c, []) \<Longrightarrow>
    race_step w (w\<lparr>calls := without i (calls w)\<rparr>)"
| other: "sys_step (planter_sys w) s \<Longrightarrow> same_panel (core (planter_sys w)) (core s) \<Longrightarrow>
    race_step w (w\<lparr>planter_sys := s\<rparr>)"

inductive_cases race_stepE: "race_step w w'"

text \<open>
  A run in which no two calls on the same device are in progress at the same time, and one in
  which this holds for a single device: at most one call to it has something left to do.
\<close>

definition apart :: "caller \<times> int \<times> act list \<Rightarrow> caller \<times> int \<times> act list \<Rightarrow> bool" where
  "apart x y \<longleftrightarrow> device_of (fst (snd x)) = None \<or> device_of (fst (snd x)) \<noteq> device_of (fst (snd y))"

definition busy :: "device \<Rightarrow> caller \<times> int \<times> act list \<Rightarrow> bool" where
  "busy d x \<longleftrightarrow> device_of (fst (snd x)) = Some d \<and> snd (snd x) \<noteq> []"

definition lone :: "device \<Rightarrow> (caller \<times> int \<times> act list) list \<Rightarrow> bool" where
  "lone d cs \<longleftrightarrow> length (filter (busy d) cs) \<le> 1"

definition lone_step :: "device \<Rightarrow> racing \<Rightarrow> racing \<Rightarrow> bool" where
  "lone_step d w w' \<longleftrightarrow> race_step w w' \<and> lone d (calls w')"

lemma apart_lone: "sorted_wrt apart cs \<Longrightarrow> lone d cs"
proof (induction cs)
  case (Cons x cs)
  show ?case
  proof (cases "busy d x")
    case True
    then have "filter (busy d) cs = []" using Cons.prems by (auto simp: busy_def apart_def filter_empty_conv)
    then show ?thesis by (simp add: lone_def)
  qed (use Cons in \<open>simp add: lone_def\<close>)
qed (simp add: lone_def)

text \<open>What is left of the call to a device.\<close>

definition remaining :: "device \<Rightarrow> (caller \<times> int \<times> act list) list \<Rightarrow> act list" where
  "remaining d cs = concat (map (\<lambda>(who, c, as). if device_of c = Some d then as else []) cs)"

lemma remaining_simps [simp]:
  "remaining d [] = []" "remaining d ((who, c, as) # cs) = (if device_of c = Some d then as else []) @ remaining d cs"
  "remaining d (cs @ ds) = remaining d cs @ remaining d ds"
  by (simp_all add: remaining_def)

lemma remaining_empty: "remaining d cs = [] \<longleftrightarrow> filter (busy d) cs = []"
  by (induction cs) (auto simp: remaining_def busy_def split: prod.split)

lemma remaining_other:
  assumes "lone d (cs @ (who, c, as) # ds)" and "device_of c = Some d" and "as \<noteq> []"
  shows "remaining d cs = []" "remaining d ds = []"
  using assms unfolding remaining_empty by (simp_all add: lone_def busy_def)

section \<open>The queue and the mode, during calls\<close>

definition channel_ok :: "planter \<Rightarrow> bool" where
  "channel_ok p \<longleftrightarrow> queue_ok p \<and> (g_mode p = 0 \<or> g_mode p = 1)"

lemma decision_channel:
  assumes "f \<in> {fan_auto, humidifier_auto, dryer_auto, cooler_auto, led_auto, valve_auto, drain_auto}"
    and "f t = Inr t'" and "thread_ok t"
  shows "thread_ok t' \<and> g_mode (snd t') = g_mode (snd t)"
proof -
  have "\<exists>cs. sends_of cs t (f t)" using assms(1,3) by (blast dest: auto_demands)
  then obtain cmd ms where "t' = (cmd, (snd t)\<lparr>mq := ms\<rparr>)" "thread_ok t'"
    using assms(2) by (auto simp: sends_of_def)
  then show ?thesis by simp
qed

text \<open>The buffer of a sensor thread, the queue, and the mode.\<close>

definition thread_channel :: "thread \<Rightarrow> bool" where
  "thread_channel t \<longleftrightarrow> length (fst t) = MQ_MSG_SIZE \<and> channel_ok (snd t)"

lemma thread_keeps_channel:
  assumes "\<And>t. fst (snd (sample t)) = fst t \<and> mq (snd (snd (sample t))) = mq (snd t) \<and>
      mqd_main (snd (snd (sample t))) = mqd_main (snd t) \<and> g_mode (snd (snd (sample t))) = g_mode (snd t)"
    and "set decisions \<subseteq> {fan_auto, humidifier_auto, dryer_auto, cooler_auto, led_auto, valve_auto, drain_auto}"
    and "\<And>g p q. g \<in> set logs \<Longrightarrow> g p = Inr q \<Longrightarrow> \<exists>d. q = p\<lparr>db := d\<rparr>"
  shows "thread_keeps sample decisions logs thread_channel"
proof
  show "thread_channel (snd (sample t))" if "thread_channel t" for t
    using that assms(1) [of t] by (simp add: thread_channel_def channel_ok_def queue_ok_def)
  show "thread_channel t'" if "f \<in> set decisions" "f t = Inr t'" "thread_channel t" for f t t'
  proof -
    have "f \<in> {fan_auto, humidifier_auto, dryer_auto, cooler_auto, led_auto, valve_auto, drain_auto}"
      using that(1) assms(2) by blast
    moreover have "thread_ok t" using that(3) by (simp add: thread_channel_def channel_ok_def thread_ok_def)
    ultimately have "thread_ok t' \<and> g_mode (snd t') = g_mode (snd t)" using that(2) by (intro decision_channel)
    then show ?thesis using that(3) by (simp add: thread_channel_def channel_ok_def thread_ok_def)
  qed
  show "thread_channel (cmd, q)" if "g \<in> set logs" "g p = Inr q" "thread_channel (cmd, p)" for cmd g p q
    using assms(3) [OF that(1,2)] that(3) by (auto simp: thread_channel_def channel_ok_def queue_ok_def)
qed

interpretation humitemp_channel: thread_keeps "humitemp_measure char_signed delivered" humitemp_decisions
  "humitemp_logs stale" thread_channel
  by (rule thread_keeps_channel)
    (auto simp: humitemp_decisions_def humitemp_measure_def case_prod_beta Let_def logs_only(1) split: option.split)

interpretation photo_channel: thread_keeps "photo_measure v" "[led_auto]" "photo_logs stale" thread_channel
  by (rule thread_keeps_channel) (auto simp: photo_measure_def case_prod_beta Let_def logs_only(2))

interpretation magnetic_channel: thread_keeps "magnetic_measure get later" "[valve_auto]" "magnetic_logs stale"
  thread_channel
  by (rule thread_keeps_channel) (auto simp: magnetic_measure_def logs_only(3))

interpretation moisture_channel: thread_keeps "moisture_measure get" "[drain_auto]" "moisture_logs stale"
  thread_channel
  by (rule thread_keeps_channel) (auto simp: moisture_measure_def logs_only(4))

interpretation channel_ok: request_invariant channel_ok
proof unfold_locales
  show "channel_ok q" if "channel_ok p" "length cmd = MQ_MSG_SIZE"
    "receive_boundary_data cmd p c = Some (Inr (q, c'))" for p cmd c q c'
  proof -
    have "queue_ok p" using that(1) by (simp add: channel_ok_def)
    with that(3) show ?thesis using that(2)
      by (rule receive_boundary_keeps) (use that(1) in \<open>simp add: channel_ok_def\<close>)
  qed
  show "channel_ok (p\<lparr>g_mode := xor (g_mode p) 1\<rparr>)" if "channel_ok p" for p
    using that xor_mode [of "g_mode p"] by (auto simp: channel_ok_def queue_ok_def)
qed (simp_all add: channel_ok_def queue_ok_def)

lemma mq_receive_tail:
  "mq_receive p = (Some m, q) \<Longrightarrow> q = p\<lparr>mq := tl (mq p)\<rparr> \<and> m \<in> set (mq p)"
  by (auto simp: mq_receive_def split: if_splits list.splits)

lemma channel_tail: "channel_ok p \<Longrightarrow> channel_ok (p\<lparr>mq := tl (mq p)\<rparr>)"
  by (cases "mq p") (auto simp: channel_ok_def queue_ok_def)

lemma main_loop_channel:
  assumes "main_loop rc p = Inr (started, q)" and "channel_ok p"
  shows "channel_ok q"
proof (cases "mq_receive p")
  case (Pair r p')
  show ?thesis
  proof (cases r)
    case None
    then have "q = p"
      using assms(1) Pair by (auto simp: main_loop_def mq_poll_def mq_receive_def split: if_splits list.splits)
    then show ?thesis using assms(2) by simp
  next
    case (Some m)
    have "\<exists>s. c_str m = Some s \<and> q = message_queue_handler (atoi s) p'"
      using assms(1) by (cases "c_str m") (simp_all add: main_loop_def mq_poll_def Pair Some)
    moreover have "p' = p\<lparr>mq := tl (mq p)\<rparr>" using mq_receive_tail [of p m p'] Pair Some by blast
    ultimately show ?thesis using channel_tail [OF assms(2)] by (auto simp: channel_ok.keep_handler)
  qed
qed

section \<open>The invariant\<close>

definition buffers_ok :: "system \<Rightarrow> bool" where
  "buffers_ok s \<longleftrightarrow> length (cmd_h s) = MQ_MSG_SIZE \<and> length (cmd_p s) = MQ_MSG_SIZE \<and>
     length (cmd_g s) = MQ_MSG_SIZE \<and> length (cmd_m s) = MQ_MSG_SIZE"

lemma sys_step_channel:
  assumes "sys_step s s'" and "buffers_ok s" and "channel_ok (core s)"
  shows "buffers_ok s' \<and> channel_ok (core s')"
  using assms(1)
proof (cases rule: sys_stepE [consumes 1, case_names humitemp photo magnetic moisture main request])
  case (humitemp char_signed delivered stale st cmd p)
  then show ?thesis
    using humitemp_channel.step_J [OF humitemp(2)] assms by (simp add: buffers_ok_def thread_channel_def)
next
  case (photo wr rd temp stale st cmd p)
  then show ?thesis
    using photo_channel.step_J [OF photo(2)] assms by (simp add: buffers_ok_def thread_channel_def)
next
  case (magnetic get later stale st cmd p)
  then show ?thesis
    using magnetic_channel.step_J [OF magnetic(2)] assms by (simp add: buffers_ok_def thread_channel_def)
next
  case (moisture get stale st cmd p)
  then show ?thesis
    using moisture_channel.step_J [OF moisture(2)] assms by (simp add: buffers_ok_def thread_channel_def)
next
  case (main accept_rc started p)
  then show ?thesis using main_loop_channel assms by (auto simp: buffers_ok_def)
next
  case (request env c p c')
  then show ?thesis
    using channel_ok.socket_handler_J [OF request(2)] assms by (simp add: buffers_ok_def)
qed

lemma exec_channel: "channel_ok (fst (exec_act a p)) = channel_ok p"
  by (cases a) (simp_all add: channel_ok_def queue_ok_def)

lemma exec_presses: "presses (hw (dev p)) \<le> presses (hw (dev (fst (exec_act a p))))"
  by (cases a) (simp_all add: presses_relay presses_upd usleep_def)

text \<open>
  Whatever the calls do to each other: the files stay open, the periods set, every call keeps to
  its own device, and the queue and the mode are in order.
\<close>

definition calls_ok :: "(caller \<times> int \<times> act list) list \<Rightarrow> bool" where
  "calls_ok cs \<longleftrightarrow>
     (\<forall>(who, c, as) \<in> set cs. case device_of c of None \<Rightarrow> as = [] | Some d \<Rightarrow> list_all (belongs d) as)"

definition free_inv :: "racing \<Rightarrow> bool" where
  "free_inv w \<longleftrightarrow> buffers_ok (planter_sys w) \<and> channel_ok (core (planter_sys w)) \<and>
     steady (dev (core (planter_sys w))) \<and> calls_ok (calls w)"

lemma remaining_belongs: "calls_ok cs \<Longrightarrow> list_all (belongs d) (remaining d cs)"
  unfolding calls_ok_def remaining_def list_all_iff by (force split: option.splits if_splits)

lemma calls_ok_call: "calls_ok cs \<Longrightarrow> calls_ok (cs @ [(who, c, handler_acts c)])"
  by (auto simp: calls_ok_def handler_acts_None handler_acts_belong split: option.split)

lemma calls_split: "i < length cs \<Longrightarrow> cs ! i = x \<Longrightarrow> cs = take i cs @ x # drop (Suc i) cs"
  using id_take_nth_drop [of i cs] by simp

lemma calls_ok_action:
  assumes "calls_ok cs" and "i < length cs" and "cs ! i = (who, c, a # as)" and "exec_act a p = (q, branch)"
  shows "calls_ok (cs[i := (who, c, branch @ as)])"
proof -
  have "(who, c, a # as) \<in> set cs" using assms(2,3) nth_mem by metis
  then have "case device_of c of None \<Rightarrow> False | Some d \<Rightarrow> belongs d a \<and> list_all (belongs d) as"
    using assms(1) unfolding calls_ok_def by (force split: option.splits)
  then have "case device_of c of None \<Rightarrow> branch @ as = [] | Some d \<Rightarrow> list_all (belongs d) (branch @ as)"
    using exec_belongs [of _ a p] assms(4) by (auto split: option.splits)
  then show ?thesis
    using assms(1) set_update_subset_insert [of cs i "(who, c, branch @ as)"]
    unfolding calls_ok_def by blast
qed

lemma leave_ok:
  assumes "i < length cs" and "cs ! i = (who, c, [])"
  shows "set (without i cs) \<subseteq> set cs" "remaining d (without i cs) = remaining d cs"
proof -
  show "set (without i cs) \<subseteq> set cs"
    using set_take_subset [of i cs] set_drop_subset [of "Suc i" cs] by (auto simp: without_def)
  show "remaining d (without i cs) = remaining d cs"
    by (subst (2) calls_split [OF assms]) (simp add: without_def)
qed

lemma free_inv_step:
  assumes "free_inv w" and "race_step w w'"
  shows "free_inv w'"
proof -
  let ?p = "core (planter_sys w)"
  have inv: "buffers_ok (planter_sys w)" "channel_ok ?p" "steady (dev ?p)" "calls_ok (calls w)"
    using assms(1) by (simp_all add: free_inv_def)
  from assms(2) show ?thesis
  proof (cases rule: race_stepE [consumes 1, case_names take admit call action leave other])
    case (take m p s)
    have p: "p = ?p\<lparr>mq := tl (mq ?p)\<rparr>" using mq_receive_tail [OF take(3)] by simp
    then show ?thesis
      using inv take calls_ok_call channel_tail [OF inv(2)] by (simp add: free_inv_def with_core_def buffers_ok_def)
  next
    case (call i buf c)
    then show ?thesis using inv calls_ok_call by (simp add: free_inv_def)
  next
    case (action i who c a as p branch)
    have "steady (dev p)" "channel_ok p"
      using exec_steady [OF inv(3), of a] exec_channel [of a ?p] action(4) inv(2) by simp_all
    then show ?thesis
      using inv(1) calls_ok_action [OF inv(4) action(2-4)] action(1) by (simp add: free_inv_def with_core_def buffers_ok_def)
  next
    case (leave i who c)
    then show ?thesis using inv leave_ok(1) [OF leave(2,3)] by (auto simp: free_inv_def calls_ok_def)
  next
    case (other s)
    then show ?thesis
      using inv sys_step_channel [OF other(2) inv(1,2)] by (simp add: free_inv_def same_panel_def)
  qed (use inv in \<open>simp add: free_inv_def\<close>)
qed

interpretation free: transition_system race_step free_inv
  by unfold_locales (rule free_inv_step)

text \<open>
  A device whose calls do not overlap agrees with its state variable once the call to it, if there
  is one, has ended.
\<close>

definition settled :: "device \<Rightarrow> racing \<Rightarrow> bool" where
  "settled d w \<longleftrightarrow> (presses (hw (dev (core (planter_sys w)))) \<le> 2147483647 \<longrightarrow>
     ok_on d (run_acts (remaining d (calls w)) (core (planter_sys w))))"

definition lone_inv :: "device \<Rightarrow> racing \<Rightarrow> bool" where
  "lone_inv d w \<longleftrightarrow> free_inv w \<and> settled d w"

lemma ok_on_same:
  assumes "ok_on d (run_acts (remaining d cs) p)" and "calls_ok cs" and "files_open (dev p)" and "files_open (dev q)"
    and "device_view d q = device_view d p"
  shows "ok_on d (run_acts (remaining d cs) q)"
  using assms(1) ok_on_view [OF run_local [OF assms(4,3) remaining_belongs [OF assms(2)] assms(5)]] by simp

lemma handler_acts_some: "device_of c = Some d \<Longrightarrow> handler_acts c \<noteq> []"
  using device_of_valid [of c] by (auto simp: handler_acts_def)

lemma ok_on_call:
  assumes "ok_on d (run_acts (remaining d cs) p)" and "lone d (cs @ [(who, c, handler_acts c)])"
    and "files_open (dev p)" and "presses (hw (dev p)) \<le> 2147483647"
  shows "ok_on d (run_acts (remaining d (cs @ [(who, c, handler_acts c)])) p)"
proof (cases "device_of c = Some d")
  case True
  then have r: "remaining d cs = []" using remaining_other(1) [OF assms(2)] handler_acts_some by blast
  then have "ready_on d (dev p)" using assms(1) by (simp add: ok_on_def)
  then show ?thesis using whole_call_ok [OF True assms(3) _ assms(4)] True r by simp
qed (use assms(1) in simp)

lemma ok_on_action:
  assumes "calls_ok cs" and "lone d cs" and "i < length cs" and "cs ! i = (who, c, a # as)"
    and "exec_act a p = (q, branch)" and "files_open (dev p)" and "ok_on d (run_acts (remaining d cs) p)"
  shows "ok_on d (run_acts (remaining d (cs[i := (who, c, branch @ as)])) q)"
proof -
  define us vs where "us = take i cs" and "vs = drop (Suc i) cs"
  have cs: "cs = us @ (who, c, a # as) # vs" "cs[i := (who, c, branch @ as)] = us @ (who, c, branch @ as) # vs"
    using calls_split [OF assms(3,4)] assms(3) by (simp_all add: us_def vs_def upd_conv_take_nth_drop)
  have "(who, c, a # as) \<in> set cs" using cs(1) by simp
  then obtain e where e: "device_of c = Some e" "belongs e a"
    using assms(1) unfolding calls_ok_def by (force split: option.splits)
  show ?thesis
  proof (cases "d = e")
    case True
    then have "remaining d us = []" "remaining d vs = []"
      using remaining_other [of d us who c "a # as" vs] assms(2) cs(1) e(1) by simp_all
    then show ?thesis using assms(5,7) e(1) True cs by simp
  next
    case False
    then have "remaining d (cs[i := (who, c, branch @ as)]) = remaining d cs" using cs e(1) by simp
    moreover have "device_view d q = device_view d p"
      using exec_frame [OF assms(6) e(2), of d] False assms(5) by simp
    moreover have "files_open (dev q)" using exec_opened [OF assms(6), of a] assms(5) by simp
    ultimately show ?thesis using ok_on_same [OF assms(7,1,6)] by simp
  qed
qed

lemma lone_inv_step:
  assumes "lone_inv d w" and "lone d (calls w)" and "lone_step d w w'"
  shows "lone_inv d w'"
proof -
  let ?p = "core (planter_sys w)" and ?cs = "calls w"
  have inv: "files_open (dev ?p)" "calls_ok ?cs"
    and ok: "presses (hw (dev ?p)) \<le> 2147483647 \<Longrightarrow> ok_on d (run_acts (remaining d ?cs) ?p)"
    using assms(1) by (simp_all add: lone_inv_def free_inv_def settled_def steady_def)
  have step: "race_step w w'" and lone: "lone d (calls w')" using assms(3) by (simp_all add: lone_step_def)
  have "free_inv w'" using free_inv_step [OF _ step] assms(1) by (simp add: lone_inv_def)
  moreover from step have "settled d w'"
  proof (cases rule: race_stepE [consumes 1, case_names take admit call action leave other])
    case (take m p s)
    have p: "p = ?p\<lparr>mq := tl (mq ?p)\<rparr>" using mq_receive_tail [OF take(3)] by simp
    have "device_view d p = device_view d ?p" unfolding p by (cases d) (simp_all add: device_view_def)
    then have "ok_on d (run_acts (remaining d ?cs) p)" if "presses (hw (dev p)) \<le> 2147483647"
      using ok_on_same [OF ok inv(2,1)] inv(1) that by (simp add: p)
    then show ?thesis
      using inv lone take ok_on_call [of d ?cs p Main "atoi s"] by (simp add: settled_def with_core_def p)
  next
    case (call i buf c)
    then show ?thesis
      using inv ok lone ok_on_call [of d ?cs ?p Client "atoi buf"] by (simp add: settled_def)
  next
    case (action i who c a as p branch)
    have "presses (hw (dev ?p)) \<le> presses (hw (dev p))" using exec_presses [of ?p a] action(4) by simp
    then show ?thesis
      using ok_on_action [OF inv(2) assms(2) action(2-4) inv(1)] ok action(1) by (simp add: settled_def with_core_def)
  next
    case (leave i who c)
    then show ?thesis using ok leave_ok(2) [OF leave(2,3)] by (simp add: settled_def)
  next
    case (other s)
    have "device_view d (core s) = device_view d ?p"
      using other(3) by (cases d) (simp_all add: same_panel_def device_view_def)
    then show ?thesis
      using inv ok other(1,3) ok_on_same [OF ok inv(2,1)] by (simp add: settled_def same_panel_def)
  qed (use ok in \<open>simp add: settled_def\<close>)
  ultimately show ?thesis by (simp add: lone_inv_def)
qed

interpretation lone: transition_system "lone_step d" "\<lambda>w. lone_inv d w \<and> lone d (calls w)"
  by unfold_locales (auto intro: lone_inv_step simp: lone_step_def)

definition race_start :: "planter \<Rightarrow> racing" where
  "race_start p = \<lparr>planter_sys = sys_start p, calls = [], admitted = []\<rparr>"

lemma free_inv_start: "core_inv p \<Longrightarrow> agrees p \<Longrightarrow> free_inv (race_start p)"
  by (simp add: free_inv_def race_start_def sys_start_def buffers_ok_def calls_ok_def channel_ok_def core_inv_def
      agrees_def ready_steady)

lemma lone_inv_start: "core_inv p \<Longrightarrow> agrees p \<Longrightarrow> lone_inv d (race_start p) \<and> lone d (calls (race_start p))"
  using free_inv_start [of p] agrees_ok_on [of p]
  by (simp add: lone_inv_def settled_def lone_def race_start_def sys_start_def)

text \<open>
  A call that has not begun, with no other on its device, settles the device, whatever state the
  calls before have left it in. The humidifier is excepted: its library counts the presses.
\<close>

lemma new_call_settles:
  assumes "free_inv w" and "lone d (calls w)" and "(who, c, handler_acts c) \<in> set (calls w)"
    and "device_of c = Some d" and "d \<noteq> Humidifier"
  shows "lone_inv d w"
proof -
  obtain us vs where cs: "calls w = us @ (who, c, handler_acts c) # vs" using split_list [OF assms(3)] by blast
  then have r: "remaining d (calls w) = handler_acts c"
    using remaining_other [of d us who c "handler_acts c" vs] assms(2,4) handler_acts_some [OF assms(4)] by simp
  have "steady (dev (core (planter_sys w)))" using assms(1) by (simp add: free_inv_def)
  then have "files_open (dev (core (planter_sys w)))" "ready_on d (dev (core (planter_sys w)))"
    using assms(5) by (cases d; simp add: steady_def ready_on_def)+
  then show ?thesis using whole_call_ok [OF assms(4)] assms(1) by (simp add: lone_inv_def settled_def r)
qed

text \<open>A call of which nothing is left but the return has no effect any more.\<close>

lemma lone_inv_agrees:
  assumes "lone_inv d w" and "presses (hw (dev (core (planter_sys w)))) \<le> 2147483647"
    and "\<forall>(who, c, as) \<in> set (calls w). device_of c = Some d \<longrightarrow> as = []"
  shows "agrees_on d (core (planter_sys w))"
proof -
  have "remaining d (calls w) = []" using assms(3) by (auto simp: remaining_def)
  then show ?thesis using assms(1,2) by (auto simp: lone_inv_def settled_def ok_on_def)
qed

section \<open>Two calls on one device\<close>

text \<open>The steps of calls, with the state of the machine and the calls written out.\<close>

definition within :: "racing \<Rightarrow> planter \<Rightarrow> (caller \<times> int \<times> act list) list \<Rightarrow> racing" where
  "within w p cs = with_core p w\<lparr>calls := cs\<rparr>"

lemma within_simps [simp]:
  "calls (within w p cs) = cs" "core (planter_sys (within w p cs)) = p"
  by (simp_all add: within_def with_core_def)

lemma within_action:
  assumes "i < length cs" and "cs ! i = (who, c, a # as)" and "exec_act a p = (q, branch)"
  shows "race_step (within w p cs) (within w q (cs[i := (who, c, branch @ as)]))"
  using race_step.action [of i "within w p cs" who c a as q branch] assms by (simp add: within_def with_core_def)

lemma within_leave:
  assumes "i < length cs" and "cs ! i = (who, c, [])"
  shows "race_step (within w p cs) (within w p (without i cs))"
  using race_step.leave [of i "within w p cs" who c] assms by (simp add: within_def with_core_def)

text \<open>A call that is not interrupted runs to its end.\<close>

lemma within_run:
  "i < length cs \<Longrightarrow> cs ! i = (who, c, as) \<Longrightarrow>
   race_step\<^sup>*\<^sup>* (within w p cs) (within w (run_acts as p) (cs[i := (who, c, [])]))"
proof (induction as p arbitrary: cs rule: run_acts.induct)
  case (1 p)
  then have "cs[i := (who, c, [])] = cs" using list_update_id [of cs i] by simp
  then show ?case by simp
next
  case (2 a as p)
  obtain q branch where e: "exec_act a p = (q, branch)" by fastforce
  have "race_step\<^sup>*\<^sup>* (within w q (cs[i := (who, c, branch @ as)]))
      (within w (run_acts (branch @ as) q) (cs[i := (who, c, branch @ as), i := (who, c, [])]))"
    by (rule "2.IH" [OF e [symmetric]]) (use "2.prems" in simp_all)
  with within_action [OF "2.prems" e, of w] show ?case
    by (simp add: e converse_rtranclp_into_rtranclp)
qed

text \<open>
  The lamp: the main loop switches it on, a client switches it off, the client's store comes
  first. The steps from the admission of the client to the last return.
\<close>

lemma lamp_race:
  fixes w :: racing
  defines "p \<equiv> core (planter_sys w)"
  assumes "calls w = []" and "admitted w = []" and "g_mode p = MODE_MANUAL"
    and "mq_receive p = (Some m, q)" and "c_str m = Some s" and "atoi s = MQ_CMD_LED_ON"
    and "recv_str c = Inr (buf, c')" and "atoi buf = MQ_CMD_LED_OFF"
  shows "race_step\<^sup>*\<^sup>* w (with_core (q\<lparr>dev := led_off (led_on (dev q)), g_state_led := STATE_LED_ON\<rparr>) w)"
proof -
  obtain sy where w: "w = \<lparr>planter_sys = sy, calls = [], admitted = []\<rparr>"
    using assms(2,3) by (cases w) simp
  define at where "at = (\<lambda>q cs ad. \<lparr>planter_sys = sy\<lparr>core := q\<rparr>, calls = cs, admitted = ad\<rparr>)"
  note go = converse_rtranclp_into_rtranclp [where r = race_step]
  note defs = at_def with_core_def handler_acts_def cmd_defs valid_cmd_def led_on_def led_off_def handler_state_def
    without_def
  let ?on = "q\<lparr>dev := led_on (dev q)\<rparr>" and ?off = "q\<lparr>dev := led_off (led_on (dev q))\<rparr>"
  have 0: "w = at p [] []" using w by (simp add: at_def p_def)
  have 1: "race_step (at p [] []) (at p [] [c])"
    using race_step.admit [of "at p [] []" c] assms(4) by (simp add: at_def)
  have 2: "race_step (at p [] [c]) (at q [(Main, 1, [Connect 1, Store 1])] [c])"
    using race_step.take_message [of "at p [] [c]" m q s] assms(5-7) by (simp add: defs)
  have 3: "race_step (at q [(Main, 1, [Connect 1, Store 1])] [c]) (at ?on [(Main, 1, [Store 1])] [c])"
    using race_step.action [of 0 "at q [(Main, 1, [Connect 1, Store 1])] [c]" Main 1 "Connect 1" "[Store 1]"]
    by (simp add: defs)
  have 4: "race_step (at ?on [(Main, 1, [Store 1])] [c])
      (at ?on [(Main, 1, [Store 1]), (Client, 2, [Disconnect 1, Store 2])] [])"
    using race_step.call [of 0 "at ?on [(Main, 1, [Store 1])] [c]" buf c'] assms(8,9) by (simp add: defs)
  have 5: "race_step (at ?on [(Main, 1, [Store 1]), (Client, 2, [Disconnect 1, Store 2])] [])
      (at ?off [(Main, 1, [Store 1]), (Client, 2, [Store 2])] [])"
    using race_step.action [of 1 "at ?on [(Main, 1, [Store 1]), (Client, 2, [Disconnect 1, Store 2])] []"
        Client 2 "Disconnect 1" "[Store 2]"] by (simp add: defs)
  have 6: "race_step (at ?off [(Main, 1, [Store 1]), (Client, 2, [Store 2])] [])
      (at (?off\<lparr>g_state_led := 2\<rparr>) [(Main, 1, [Store 1]), (Client, 2, [])] [])"
    using race_step.action [of 1 "at ?off [(Main, 1, [Store 1]), (Client, 2, [Store 2])] []" Client 2 "Store 2" "[]"]
    by (simp add: defs)
  have 7: "race_step (at (?off\<lparr>g_state_led := 2\<rparr>) [(Main, 1, [Store 1]), (Client, 2, [])] [])
      (at (?off\<lparr>g_state_led := 2\<rparr>) [(Main, 1, [Store 1])] [])"
    using race_step.leave [of 1 "at (?off\<lparr>g_state_led := 2\<rparr>) [(Main, 1, [Store 1]), (Client, 2, [])] []" Client 2]
    by (simp add: defs)
  have 8: "race_step (at (?off\<lparr>g_state_led := 2\<rparr>) [(Main, 1, [Store 1])] [])
      (at (?off\<lparr>g_state_led := STATE_LED_ON\<rparr>) [(Main, 1, [])] [])"
    using race_step.action [of 0 "at (?off\<lparr>g_state_led := 2\<rparr>) [(Main, 1, [Store 1])] []" Main 1 "Store 1" "[]"]
    by (simp add: defs)
  have 9: "race_step (at (?off\<lparr>g_state_led := STATE_LED_ON\<rparr>) [(Main, 1, [])] [])
      (at (?off\<lparr>g_state_led := STATE_LED_ON\<rparr>) [] [])"
    using race_step.leave [of 0 "at (?off\<lparr>g_state_led := STATE_LED_ON\<rparr>) [(Main, 1, [])] []" Main 1]
    by (simp add: defs)
  have "with_core (?off\<lparr>g_state_led := STATE_LED_ON\<rparr>) w = at (?off\<lparr>g_state_led := STATE_LED_ON\<rparr>) [] []"
    by (simp add: w at_def with_core_def)
  moreover have "race_step\<^sup>*\<^sup>* w (at (?off\<lparr>g_state_led := STATE_LED_ON\<rparr>) [] [])"
    unfolding 0
    by (intro go [OF 1] go [OF 2] go [OF 3] go [OF 4] go [OF 5] go [OF 6] go [OF 7] go [OF 8] go [OF 9]
        rtranclp.rtrancl_refl)
  ultimately show ?thesis by simp
qed

text \<open>
  The humidifier: the main loop and a client both switch it on while it is off. Both have read
  \<open>cnt\<close> before either counts its press; the button is pressed twice, and the humidifier is in
  its second mode instead of the first.
\<close>

lemma run_on:
  assumes "ready (dev p)"
  shows "ready (dev (run_acts (push_acts @ [Nap 100000, Store 9]) p))"
    "presses (hw (dev (run_acts (push_acts @ [Nap 100000, Store 9]) p))) = Suc (presses (hw (dev p)))"
    "g_state_humidifier (run_acts (push_acts @ [Nap 100000, Store 9]) p) = 9"
proof -
  have "run_acts (push_acts @ [Nap 100000, Store 9]) p =
      p\<lparr>dev := usleep 100000 (humidifier_push (dev p)), g_state_humidifier := 9\<rparr>"
    by (simp add: push_acts_def humidifier_push_def Let_def usleep_def handler_state_def cmd_defs)
  then show "ready (dev (run_acts (push_acts @ [Nap 100000, Store 9]) p))"
    "presses (hw (dev (run_acts (push_acts @ [Nap 100000, Store 9]) p))) = Suc (presses (hw (dev p)))"
    "g_state_humidifier (run_acts (push_acts @ [Nap 100000, Store 9]) p) = 9"
    using humidifier_push_panel [OF assms] by simp_all
qed

lemma button_race:
  assumes "ready (dev p)" and "presses (hw (dev p)) mod 3 = 0" and "presses (hw (dev p)) \<le> 2147483647"
  shows "\<exists>q. race_step\<^sup>*\<^sup>* (within w p [(Main, 9, handler_acts 9), (Client, 9, handler_acts 9)]) (within w q []) \<and>
    g_state_humidifier q = STATE_HUMIDIFIER_ON \<and> mist (panel_of (dev q)) = 2"
proof -
  define as where "as = push_acts @ [Nap 100000, Store 9]"
  define q where "q = run_acts as (run_acts as p)"
  have acts: "handler_acts 9 = IfCount 0 push_acts [IfCount 1 [] push_2_acts] # [Nap 100000, Store 9]"
    by (simp add: handler_acts_def cmd_defs valid_cmd_def)
  have cnt: "exec_act (IfCount 0 push_acts [IfCount 1 [] push_2_acts]) p = (p, push_acts)"
    using cnt_mode [OF assms(1,3)] assms(2) by simp
  let ?c0 = "[(Main, 9, handler_acts 9), (Client, 9, handler_acts 9)]"
  have 1: "race_step\<^sup>*\<^sup>* (within w p ?c0) (within w p [(Main, 9, as), (Client, 9, as)])"
    using within_action [of 0 ?c0 Main 9 _ _ p p push_acts w]
      within_action [of 1 "[(Main, 9, as), (Client, 9, handler_acts 9)]" Client 9 _ _ p p push_acts w]
    unfolding acts as_def using cnt by simp
  have 2: "race_step\<^sup>*\<^sup>* (within w p [(Main, 9, as), (Client, 9, as)])
      (within w (run_acts as p) [(Main, 9, []), (Client, 9, as)])"
    using within_run [of 0 "[(Main, 9, as), (Client, 9, as)]" Main 9 as w p] by simp
  have 3: "race_step\<^sup>*\<^sup>* (within w (run_acts as p) [(Main, 9, []), (Client, 9, as)])
      (within w q [(Main, 9, []), (Client, 9, [])])"
    using within_run [of 1 "[(Main, 9, []), (Client, 9, as)]" Client 9 as w "run_acts as p"] by (simp add: q_def)
  have 4: "race_step\<^sup>*\<^sup>* (within w q [(Main, 9, []), (Client, 9, [])]) (within w q [])"
    using within_leave [of 1 "[(Main, 9, []), (Client, 9, [])]" Client 9 w q] within_leave [of 0 "[(Main, 9, [])]" Main 9 w q]
    by (simp add: without_def)
  have "race_step\<^sup>*\<^sup>* (within w p ?c0) (within w q [])"
    by (rule rtranclp_trans [OF 1 rtranclp_trans [OF 2 rtranclp_trans [OF 3 4]]])
  moreover have "presses (hw (dev q)) mod 3 = 2" "g_state_humidifier q = 9"
    using run_on [OF assms(1)] run_on [OF run_on(1) [OF assms(1)]] assms(2)
    unfolding q_def as_def by (simp_all add: mod_Suc)
  ultimately show ?thesis by (auto simp: cmd_defs)
qed
end
