(* ===== verification/Boundaries.thy ===== *)
theory Boundaries
  imports Typing
begin

text \<open>
  \<open>receive_boundary_data\<close> one memory access at a time. It takes no lock: \<open>sscanf\<close> writes the five
  boundaries the client sets, \<open>boundary_update\<close> derives the five others from what it then
  finds, and four commands are sent. Any number of such requests interleave with all the rest
  of the program. The steps are the assignments of \<open>sscanf\<close>, and for each statement of
  \<open>boundary_update\<close> the load of the one boundary and the store of the other: between the two
  another request can come.
\<close>

section \<open>The request in steps\<close>

text \<open>The assignments of \<open>sscanf\<close> and the statements of \<open>boundary_update\<close>, in their order.\<close>

definition scan_assign :: "nat \<Rightarrow> int \<Rightarrow> planter \<Rightarrow> planter" where
  "scan_assign k v p =
     (if k = 0 then p\<lparr>g_humi_under_humidifier := v\<rparr>
      else if k = 1 then p\<lparr>g_humi_upper_fan := v\<rparr>
      else if k = 2 then p\<lparr>g_temp_under_dryer := v\<rparr>
      else if k = 3 then p\<lparr>g_temp_upper_cooler := v\<rparr>
      else if k = 4 then p\<lparr>g_photo_under_led := v\<rparr>
      else p)"

definition update_value :: "nat \<Rightarrow> planter \<Rightarrow> int" where
  "update_value j p =
     (if j = 0 then wrap32 (g_humi_upper_fan p - BIAS_HUMI)
      else if j = 1 then wrap32 (g_humi_under_humidifier p + BIAS_HUMI)
      else if j = 2 then wrap32 (g_temp_under_dryer p + BIAS_TEMP)
      else if j = 3 then wrap32 (g_temp_upper_cooler p - BIAS_TEMP)
      else wrap32 (g_photo_under_led p + BIAS_PHOTO))"

definition update_store :: "nat \<Rightarrow> int \<Rightarrow> planter \<Rightarrow> planter" where
  "update_store j v p =
     (if j = 0 then p\<lparr>g_humi_under_fan := v\<rparr>
      else if j = 1 then p\<lparr>g_humi_upper_humidifier := v\<rparr>
      else if j = 2 then p\<lparr>g_temp_upper_dryer := v\<rparr>
      else if j = 3 then p\<lparr>g_temp_under_cooler := v\<rparr>
      else if j = 4 then p\<lparr>g_photo_upper_led := v\<rparr>
      else p)"

datatype progress =
    Scan "int list" nat        \<comment> \<open>in \<open>sscanf\<close>: the values converted, the number assigned\<close>
  | Update nat                 \<comment> \<open>in \<open>boundary_update\<close>: the number of statements done\<close>
  | Derived nat int            \<comment> \<open>in a statement: the value computed, not stored yet\<close>
  | Send "int list"            \<comment> \<open>the commands still to be sent\<close>

definition boundary_cmds :: "int list" where
  "boundary_cmds = [MQ_CMD_FAN_OFF, MQ_CMD_DRYER_OFF, MQ_CMD_LED_OFF, MQ_CMD_HUMIDIFIER_OFF]"

fun boundary_step :: "progress \<times> thread \<Rightarrow> (progress \<times> thread) result" where
  "boundary_step (Scan vs k, cmd, p) =
     (if k < length vs then Inr (Scan vs (Suc k), cmd, scan_assign k (vs ! k) p) else Inr (Update 0, cmd, p))"
| "boundary_step (Update j, cmd, p) =
     (if j < 5 then Inr (Derived j (update_value j p), cmd, p) else Inr (Send boundary_cmds, cmd, p))"
| "boundary_step (Derived j v, cmd, p) = Inr (Update (Suc j), cmd, update_store j v p)"
| "boundary_step (Send [], cmd, p) = Inr (Send [], cmd, p)"
| "boundary_step (Send (c # cs), cmd, p) = rbind (send_cmd c (cmd, p)) (\<lambda>t. Inr (Send cs, t))"

fun boundary_run :: "nat \<Rightarrow> progress \<times> thread \<Rightarrow> (progress \<times> thread) result" where
  "boundary_run 0 s = Inr s"
| "boundary_run (Suc n) s = rbind (boundary_step s) (boundary_run n)"

lemma boundary_run_add: "boundary_run (m + n) s = rbind (boundary_run m s) (boundary_run n)"
  by (induction m arbitrary: s) (simp_all add: rbind_assoc cong: rbind_cong)

text \<open>Left alone, the steps are the request.\<close>

text \<open>The statements of \<open>boundary_update\<close> from number \<open>j\<close> on.\<close>

fun update_from :: "nat \<Rightarrow> nat \<Rightarrow> planter \<Rightarrow> planter" where
  "update_from j 0 p = p"
| "update_from j (Suc n) p = update_from (Suc j) n (update_store j (update_value j p) p)"

lemma run_update:
  "j + n \<le> 5 \<Longrightarrow> boundary_run (2 * n) (Update j, cmd, p) = Inr (Update (j + n), cmd, update_from j n p)"
  by (induction n arbitrary: j p) simp_all

lemma update_from_all: "update_from 0 5 p = boundary_update p"
  by (simp add: eval_nat_numeral update_store_def update_value_def boundary_update_def)

lemma run_updates:
  "boundary_run 15 (Update 0, cmd, p) =
     rbind (send_cmd MQ_CMD_FAN_OFF (cmd, boundary_update p)) (\<lambda>t.
     rbind (send_cmd MQ_CMD_DRYER_OFF t) (\<lambda>t.
     rbind (send_cmd MQ_CMD_LED_OFF t) (\<lambda>t.
     rbind (send_cmd MQ_CMD_HUMIDIFIER_OFF t) (\<lambda>t. Inr (Send [], t)))))"
proof -
  have "boundary_run 10 (Update 0, cmd, p) = Inr (Update 5, cmd, boundary_update p)"
    using run_update [of 0 5 cmd p] by (simp add: update_from_all)
  then have "boundary_run 15 (Update 0, cmd, p) = boundary_run 5 (Update 5, cmd, boundary_update p)"
    using boundary_run_add [of 10 5] by simp
  then show ?thesis by (simp add: eval_nat_numeral boundary_cmds_def rbind_def split: sum.split prod.split)
qed

lemma length_le_5:
  "length vs \<le> 5 \<Longrightarrow> vs = [] \<or> (\<exists>a. vs = [a]) \<or> (\<exists>a b. vs = [a, b]) \<or> (\<exists>a b c. vs = [a, b, c]) \<or>
     (\<exists>a b c d. vs = [a, b, c, d]) \<or> (\<exists>a b c d e. vs = [a, b, c, d, e])"
  by (auto simp: eval_nat_numeral le_Suc_eq length_Suc_conv)

lemma run_scan:
  "boundary_run (16 + length (scan_ints 5 buf)) (Scan (scan_ints 5 buf) 0, cmd, p) =
     boundary_run 15 (Update 0, cmd, scan_boundaries buf p)"
proof -
  have "boundary_run (Suc (length (scan_ints 5 buf))) (Scan (scan_ints 5 buf) 0, cmd, p) =
      Inr (Update 0, cmd, scan_boundaries buf p)"
    using length_le_5 [OF scan_ints_length [of 5 buf]]
    by (elim disjE exE) (simp_all add: eval_nat_numeral scan_boundaries_def scan_assign_def)
  then show ?thesis using boundary_run_add [of "Suc (length (scan_ints 5 buf))" 15] by (simp add: add.commute)
qed

lemma boundary_run_request:
  assumes "recv_str c = Inr (buf, c')"
  shows "receive_boundary_data cmd p c =
    vbind (lift_r (boundary_run (16 + length (scan_ints 5 buf)) (Scan (scan_ints 5 buf) 0, cmd, p)))
      (\<lambda>(pr, t). vok (snd t, c'))"
  unfolding run_scan run_updates receive_boundary_data_def assms
  by (simp add: rbind_def lift_r_def vbind_def vok_def split: sum.split)

section \<open>Any number of requests\<close>

record bounding =
  around :: system
  requests :: "(progress \<times> char list) list"

definition same_bounds :: "planter \<Rightarrow> planter \<Rightarrow> bool" where
  "same_bounds p q \<longleftrightarrow> boundary_values q = boundary_values p \<and>
     g_humi_under_fan q = g_humi_under_fan p \<and> g_humi_upper_humidifier q = g_humi_upper_humidifier p \<and>
     g_temp_upper_dryer q = g_temp_upper_dryer p \<and> g_temp_under_cooler q = g_temp_under_cooler p \<and>
     g_photo_upper_led q = g_photo_upper_led p"

inductive bounds_step :: "bounding \<Rightarrow> bounding \<Rightarrow> bool" where
  accept: "recv_str c = Inr (buf, c') \<Longrightarrow> length cmd = MQ_MSG_SIZE \<Longrightarrow>
    bounds_step w (w\<lparr>requests := requests w @ [(Scan (scan_ints 5 buf) 0, cmd)]\<rparr>)"
| progress: "i < length (requests w) \<Longrightarrow> requests w ! i = (pr, cmd) \<Longrightarrow>
      boundary_step (pr, cmd, core (around w)) = Inr (pr', cmd', p) \<Longrightarrow>
    bounds_step w (w\<lparr>around := (around w)\<lparr>core := p\<rparr>, requests := (requests w)[i := (pr', cmd')]\<rparr>)"
| other: "sys_step (around w) s \<Longrightarrow> same_bounds (core (around w)) (core s) \<Longrightarrow>
    bounds_step w (w\<lparr>around := s\<rparr>)"

inductive_cases bounds_stepE: "bounds_step w w'"

text \<open>
  A derived boundary is tied to its source when \<open>boundary_update\<close> would not change it. A request
  that has not done the statement that derives it, or not ended it, owes it.
\<close>

definition tied :: "nat \<Rightarrow> planter \<Rightarrow> bool" where
  "tied j p \<longleftrightarrow> update_store j (update_value j p) p = p"

fun owes :: "nat \<Rightarrow> progress \<Rightarrow> bool" where
  "owes j (Scan vs k) = True"
| "owes j (Update n) = (n \<le> j)"
| "owes j (Derived n v) = (n \<le> j)"
| "owes j (Send cs) = False"

text \<open>Between the reception of its text and the end of its \<open>boundary_update\<close>.\<close>

fun updating :: "progress \<Rightarrow> bool" where
  "updating (Send cs) = False"
| "updating pr = True"

text \<open>At most one request is there; a step after which this still holds.\<close>

definition single :: "(progress \<times> char list) list \<Rightarrow> bool" where
  "single rs \<longleftrightarrow> length (filter (\<lambda>(pr, cmd). updating pr) rs) \<le> 1"

definition single_step :: "bounding \<Rightarrow> bounding \<Rightarrow> bool" where
  "single_step w w' \<longleftrightarrow> bounds_step w w' \<and> single (requests w')"

lemma single_others:
  assumes "single (us @ (pr, cmd) # vs)" and "updating pr" and "(pr', cmd') \<in> set us \<union> set vs"
  shows "\<exists>cs. pr' = Send cs"
proof -
  have "filter (\<lambda>(pr, cmd). updating pr) (us @ vs) = []" using assms(1,2) by (simp add: single_def)
  then have "\<not> updating pr'" using assms(3) by (auto simp: filter_empty_conv)
  then show ?thesis by (cases pr') simp_all
qed

lemma upd_iff: "p\<lparr>g_humi_under_fan := v\<rparr> = p \<longleftrightarrow> g_humi_under_fan p = v"
  "p\<lparr>g_humi_upper_humidifier := v\<rparr> = p \<longleftrightarrow> g_humi_upper_humidifier p = v"
  "p\<lparr>g_temp_upper_dryer := v\<rparr> = p \<longleftrightarrow> g_temp_upper_dryer p = v"
  "p\<lparr>g_temp_under_cooler := v\<rparr> = p \<longleftrightarrow> g_temp_under_cooler p = v"
  "p\<lparr>g_photo_upper_led := v\<rparr> = p \<longleftrightarrow> g_photo_upper_led p = v"
  by (cases p, auto)+

lemma tied_cases:
  "tied j p \<longleftrightarrow>
     (if j = 0 then g_humi_under_fan p = wrap32 (g_humi_upper_fan p - BIAS_HUMI)
      else if j = 1 then g_humi_upper_humidifier p = wrap32 (g_humi_under_humidifier p + BIAS_HUMI)
      else if j = 2 then g_temp_upper_dryer p = wrap32 (g_temp_under_dryer p + BIAS_TEMP)
      else if j = 3 then g_temp_under_cooler p = wrap32 (g_temp_upper_cooler p - BIAS_TEMP)
      else if j = 4 then g_photo_upper_led p = wrap32 (g_photo_under_led p + BIAS_PHOTO)
      else True)"
  by (simp add: tied_def update_store_def update_value_def upd_iff)

lemma tied_same: "same_bounds p q \<Longrightarrow> tied j q = tied j p"
  by (simp add: tied_cases same_bounds_def boundary_values_def)

lemma same_bounds_mq: "same_bounds p (p\<lparr>mq := ms\<rparr>)"
  by (simp add: same_bounds_def boundary_values_def)

lemma tied_mq [simp]: "tied j (p\<lparr>mq := ms\<rparr>) = tied j p"
  by (simp add: tied_cases)

lemma value_same: "same_bounds p q \<Longrightarrow> update_value j q = update_value j p"
  by (simp add: update_value_def same_bounds_def boundary_values_def)

lemma tied_update: "tied j (update_store j (update_value j p) p)" "tied j p \<Longrightarrow> tied j (update_store k v p) \<or> k = j"
  by (auto simp: tied_cases update_store_def update_value_def)

definition request_ok :: "progress \<Rightarrow> char list \<Rightarrow> bool" where
  "request_ok pr cmd \<longleftrightarrow> length cmd = MQ_MSG_SIZE \<and> (case pr of Send cs \<Rightarrow> \<forall>c \<in> set cs. valid_cmd c | _ \<Rightarrow> True)"

definition bounds_inv :: "bounding \<Rightarrow> bool" where
  "bounds_inv w \<longleftrightarrow> sys_inv (around w) \<and> (\<forall>(pr, cmd) \<in> set (requests w). request_ok pr cmd)"

lemma assign_frame [simp]:
  "dev (scan_assign k v p) = dev p" "g_state_led (scan_assign k v p) = g_state_led p"
  "g_state_fan (scan_assign k v p) = g_state_fan p" "g_state_solenoid (scan_assign k v p) = g_state_solenoid p"
  "g_state_drain (scan_assign k v p) = g_state_drain p" "g_state_humidifier (scan_assign k v p) = g_state_humidifier p"
  "g_state_dryer (scan_assign k v p) = g_state_dryer p" "g_mode (scan_assign k v p) = g_mode p"
  "mq (scan_assign k v p) = mq p" "mqd_main (scan_assign k v p) = mqd_main p"
  "dev (update_store j v p) = dev p" "g_state_led (update_store j v p) = g_state_led p"
  "g_state_fan (update_store j v p) = g_state_fan p" "g_state_solenoid (update_store j v p) = g_state_solenoid p"
  "g_state_drain (update_store j v p) = g_state_drain p" "g_state_humidifier (update_store j v p) = g_state_humidifier p"
  "g_state_dryer (update_store j v p) = g_state_dryer p" "g_mode (update_store j v p) = g_mode p"
  "mq (update_store j v p) = mq p" "mqd_main (update_store j v p) = mqd_main p"
  by (simp_all add: scan_assign_def update_store_def)

lemma core_inv_bounds: "core_inv p \<Longrightarrow> core_inv (scan_assign k v p)" "core_inv p \<Longrightarrow> core_inv (update_store j v p)"
  using core_inv_cong [of p "scan_assign k v p"] core_inv_cong [of p "update_store j v p"]
  by (simp_all add: core_inv_def queue_ok_def)

lemma send_step:
  assumes "boundary_step (Send cs, cmd, p) = Inr (pr', cmd', q)" and "core_inv p" and "request_ok (Send cs) cmd"
  shows "core_inv q \<and> request_ok pr' cmd' \<and> (\<exists>ds. pr' = Send ds) \<and> (\<exists>ms. q = p\<lparr>mq := ms\<rparr>)"
proof (cases cs)
  case Nil
  have "\<exists>ms. p = p\<lparr>mq := ms\<rparr>" by (rule exI [of _ "mq p"]) simp
  then show ?thesis using assms Nil by auto
next
  case (Cons c ds)
  have ok: "thread_ok (cmd, p)" "valid_cmd c"
    using assms(2,3) Cons by (simp_all add: thread_ok_def core_inv_def request_ok_def)
  obtain cmd1 p1 where s: "send_cmd c (cmd, p) = Inr (cmd1, p1)" "thread_ok (cmd1, p1)" "\<exists>ms. p1 = p\<lparr>mq := ms\<rparr>"
    using send_cmd_spec [OF ok] by (metis snd_conv)
  then have "pr' = Send ds" "cmd' = cmd1" "q = p1" using assms(1) Cons by auto
  moreover have "core_inv p1" using s core_inv_mq [OF assms(2)] by (auto simp: thread_ok_def)
  ultimately show ?thesis using s assms(3) Cons by (simp add: request_ok_def thread_ok_def)
qed

lemma boundary_step_keeps:
  assumes "boundary_step (pr, cmd, p) = Inr (pr', cmd', q)" and "core_inv p" and "request_ok pr cmd"
  shows "core_inv q \<and> request_ok pr' cmd'"
  using assms send_step
  by (cases pr) (auto simp: core_inv_bounds request_ok_def boundary_cmds_def valid_cmd_def cmd_defs split: if_splits)

lemma bounds_inv_step:
  assumes "bounds_inv w" and "bounds_step w w'"
  shows "bounds_inv w'"
  using assms(2)
proof (cases rule: bounds_stepE [consumes 1, case_names accept progress other])
  case (accept c buf c' cmd)
  then show ?thesis using assms(1) by (auto simp: bounds_inv_def request_ok_def)
next
  case (progress i pr cmd pr' cmd' p)
  have "core_inv (core (around w))" "request_ok pr cmd"
    using assms(1) progress(2,3) nth_mem [OF progress(2)] by (auto simp: bounds_inv_def sys_inv_def)
  note keep = boundary_step_keeps [OF progress(4) this]
  then show ?thesis
    using assms(1) progress(1) set_update_subset_insert [of "requests w" i "(pr', cmd')"]
    by (auto simp: bounds_inv_def sys_inv_def)
next
  case (other s)
  then show ?thesis using assms(1) sys_inv_step [of "around w" s] by (auto simp: bounds_inv_def)
qed

interpretation bounds: transition_system bounds_step bounds_inv
  by unfold_locales (rule bounds_inv_step)

section \<open>One request after the other\<close>

text \<open>
  As long as at most one request is updating, what is not tied is owed, and a value that has been
  computed is still right when it is stored.
\<close>

definition single_inv :: "bounding \<Rightarrow> bool" where
  "single_inv w \<longleftrightarrow>
     (\<forall>j < 5. tied j (core (around w)) \<or> (\<exists>(pr, cmd) \<in> set (requests w). owes j pr)) \<and>
     (\<forall>(pr, cmd) \<in> set (requests w). \<forall>n v. pr = Derived n v \<longrightarrow> v = update_value n (core (around w)))"

text \<open>One step of the request that is updating, or of one that sends.\<close>

lemma boundary_step_owes:
  assumes "boundary_step (pr, cmd, p) = Inr (pr', cmd', q)" and "core_inv p" and "request_ok pr cmd"
    and "\<And>n v. pr = Derived n v \<Longrightarrow> v = update_value n p" and "j < 5" and "tied j p \<or> owes j pr"
  shows "tied j q \<or> owes j pr'"
proof (cases pr)
  case (Update n)
  then show ?thesis using assms(1,5,6) by (auto split: if_splits)
next
  case (Derived n v)
  then show ?thesis
    using assms(1,6) assms(4) [OF Derived] tied_update(1) [of j p] tied_update(2) [of j p n v]
    by (cases "n = j") auto
next
  case (Send cs)
  then show ?thesis using send_step [of cs cmd p pr' cmd' q] assms by auto
qed (use assms in \<open>auto split: if_splits\<close>)

lemma boundary_step_derives:
  "boundary_step (pr, cmd, p) = Inr (Derived n v, cmd', q) \<Longrightarrow> v = update_value n q"
  by (cases "(pr, cmd, p)" rule: boundary_step.cases) (auto simp: rbind_eq_Inr split: if_splits)

lemma single_inv_step:
  assumes "single_inv w" and "bounds_inv w" and "single (requests w)" and "single_step w w'"
  shows "single_inv w'"
proof -
  let ?p = "core (around w)"
  have tie: "tied j ?p \<or> (\<exists>(pr, cmd) \<in> set (requests w). owes j pr)" if "j < 5" for j
    using assms(1) that by (simp add: single_inv_def)
  have val: "v = update_value n ?p" if "(Derived n v, cmd) \<in> set (requests w)" for n v cmd
    using assms(1) that by (fastforce simp: single_inv_def)
  have "bounds_step w w'" using assms(4) by (simp add: single_step_def)
  then show ?thesis
  proof (cases rule: bounds_stepE [consumes 1, case_names accept progress other])
    case (accept c buf c' cmd)
    then show ?thesis using tie val by (fastforce simp: single_inv_def)
  next
    case (progress i pr cmd pr' cmd' p)
    define us vs where "us = take i (requests w)" and "vs = drop (Suc i) (requests w)"
    have rs: "requests w = us @ (pr, cmd) # vs" "(requests w)[i := (pr', cmd')] = us @ (pr', cmd') # vs"
      using id_take_nth_drop [OF progress(2)] progress(2,3) by (simp_all add: us_def vs_def upd_conv_take_nth_drop)
    have ok: "core_inv ?p" "request_ok pr cmd" using assms(2) rs(1) by (auto simp: bounds_inv_def sys_inv_def)
    have d: "v = update_value n ?p" if "pr = Derived n v" for n v using val [of n v cmd] that rs(1) by simp
    have "tied j p \<or> (\<exists>(pr, cmd) \<in> set (us @ (pr', cmd') # vs). owes j pr)" if j: "j < 5" for j
    proof (cases "tied j ?p \<or> owes j pr")
      case True
      then show ?thesis using boundary_step_owes [OF progress(4) ok d j] by auto
    next
      case False
      then show ?thesis using tie [OF j] rs(1) by auto
    qed
    moreover have "v = update_value n p" if "(Derived n v, c) \<in> set (us @ (pr', cmd') # vs)" for n v c
    proof (cases "(Derived n v, c) = (pr', cmd')")
      case True
      then show ?thesis using boundary_step_derives [of pr cmd ?p n v cmd' p] progress(4) by simp
    next
      case False
      then have other: "(Derived n v, c) \<in> set us \<union> set vs" using that by auto
      then have "\<not> updating pr"
        using single_others [of us pr cmd vs "Derived n v" c] assms(3) rs(1) by auto
      then obtain cs where "pr = Send cs" by (cases pr) simp_all
      then obtain ms where "p = ?p\<lparr>mq := ms\<rparr>" using send_step [of cs cmd ?p pr' cmd' p] progress(4) ok by auto
      then have "update_value n p = update_value n ?p"
        by (intro value_same) (metis same_bounds_mq)
      then show ?thesis using val [of n v c] other rs(1) by auto
    qed
    ultimately show ?thesis using progress(1) rs(2) by (fastforce simp: single_inv_def)
  next
    case (other s)
    then show ?thesis
      using assms(1) tied_same [OF other(3)] value_same [OF other(3)] by (simp add: single_inv_def)
  qed
qed

interpretation single: transition_system single_step "\<lambda>w. bounds_inv w \<and> single_inv w \<and> single (requests w)"
  by unfold_locales (auto intro: bounds_inv_step single_inv_step simp: single_step_def)

definition bounds_start :: "planter \<Rightarrow> bounding" where
  "bounds_start p = \<lparr>around = sys_start p, requests = []\<rparr>"

lemma main_init_tied:
  assumes "main_init stale rc env dir db_ok mq_rc left p = Some (Inr q)"
  shows "tied j q"
proof -
  have "tied j (boundary_init (states_init (devices_init rc p)))"
    by (simp add: tied_cases boundary_init_def boundary_update_def)
  then show ?thesis using assms
    by (auto simp: main_init_def Let_def rbind_eq_Inr message_queue_init_def tied_cases
        split: option.splits sum.splits)
qed

lemma bounds_inv_start: "core_inv p \<Longrightarrow> bounds_inv (bounds_start p)"
  using sys_inv_start [of p] by (simp add: bounds_inv_def bounds_start_def sys_start_def)

lemma single_inv_start: "(\<And>j. tied j p) \<Longrightarrow> single_inv (bounds_start p) \<and> single (requests (bounds_start p))"
  by (simp add: single_inv_def single_def bounds_start_def sys_start_def)

text \<open>A request that is still in its \<open>sscanf\<close>, alone, will derive all five, whatever it finds.\<close>

lemma new_request_settles:
  assumes "single (requests w)" and "(Scan vs k, cmd) \<in> set (requests w)"
  shows "single_inv w"
proof -
  obtain us ws where "requests w = us @ (Scan vs k, cmd) # ws" using split_list [OF assms(2)] by blast
  then have "\<exists>cs. pr = Send cs" if "(pr, c) \<in> set (requests w)" "pr \<noteq> Scan vs k" for pr c
    using single_others [of us "Scan vs k" cmd ws pr c] assms(1) that by auto
  then show ?thesis using assms(2) by (fastforce simp: single_inv_def)
qed

section \<open>Two requests at once\<close>

lemma bounds_run:
  "i < length (requests w) \<Longrightarrow> requests w ! i = (pr, cmd) \<Longrightarrow>
   boundary_run n (pr, cmd, core (around w)) = Inr (pr', cmd', q) \<Longrightarrow>
   bounds_step\<^sup>*\<^sup>* w (w\<lparr>around := (around w)\<lparr>core := q\<rparr>, requests := (requests w)[i := (pr', cmd')]\<rparr>)"
proof (induction n arbitrary: w pr cmd)
  case 0
  then have "(requests w)[i := (pr', cmd')] = requests w" using list_update_id [of "requests w" i] by simp
  then show ?case using 0 by (cases w; cases "around w") simp
next
  case (Suc n)
  obtain pr1 cmd1 p1 where s: "boundary_step (pr, cmd, core (around w)) = Inr (pr1, cmd1, p1)"
    "boundary_run n (pr1, cmd1, p1) = Inr (pr', cmd', q)"
    using Suc.prems(3) by (auto simp: rbind_eq_Inr)
  let ?w = "w\<lparr>around := (around w)\<lparr>core := p1\<rparr>, requests := (requests w)[i := (pr1, cmd1)]\<rparr>"
  have "bounds_step w ?w" by (rule bounds_step.progress [OF Suc.prems(1,2) s(1)])
  moreover have "bounds_step\<^sup>*\<^sup>* ?w (?w\<lparr>around := (around ?w)\<lparr>core := q\<rparr>, requests := (requests ?w)[i := (pr', cmd')]\<rparr>)"
    by (rule Suc.IH [of ?w pr1 cmd1]) (use Suc.prems(1) s(2) in simp_all)
  ultimately show ?case by (simp add: converse_rtranclp_into_rtranclp)
qed

lemma alone_run:
  "requests w = [(pr, cmd)] \<Longrightarrow> boundary_run n (pr, cmd, core (around w)) = Inr (pr', cmd', q) \<Longrightarrow>
   \<exists>w'. single_step\<^sup>*\<^sup>* w w' \<and> requests w' = [(pr', cmd')] \<and> core (around w') = q"
proof (induction n arbitrary: w pr cmd)
  case (Suc n)
  obtain pr1 cmd1 p1 where s: "boundary_step (pr, cmd, core (around w)) = Inr (pr1, cmd1, p1)"
    "boundary_run n (pr1, cmd1, p1) = Inr (pr', cmd', q)"
    using Suc.prems(2) by (auto simp: rbind_eq_Inr)
  let ?w = "w\<lparr>around := (around w)\<lparr>core := p1\<rparr>, requests := [(pr1, cmd1)]\<rparr>"
  have "single_step w ?w"
    using bounds_step.progress [of 0 w pr cmd pr1 cmd1 p1] Suc.prems(1) s(1)
    by (simp add: single_step_def single_def)
  moreover have "\<exists>w'. single_step\<^sup>*\<^sup>* ?w w' \<and> requests w' = [(pr', cmd')] \<and> core (around w') = q"
    by (rule Suc.IH [of ?w pr1 cmd1]) (use s(2) in simp_all)
  ultimately show ?case by (blast intro: converse_rtranclp_into_rtranclp)
qed auto

lemma run_sends:
  "thread_ok (cmd, p) \<Longrightarrow> \<forall>c \<in> set cs. valid_cmd c \<Longrightarrow>
   \<exists>cmd' ms. boundary_run (length cs) (Send cs, cmd, p) = Inr (Send [], cmd', p\<lparr>mq := ms\<rparr>) \<and> thread_ok (cmd', p\<lparr>mq := ms\<rparr>)"
proof (induction cs arbitrary: cmd p)
  case Nil
  have "p\<lparr>mq := mq p\<rparr> = p" by simp
  then show ?case using Nil by (metis boundary_run.simps(1) list.size(3))
next
  case (Cons c cs)
  have "valid_cmd c" using Cons.prems(2) by simp
  then obtain cmd1 ms where s: "send_cmd c (cmd, p) = Inr (cmd1, p\<lparr>mq := ms\<rparr>)" "thread_ok (cmd1, p\<lparr>mq := ms\<rparr>)"
    using send_cmd_spec [OF Cons.prems(1)] by (metis snd_conv)
  from Cons.IH [OF s(2)] show ?case using s(1) Cons.prems(2) by auto
qed

lemma run_from_update:
  assumes "thread_ok (cmd, p)" and "j + n = 5"
  shows "\<exists>m cmd' ms. boundary_run m (Update j, cmd, p) = Inr (Send [], cmd', (update_from j n p)\<lparr>mq := ms\<rparr>) \<and>
    thread_ok (cmd', (update_from j n p)\<lparr>mq := ms\<rparr>)"
proof -
  let ?q = "update_from j n p"
  have "mq (update_from j n p) = mq p \<and> mqd_main (update_from j n p) = mqd_main p" for j n p
    by (induction j n p rule: update_from.induct) simp_all
  then have "thread_ok (cmd, ?q)" using assms(1) by (simp add: thread_ok_def queue_ok_def)
  then obtain cmd' ms where s: "boundary_run (length boundary_cmds) (Send boundary_cmds, cmd, ?q) =
      Inr (Send [], cmd', ?q\<lparr>mq := ms\<rparr>)" "thread_ok (cmd', ?q\<lparr>mq := ms\<rparr>)"
    using run_sends [of cmd ?q boundary_cmds] by (auto simp: boundary_cmds_def valid_cmd_def cmd_defs)
  have "boundary_run (2 * n + Suc (length boundary_cmds)) (Update j, cmd, p) = Inr (Send [], cmd', ?q\<lparr>mq := ms\<rparr>)"
    using run_update [of j n cmd p] assms(2) s(1) by (simp only: boundary_run_add) simp
  then show ?thesis using s(2) by blast
qed

text \<open>
  The first request has loaded the upper boundary of the fan when the second one sets all five,
  derives the others and ends; then the first stores what it has computed from its own.
\<close>

lemma boundary_race:
  fixes cmd :: "char list"
  assumes "queue_ok p" and "length cmd = MQ_MSG_SIZE"
    and "recv_str c1 = Inr (b1, c1')" and "scan_ints 5 b1 = [x0, x1, x2, x3, x4]"
    and "recv_str c2 = Inr (b2, c2')" and "scan_ints 5 b2 = [y0, y1, y2, y3, y4]"
  obtains w ms where "bounds_step\<^sup>*\<^sup>* (bounds_start p) w" "\<forall>(pr, cmd) \<in> set (requests w). pr = Send []"
    "core (around w) = (boundary_update (scan_boundaries b2 p))\<lparr>g_humi_under_fan := wrap32 (x1 - BIAS_HUMI), mq := ms\<rparr>"
proof -
  let ?A = "(Scan [x0, x1, x2, x3, x4] 0, cmd)" and ?B = "(Scan [y0, y1, y2, y3, y4] 0, cmd)"
  define at where "at = (\<lambda>q rs. \<lparr>around = (sys_start p)\<lparr>core := q\<rparr>, requests = rs\<rparr>)"
  note ok = assms(1,2)
  have start: "bounds_start p = at p []" by (simp add: at_def bounds_start_def sys_start_def)
  have "bounds_step (at p []) (at p [?A])" "bounds_step (at p [?A]) (at p [?A, ?B])"
    using bounds_step.accept [OF assms(3,2), of "at p []"] bounds_step.accept [OF assms(5,2), of "at p [?A]"] assms(4,6)
    by (simp_all add: at_def)
  then have 0: "bounds_step\<^sup>*\<^sup>* (bounds_start p) (at p [?A, ?B])" unfolding start by auto
  define p1 where "p1 = scan_assign 4 x4 (scan_assign 3 x3 (scan_assign 2 x2 (scan_assign 1 x1 (scan_assign 0 x0 p))))"
  define p2 where "p2 = scan_assign 4 y4 (scan_assign 3 y3 (scan_assign 2 y2 (scan_assign 1 y1 (scan_assign 0 y0 p1))))"
  have a: "boundary_run 7 (fst ?A, cmd, p) = Inr (Derived 0 (wrap32 (x1 - BIAS_HUMI)), cmd, p1)"
    by (simp add: eval_nat_numeral p1_def update_value_def scan_assign_def)
  have b1: "boundary_run 6 (fst ?B, cmd, p1) = Inr (Update 0, cmd, p2)"
    by (simp add: eval_nat_numeral p2_def)
  have ok2: "thread_ok (cmd, p2)"
    using ok by (simp add: thread_ok_def queue_ok_def p1_def p2_def)
  obtain m cmdb ms where b2: "boundary_run m (Update 0, cmd, p2) = Inr (Send [], cmdb, (update_from 0 5 p2)\<lparr>mq := ms\<rparr>)"
    "thread_ok (cmdb, (update_from 0 5 p2)\<lparr>mq := ms\<rparr>)"
    using run_from_update [OF ok2, of 0 5] by auto
  define p3 where "p3 = (boundary_update p2)\<lparr>mq := ms\<rparr>"
  define p4 where "p4 = update_store 0 (wrap32 (x1 - BIAS_HUMI)) p3"
  have b: "boundary_run (6 + m) (fst ?B, cmd, p1) = Inr (Send [], cmdb, p3)"
    using b1 b2(1) by (simp add: boundary_run_add p3_def update_from_all del: fst_conv)
  have ok4: "thread_ok (cmd, p4)"
    using b2(2) ok by (simp add: thread_ok_def queue_ok_def p4_def p3_def update_from_all)
  obtain k cmda ns where c: "boundary_run k (Update 1, cmd, p4) = Inr (Send [], cmda, (update_from 1 4 p4)\<lparr>mq := ns\<rparr>)"
    using run_from_update [OF ok4, of 1 4] by auto
  define p5 where "p5 = (update_from 1 4 p4)\<lparr>mq := ns\<rparr>"
  have c': "boundary_run (Suc k) (Derived 0 (wrap32 (x1 - BIAS_HUMI)), cmd, p3) = Inr (Send [], cmda, p5)"
    using c by (simp add: p4_def p5_def)
  let ?D = "(Derived 0 (wrap32 (x1 - BIAS_HUMI)), cmd)"
  have 1: "bounds_step\<^sup>*\<^sup>* (at p [?A, ?B]) (at p1 [?D, ?B])"
    using bounds_run [of 0 "at p [?A, ?B]" "fst ?A" cmd 7 "fst ?D" cmd p1] a by (simp add: at_def)
  have 2: "bounds_step\<^sup>*\<^sup>* (at p1 [?D, ?B]) (at p3 [?D, (Send [], cmdb)])"
    using bounds_run [of 1 "at p1 [?D, ?B]" "fst ?B" cmd "6 + m" "Send []" cmdb p3] b by (simp add: at_def)
  have 3: "bounds_step\<^sup>*\<^sup>* (at p3 [?D, (Send [], cmdb)]) (at p5 [(Send [], cmda), (Send [], cmdb)])"
    using bounds_run [of 0 "at p3 [?D, (Send [], cmdb)]" "fst ?D" cmd "Suc k" "Send []" cmda p5] c' by (simp add: at_def)
  have "p5 = (boundary_update (scan_boundaries b2 p))\<lparr>g_humi_under_fan := wrap32 (x1 - BIAS_HUMI), mq := ns\<rparr>"
    using assms(6)
    by (simp add: p5_def p4_def p3_def p2_def p1_def scan_boundaries_def scan_assign_def eval_nat_numeral
        update_store_def update_value_def boundary_update_def)
  then show ?thesis
    using that [of "at p5 [(Send [], cmda), (Send [], cmdb)]" ns] rtranclp_trans [OF 0 rtranclp_trans [OF 1 rtranclp_trans [OF 2 3]]]
    by (simp add: at_def)
qed

end
