(* ===== verification/Transfers.thy ===== *)
theory Transfers
  imports Typing
begin

text \<open>
  The two transfers that last until the client leaves, \<open>transfer_state_data\<close> and
  \<open>transfer_sensor_data\<close>, one access to a global variable at a time. Any number of them
  interleave with all the rest of the program. The variables of a line are read one after the
  other, as \<open>sprintf\<close> evaluates its arguments, so that a line can mix two measurements. A state
  transfer whose client has left goes on into \<open>state_change\<close>.
\<close>

section \<open>A transfer in steps\<close>

definition state_fields :: "(planter \<Rightarrow> int) list" where
  "state_fields = [g_state_led, g_state_fan, g_state_solenoid, g_state_drain, g_state_humidifier, g_state_dryer]"

definition sensor_fields :: "(planter \<Rightarrow> int) list" where
  "sensor_fields = [g_humi, g_temp, g_photo, g_magnet, g_moisture]"

datatype transfer =
    StateRead "int list"        \<comment> \<open>the values read so far\<close>
  | StateSend string
  | StateLeft                   \<comment> \<open>the client has left; \<open>state_change\<close> is next\<close>
  | SensorTest
  | SensorRead "int list"
  | SensorSend string
  | Ended

fun transfer_step :: "planter \<Rightarrow> transfer \<times> conn \<Rightarrow> (transfer \<times> conn) result" where
  "transfer_step p (StateRead vs, c) =
     (if length vs < length state_fields then Inr (StateRead (vs @ [(state_fields ! length vs) p]), c)
      else rbind (sprintf_buf (lines_of vs)) (\<lambda>buf. Inr (StateSend buf, c)))"
| "transfer_step p (StateSend buf, c) =
     (case network_send buf c of (rc, c') \<Rightarrow> Inr (if rc = -1 then StateLeft else StateRead [], c'))"
| "transfer_step p (SensorTest, c) =
     Inr (if g_humi p \<le> 0 \<or> g_temp p \<le> 0 then SensorTest else SensorRead [], c)"
| "transfer_step p (SensorRead vs, c) =
     (if length vs < length sensor_fields then Inr (SensorRead (vs @ [(sensor_fields ! length vs) p]), c)
      else rbind (sprintf_buf (lines_of vs)) (\<lambda>buf. Inr (SensorSend buf, c)))"
| "transfer_step p (SensorSend buf, c) =
     (case network_send buf c of (rc, c') \<Rightarrow> Inr (if rc = -1 then Ended else SensorTest, c'))"
| "transfer_step p (t, c) = Inr (t, c)"

text \<open>A round that nobody interrupts sends the text of theory \<open>Server\<close>.\<close>

fun transfer_steps :: "nat \<Rightarrow> planter \<Rightarrow> transfer \<times> conn \<Rightarrow> (transfer \<times> conn) result" where
  "transfer_steps 0 p x = Inr x"
| "transfer_steps (Suc n) p x = rbind (transfer_step p x) (transfer_steps n p)"

lemma round_is_text:
  "transfer_steps 8 p (StateRead [], c) = rbind (sprintf_buf (state_text p)) (\<lambda>buf.
     case network_send buf c of (rc, c') \<Rightarrow> Inr (if rc = -1 then StateLeft else StateRead [], c'))"
  "0 < g_humi p \<Longrightarrow> 0 < g_temp p \<Longrightarrow> transfer_steps 8 p (SensorTest, c) = rbind (sprintf_buf (sensor_text p)) (\<lambda>buf.
     case network_send buf c of (rc, c') \<Rightarrow> Inr (if rc = -1 then Ended else SensorTest, c'))"
  by (simp_all add: eval_nat_numeral state_fields_def sensor_fields_def state_text_def sensor_text_def
      rbind_def split: sum.split prod.split)

section \<open>Any number of transfers\<close>

record relaying =
  host :: system
  transfers :: "(transfer \<times> conn) list"

inductive relay_step :: "relaying \<Rightarrow> relaying \<Rightarrow> bool" where
  accept_state: "recv_str c = Inr (buf, c') \<Longrightarrow> atoi buf = NETWORK_CMD_STATE_SERVER_TO_CLIENT \<Longrightarrow> sent c = [] \<Longrightarrow>
    relay_step w (w\<lparr>transfers := transfers w @ [(StateRead [], c')]\<rparr>)"
| accept_sensor: "recv_str c = Inr (buf, c') \<Longrightarrow> atoi buf = NETWORK_CMD_SENSOR_SERVER_TO_CLIENT \<Longrightarrow> sent c = [] \<Longrightarrow>
    relay_step w (w\<lparr>transfers := transfers w @ [(SensorTest, c')]\<rparr>)"
| relay: "i < length (transfers w) \<Longrightarrow> transfer_step (core (host w)) (transfers w ! i) = Inr x \<Longrightarrow>
    relay_step w (w\<lparr>transfers := (transfers w)[i := x]\<rparr>)"
| left: "i < length (transfers w) \<Longrightarrow> transfers w ! i = (StateLeft, c) \<Longrightarrow>
      state_change (core (host w)) c = Some (Inr (p, c')) \<Longrightarrow>
    relay_step w (w\<lparr>host := (host w)\<lparr>core := p\<rparr>, transfers := (transfers w)[i := (Ended, c')]\<rparr>)"
| other: "sys_step (host w) s \<Longrightarrow> relay_step w (w\<lparr>host := s\<rparr>)"

inductive_cases relay_stepE: "relay_step w w'"

section \<open>What is sent\<close>

definition state_ranges :: "int set list" where
  "state_ranges = [{1, 2}, {3, 4, 13}, {7, 8}, {5, 6}, {9, 10}, {11, 12}]"

definition sensor_ranges :: "int set list" where
  "sensor_ranges = [{-128..255}, {-128..255}, {-1..54612}, {0, 1}, {0, 1}]"

definition within_ranges :: "int set list \<Rightarrow> int list \<Rightarrow> bool" where
  "within_ranges rs vs \<longleftrightarrow> length vs \<le> length rs \<and> (\<forall>i < length vs. vs ! i \<in> rs ! i)"

definition line_text :: "int set list \<Rightarrow> string \<Rightarrow> bool" where
  "line_text rs t \<longleftrightarrow> (\<exists>vs. length vs = length rs \<and> within_ranges rs vs \<and> t = lines_of vs)"

fun transfer_ok :: "transfer \<times> conn \<Rightarrow> bool" where
  "transfer_ok (StateRead vs, c) = (within_ranges state_ranges vs \<and> (\<forall>t \<in> set (sent c). line_text state_ranges t))"
| "transfer_ok (StateSend buf, c) = (line_text state_ranges buf \<and> (\<forall>t \<in> set (sent c). line_text state_ranges t))"
| "transfer_ok (StateLeft, c) = (\<forall>t \<in> set (sent c). line_text state_ranges t)"
| "transfer_ok (SensorTest, c) = (\<forall>t \<in> set (sent c). line_text sensor_ranges t)"
| "transfer_ok (SensorRead vs, c) = (within_ranges sensor_ranges vs \<and> (\<forall>t \<in> set (sent c). line_text sensor_ranges t))"
| "transfer_ok (SensorSend buf, c) = (line_text sensor_ranges buf \<and> (\<forall>t \<in> set (sent c). line_text sensor_ranges t))"
| "transfer_ok (Ended, c) =
     ((\<forall>t \<in> set (sent c). line_text state_ranges t) \<or> (\<forall>t \<in> set (sent c). line_text sensor_ranges t))"

lemma ranges_i32: "r \<in> set (state_ranges @ sensor_ranges) \<Longrightarrow> v \<in> r \<Longrightarrow> in_i32 v"
  by (auto simp: state_ranges_def sensor_ranges_def in_i32_def)

lemma fields_ranges:
  "states_valid p \<Longrightarrow> i < length state_fields \<Longrightarrow> (state_fields ! i) p \<in> state_ranges ! i"
  "globals_fit p \<Longrightarrow> i < length sensor_fields \<Longrightarrow> (sensor_fields ! i) p \<in> sensor_ranges ! i"
proof -
  have "list_all2 (\<lambda>f r. f p \<in> r) state_fields state_ranges" if "states_valid p"
    using that by (simp add: state_fields_def state_ranges_def states_valid_def del: insert_iff)
  then show "(state_fields ! i) p \<in> state_ranges ! i" if "states_valid p" "i < length state_fields"
    using that list_all2_nthD by fastforce
  have "list_all2 (\<lambda>f r. f p \<in> r) sensor_fields sensor_ranges" if "globals_fit p"
    using that by (simp add: sensor_fields_def sensor_ranges_def globals_fit_def del: insert_iff)
  then show "(sensor_fields ! i) p \<in> sensor_ranges ! i" if "globals_fit p" "i < length sensor_fields"
    using that list_all2_nthD by fastforce
qed

lemma within_ranges_snoc:
  "within_ranges rs vs \<Longrightarrow> length vs < length rs \<Longrightarrow> v \<in> rs ! length vs \<Longrightarrow> within_ranges rs (vs @ [v])"
  unfolding within_ranges_def by (simp add: nth_append less_Suc_eq)

lemma ranges_fit:
  assumes "within_ranges rs vs" and "rs = state_ranges \<or> rs = sensor_ranges"
  shows "sprintf_buf (lines_of vs) = Inr (lines_of vs)"
proof -
  have "in_i32 v" if v: "v \<in> set vs" for v
  proof -
    obtain i where "i < length vs" "vs ! i = v" using v by (auto simp: in_set_conv_nth)
    then have "v \<in> rs ! i" "rs ! i \<in> set rs"
      using assms(1) unfolding within_ranges_def by (metis order_less_le_trans, metis nth_mem order_less_le_trans)
    then show ?thesis using assms(2) by (intro ranges_i32 [of "rs ! i"]) auto
  qed
  then have "length (lines_of vs) \<le> 12 * length vs" by (rule lines_of_length)
  moreover have "length vs \<le> 6"
    using assms by (auto simp: within_ranges_def state_ranges_def sensor_ranges_def)
  ultimately show ?thesis by (simp add: sprintf_buf_def NETWORK_BUFSIZE_def)
qed

lemma state_field_next:
  "states_valid p \<Longrightarrow> within_ranges state_ranges vs \<Longrightarrow> length vs < length state_fields \<Longrightarrow>
   within_ranges state_ranges (vs @ [(state_fields ! length vs) p])"
  "globals_fit p \<Longrightarrow> within_ranges sensor_ranges vs \<Longrightarrow> length vs < length sensor_fields \<Longrightarrow>
   within_ranges sensor_ranges (vs @ [(sensor_fields ! length vs) p])"
  using fields_ranges [of p "length vs"]
  by (auto intro!: within_ranges_snoc simp: state_fields_def state_ranges_def sensor_fields_def sensor_ranges_def)

lemma line_text_all:
  "within_ranges state_ranges vs \<Longrightarrow> \<not> length vs < length state_fields \<Longrightarrow> line_text state_ranges (lines_of vs)"
  "within_ranges sensor_ranges vs \<Longrightarrow> \<not> length vs < length sensor_fields \<Longrightarrow> line_text sensor_ranges (lines_of vs)"
  unfolding line_text_def
  by (intro exI [of _ vs]; simp add: within_ranges_def state_fields_def state_ranges_def sensor_fields_def sensor_ranges_def)+

lemma sent_send: "set (sent (snd (network_send buf c))) \<subseteq> insert buf (set (sent c))"
  by (auto simp: network_send_def)

text \<open>A step of a transfer never fails, and keeps what was and will be sent right.\<close>

lemma transfer_step_ok:
  assumes "transfer_ok (t, c)" and "states_valid p" and "globals_fit p"
  shows "\<exists>x. transfer_step p (t, c) = Inr x \<and> transfer_ok x"
proof (cases t)
  case (StateRead vs)
  then show ?thesis
    using assms state_field_next(1) [of p vs] line_text_all(1) [of vs] ranges_fit [of state_ranges vs]
    by simp
next
  case (StateSend buf)
  then show ?thesis
    using assms(1) sent_send [of buf c] by (auto simp: within_ranges_def split: prod.split)
next
  case (SensorRead vs)
  then show ?thesis
    using assms state_field_next(2) [of p vs] line_text_all(2) [of vs] ranges_fit [of sensor_ranges vs]
    by simp
next
  case (SensorSend buf)
  then show ?thesis using assms(1) sent_send [of buf c] by (auto split: prod.split)
qed (use assms(1) in \<open>simp_all add: within_ranges_def\<close>)

definition relay_inv :: "relaying \<Rightarrow> bool" where
  "relay_inv w \<longleftrightarrow> sys_inv (host w) \<and> globals_fit (core (host w)) \<and> (\<forall>x \<in> set (transfers w). transfer_ok x)"

lemma recv_str_sent: "recv_str c = Inr (buf, c') \<Longrightarrow> sent c' = sent c"
  by (auto simp: recv_str_def Let_def split: prod.splits if_splits list.splits portion.splits option.splits)

lemma set_update: "y \<in> set (xs[i := x]) \<Longrightarrow> y = x \<or> y \<in> set xs"
  using set_update_subset_insert [of xs i x] by blast

lemma relay_inv_step:
  assumes "relay_inv w" and "relay_step w w'"
  shows "relay_inv w'"
  using assms(2)
proof (cases rule: relay_stepE [consumes 1, case_names state sensor relay left other])
  case (state c buf c')
  then show ?thesis using assms(1) recv_str_sent [of c buf c'] by (auto simp: relay_inv_def within_ranges_def)
next
  case (sensor c buf c')
  then show ?thesis using assms(1) recv_str_sent [of c buf c'] by (auto simp: relay_inv_def)
next
  case (relay i x)
  have "states_valid (core (host w))" "globals_fit (core (host w))" "transfer_ok (transfers w ! i)"
    using assms(1) relay(2) nth_mem by (auto simp: relay_inv_def sys_inv_def core_inv_def)
  then have "transfer_ok x"
    using transfer_step_ok [of "fst (transfers w ! i)" "snd (transfers w ! i)" "core (host w)"] relay(3) by auto
  then show ?thesis using assms(1) relay(1) by (auto simp: relay_inv_def dest: set_update)
next
  case (left i c p c')
  have c: "transfer_ok (StateLeft, c)" using assms(1) left(2,3) nth_mem [of i "transfers w"] by (auto simp: relay_inv_def)
  have "core_inv p" "globals_fit p"
    using core_inv.state_change_J [OF left(4)] globals_fit.state_change_J [OF left(4)] assms(1)
    by (simp_all add: relay_inv_def sys_inv_def)
  moreover have "sent c' = sent c"
    using left(4) recv_str_sent by (auto simp: state_change_def ok_simps split: if_splits)
  ultimately show ?thesis
    using assms(1) left(1) c by (auto simp: relay_inv_def sys_inv_def dest!: set_update)
next
  case (other s)
  then show ?thesis
    using assms(1) sys_inv_step [of "host w" s] fits_step [of "host w" s] by (simp add: relay_inv_def)
qed

interpretation relay: transition_system relay_step relay_inv
  by unfold_locales (rule relay_inv_step)

definition relay_start :: "planter \<Rightarrow> relaying" where
  "relay_start p = \<lparr>host = sys_start p, transfers = []\<rparr>"

lemma relay_inv_start: "core_inv p \<Longrightarrow> globals_fit p \<Longrightarrow> relay_inv (relay_start p)"
  using sys_inv_start [of p] by (simp add: relay_inv_def relay_start_def sys_start_def)

text \<open>A transfer that nobody interrupts is one of the interleavings.\<close>

lemma relay_run:
  assumes "i < length (transfers w)" and "transfer_steps n (core (host w)) (transfers w ! i) = Inr x"
  shows "relay_step\<^sup>*\<^sup>* w (w\<lparr>transfers := (transfers w)[i := x]\<rparr>)"
  using assms
proof (induction n arbitrary: w)
  case 0
  then have "w\<lparr>transfers := (transfers w)[i := x]\<rparr> = w" by (cases w) (auto simp: list_update_same_conv)
  then show ?case by simp
next
  case (Suc n)
  then obtain y where y: "transfer_step (core (host w)) (transfers w ! i) = Inr y"
    "transfer_steps n (core (host w)) y = Inr x" by (auto simp: rbind_eq_Inr)
  let ?w = "w\<lparr>transfers := (transfers w)[i := y]\<rparr>"
  have "relay_step\<^sup>*\<^sup>* ?w (?w\<lparr>transfers := (transfers ?w)[i := x]\<rparr>)"
    by (rule Suc.IH) (use Suc.prems(1) y(2) in simp_all)
  with relay_step.relay [OF Suc.prems(1) y(1)] show ?case by (simp add: converse_rtranclp_into_rtranclp)
qed

text \<open>The lines written out.\<close>

lemma list_all2_line:
  "line_text rs t \<longleftrightarrow> (\<exists>vs. list_all2 (\<in>) vs rs \<and> t = lines_of vs)"
  by (auto simp: line_text_def within_ranges_def list_all2_conv_all_nth)

lemma ex_list_all2:
  "(\<exists>vs. list_all2 (\<in>) vs (r # rs) \<and> Q vs) \<longleftrightarrow> (\<exists>v \<in> r. \<exists>vs. list_all2 (\<in>) vs rs \<and> Q (v # vs))"
  "(\<exists>vs. list_all2 (\<in>) vs [] \<and> Q vs) \<longleftrightarrow> Q []"
  by (auto simp: list_all2_Cons2)

lemma line_values:
  "line_text state_ranges t \<longleftrightarrow>
     (\<exists>led \<in> {1, 2}. \<exists>fan \<in> {3, 4, 13}. \<exists>valve \<in> {7, 8}. \<exists>drain \<in> {5, 6}. \<exists>mist \<in> {9, 10}. \<exists>dryer \<in> {11, 12}.
        t = lines_of [led, fan, valve, drain, mist, dryer])"
  "line_text sensor_ranges t \<longleftrightarrow>
     (\<exists>humi \<in> {-128..255}. \<exists>temp \<in> {-128..255}. \<exists>photo \<in> {-1..54612}. \<exists>magnet \<in> {0, 1}. \<exists>moisture \<in> {0, 1}.
        t = lines_of [humi, temp, photo, magnet, moisture])"
  unfolding list_all2_line state_ranges_def sensor_ranges_def ex_list_all2 by (rule refl)+

lemma transfer_lines:
  "transfer_ok (t, c) \<Longrightarrow>
   (\<forall>text \<in> set (sent c). line_text state_ranges text) \<or> (\<forall>text \<in> set (sent c). line_text sensor_ranges text)"
  by (cases t) simp_all

end
