(* ===== verification/Shutdown.thy ===== *)
theory Shutdown
  imports Lifecycle Actions
begin

text \<open>
  SIGINT while the main loop is inside \<open>message_queue_handler\<close>: the signal handler
  \<open>resources_deinit\<close> runs in the middle of it, between any two of its actions (theory \<open>Actions\<close>),
  and the rest of the call is never executed. The button of the humidifier is looked at more
  closely: what counts is not the ioctl that drives its pin low but the falling edge.
\<close>

section \<open>The handler, interrupted\<close>

text \<open>The handler after \<open>n\<close> actions, and the release that interrupts it there.\<close>

fun acts_after :: "nat \<Rightarrow> act list \<times> planter \<Rightarrow> act list \<times> planter" where
  "acts_after 0 x = x"
| "acts_after (Suc n) ([], p) = ([], p)"
| "acts_after (Suc n) (a # as, p) = (case exec_act a p of (q, branch) \<Rightarrow> acts_after n (branch @ as, q))"

definition interrupted :: "nat \<Rightarrow> int \<Rightarrow> planter \<Rightarrow> planter" where
  "interrupted n mq_cmd p = devices_deinit (snd (acts_after n (handler_acts mq_cmd, p)))"

text \<open>Between \<open>cnt++\<close> and the ioctl that releases the button.\<close>

fun pressing :: "act list \<Rightarrow> bool" where
  "pressing (Button cmd # as) = True"
| "pressing (Nap n # Button cmd # as) = True"
| "pressing as = False"

section \<open>The button\<close>

fun edge_step :: "int option \<times> nat \<Rightarrow> kcall \<Rightarrow> int option \<times> nat" where
  "edge_step (v, n) c =
     (level_step (GPG 15) v c, if c = GpioSet (GPG 15) 0 \<and> v \<noteq> Some 0 then Suc n else n)"

definition button_edges :: "kcall list \<Rightarrow> nat" where
  "button_edges cs = snd (foldl edge_step (None, 0) cs)"

definition released :: "kcall list \<Rightarrow> bool" where
  "released cs \<longleftrightarrow> gpio_level (GPG 15) cs \<noteq> Some 0 \<and> button_edges cs = presses cs"

definition held :: "kcall list \<Rightarrow> bool" where
  "held cs \<longleftrightarrow> gpio_level (GPG 15) cs = Some 0 \<and> button_edges cs = presses cs"

lemma edge_level: "fst (foldl edge_step (v, n) cs) = foldl (level_step (GPG 15)) v cs"
  by (induction cs arbitrary: v n) simp_all

lemma edges_append:
  "button_edges (cs @ ds) = snd (foldl edge_step (gpio_level (GPG 15) cs, button_edges cs) ds)"
  by (simp add: button_edges_def gpio_level_def edge_level [of None 0 cs, symmetric])

lemma edges_simps [simp]:
  "button_edges [] = 0"
  "button_edges (cs @ [c]) =
     (if c = GpioSet (GPG 15) 0 \<and> gpio_level (GPG 15) cs \<noteq> Some 0 then Suc (button_edges cs) else button_edges cs)"
  by (simp_all add: edges_append) (simp add: button_edges_def)

text \<open>A call that has nothing to do with the pin of the button.\<close>

definition elsewhere :: "kcall \<Rightarrow> bool" where
  "elsewhere c =
     (case c of GpioSet q x \<Rightarrow> q \<noteq> GPG 15 | GpioFree q \<Rightarrow> q \<noteq> GPG 15 | _ \<Rightarrow> True)"

lemma elsewhere_log:
  assumes "list_all elsewhere ds"
  shows "gpio_level (GPG 15) (cs @ ds) = gpio_level (GPG 15) cs"
    "button_edges (cs @ ds) = button_edges cs" "presses (cs @ ds) = presses cs"
proof -
  have one: "level_step (GPG 15) v c = v" "c \<noteq> GpioSet (GPG 15) 0" if "elsewhere c" for v c
    using that by (cases c; simp add: elsewhere_def)+
  have l: "foldl (level_step (GPG 15)) v ds = v" for v
    using assms by (induction ds) (simp_all add: one)
  have e: "foldl edge_step (v, n) ds = (v, n)" for v n
    using assms by (induction ds) (simp_all add: one)
  have "presses ds = 0" using assms by (induction ds) (simp_all add: one)
  then show "gpio_level (GPG 15) (cs @ ds) = gpio_level (GPG 15) cs"
    "button_edges (cs @ ds) = button_edges cs" "presses (cs @ ds) = presses cs"
    by (simp_all add: gpio_level_append l edges_append e del: edges_simps)
qed

lemma elsewhere_keeps:
  "list_all elsewhere ds \<Longrightarrow> released (cs @ ds) = released cs"
  "list_all elsewhere ds \<Longrightarrow> held (cs @ ds) = held cs"
  by (simp_all add: released_def held_def elsewhere_log del: presses_simps)

lemma press_log:
  "released cs \<Longrightarrow> held (cs @ [GpioSet (GPG 15) 0])"
  "released cs \<or> held cs \<Longrightarrow> released (cs @ [GpioSet (GPG 15) 1])"
  by (auto simp: released_def held_def)

section \<open>The call, action by action\<close>

text \<open>Action lists in which every press is complete.\<close>

definition no_press :: "act \<Rightarrow> bool" where
  "no_press a = (case a of Count \<Rightarrow> False | Button cmd \<Rightarrow> False | IfCount r as bs \<Rightarrow> False | _ \<Rightarrow> True)"

inductive unbroken :: "act list \<Rightarrow> bool" where
  nothing: "unbroken []"
| press: "unbroken as \<Longrightarrow> unbroken (Count # Button HUMIDIFIER_LOW # Nap k # Button HUMIDIFIER_HIGH # as)"
| branches: "unbroken as \<Longrightarrow> unbroken bs \<Longrightarrow> unbroken cs \<Longrightarrow> unbroken (IfCount r as bs # cs)"
| quiet: "no_press a \<Longrightarrow> unbroken as \<Longrightarrow> unbroken (a # as)"

inductive_cases unbroken_ConsE: "unbroken (a # as)"

lemma unbroken_append: "unbroken as \<Longrightarrow> unbroken bs \<Longrightarrow> unbroken (as @ bs)"
  by (induction rule: unbroken.induct) (simp_all add: unbroken.intros)

lemma unbroken_quiet: "list_all no_press as \<Longrightarrow> unbroken as"
  by (induction as) (simp_all add: unbroken.intros)

lemma unbroken_handler: "unbroken (handler_acts c)"
proof -
  have push: "unbroken push_acts" unfolding push_acts_def by (intro unbroken.intros)
  then have push_2: "unbroken push_2_acts"
    unfolding push_2_acts_def by (intro unbroken_append unbroken.intros) (simp_all add: no_press_def)
  have button: "unbroken [IfCount 0 push_acts [IfCount 1 [] push_2_acts], Nap 100000]"
    "unbroken [IfCount 0 [] [IfCount 1 push_2_acts push_acts], Nap 100000]"
    by (intro unbroken.intros push push_2; simp add: no_press_def)+
  have others: "unbroken [Connect ch]" "unbroken [Disconnect ch]" "unbroken (fan_rotate_acts sp)" "unbroken (servo_acts pw)" for ch sp pw
    by (simp_all add: unbroken_quiet no_press_def fan_rotate_acts_def servo_acts_def)
  have "unbroken (if valid_cmd c then [Store c] else [])" by (simp add: unbroken_quiet no_press_def)
  then show ?thesis
    unfolding handler_acts_def by (intro unbroken_append) (simp_all add: button others unbroken.intros)
qed

text \<open>Where the call is, and what the count and the button are there.\<close>

definition in_call :: "act list \<times> planter \<Rightarrow> bool" where
  "in_call x \<longleftrightarrow> (case x of (as, p) \<Rightarrow> steady (dev p) \<and>
     (unbroken as \<and> counted 0 (dev p) \<and> released (hw (dev p)) \<or>
      (\<exists>k cs. as = Button HUMIDIFIER_LOW # Nap k # Button HUMIDIFIER_HIGH # cs \<and> unbroken cs \<and>
         counted 1 (dev p) \<and> released (hw (dev p))) \<or>
      (\<exists>k cs. as = Nap k # Button HUMIDIFIER_HIGH # cs \<and> unbroken cs \<and>
         counted 0 (dev p) \<and> held (hw (dev p))) \<or>
      (\<exists>cs. as = Button HUMIDIFIER_HIGH # cs \<and> unbroken cs \<and>
         counted 0 (dev p) \<and> held (hw (dev p)))))"

lemma exec_quiet:
  assumes "files_open (dev p)" and "no_press a"
  shows "snd (exec_act a p) = []" "cnt (dev (fst (exec_act a p))) = cnt (dev p)"
    "\<exists>ds. list_all elsewhere ds \<and> hw (dev (fst (exec_act a p))) = hw (dev p) @ ds"
proof -
  show "snd (exec_act a p) = []" "cnt (dev (fst (exec_act a p))) = cnt (dev p)"
    using assms(2) by (cases a; simp add: no_press_def relay_connect_def relay_disconnect_def usleep_def)+
  have "hw (dev p) = hw (dev p) @ []" by simp
  then show "\<exists>ds. list_all elsewhere ds \<and> hw (dev (fst (exec_act a p))) = hw (dev p) @ ds"
    using assms
    by (cases a)
      (auto simp: no_press_def elsewhere_def files_open_def relay_connect_def relay_disconnect_def sys_ioctl_def
        usleep_def duty_log intro: exI [of _ "[]"])
qed

lemma in_call_quiet:
  assumes "files_open (dev p)" and "no_press a" and "exec_act a p = (q, branch)"
  shows "branch = []" "counted k (dev q) = counted k (dev p)"
    "released (hw (dev q)) = released (hw (dev p))" "held (hw (dev q)) = held (hw (dev p))"
  using exec_quiet [OF assms(1,2)] assms(3)
  by (auto simp: counted_def elsewhere_keeps elsewhere_log(3) simp del: presses_simps)

lemma in_call_step:
  assumes "in_call (a # as, p)" and "exec_act a p = (q, branch)"
  shows "in_call (branch @ as, q)"
proof -
  have st: "steady (dev p)" and op: "files_open (dev p)"
    using assms(1) by (simp_all add: in_call_def steady_def)
  have st': "steady (dev q)" using exec_steady [OF st, of a] assms(2) by simp
  consider (calm) "unbroken (a # as)" "counted 0 (dev p)" "released (hw (dev p))"
    | (low) k cs where "a = Button HUMIDIFIER_LOW" "as = Nap k # Button HUMIDIFIER_HIGH # cs" "unbroken cs"
        "counted 1 (dev p)" "released (hw (dev p))"
    | (wait) k cs where "a = Nap k" "as = Button HUMIDIFIER_HIGH # cs" "unbroken cs" "counted 0 (dev p)" "held (hw (dev p))"
    | (high) "a = Button HUMIDIFIER_HIGH" "unbroken as" "counted 0 (dev p)" "held (hw (dev p))"
    using assms(1) by (auto simp: in_call_def)
  then show ?thesis
  proof cases
    case calm
    from calm(1) show ?thesis
    proof (cases rule: unbroken_ConsE [consumes 1, case_names press branches quiet])
      case (press cs k)
      then have q: "branch = []" "q = p\<lparr>dev := (dev p)\<lparr>cnt := wrap32 (cnt (dev p) + 1)\<rparr>\<rparr>"
        using assms(2) by simp_all
      have "counted 1 (dev q)" using calm(2) by (simp add: q(2) counted_def wrap32_add del: wrap32_Suc)
      then show ?thesis using calm(3) st' press q(1) by (simp add: q(2) in_call_def)
    next
      case (branches us vs r)
      then show ?thesis using calm assms(2) st' by (auto simp: in_call_def intro: unbroken_append)
    next
      case quiet
      then show ?thesis
        using calm in_call_quiet [OF op quiet(1) assms(2)] st' by (auto simp: in_call_def)
    qed
  next
    case low
    then have "branch = []" "q = p\<lparr>dev := (dev p)\<lparr>hw := hw (dev p) @ [GpioSet (GPG 15) 0]\<rparr>\<rparr>"
      using assms(2) duty_log(3) [OF op] by simp_all
    then show ?thesis using low st' by (simp add: in_call_def counted_def press_log add.commute)
  next
    case wait
    then have "no_press a" by (simp add: no_press_def)
    then show ?thesis using wait in_call_quiet [OF op _ assms(2)] st' by (simp add: in_call_def)
  next
    case high
    then have "branch = []" "q = p\<lparr>dev := (dev p)\<lparr>hw := hw (dev p) @ [GpioSet (GPG 15) 1]\<rparr>\<rparr>"
      using assms(2) duty_log(4) [OF op] by simp_all
    then show ?thesis using high st' by (simp add: in_call_def counted_def press_log)
  qed
qed

lemma in_call_after: "in_call x \<Longrightarrow> in_call (acts_after n x)"
proof (induction n x rule: acts_after.induct)
  case (3 n a as p)
  obtain q branch where e: "exec_act a p = (q, branch)" by fastforce
  then show ?case using 3 in_call_step [OF "3.prems" e] by simp
qed simp_all

lemma in_call_start: "ready (dev p) \<Longrightarrow> released (hw (dev p)) \<Longrightarrow> in_call (handler_acts c, p)"
  by (simp add: in_call_def ready_steady unbroken_handler)

text \<open>Not inside a press, everything is as between two calls.\<close>

lemma in_call_calm:
  assumes "in_call (as, p)" and "\<not> pressing as"
  shows "ready (dev p)" "released (hw (dev p))"
  using assms by (auto simp: in_call_def ready_steady)

section \<open>The release\<close>

lemma fds_distinct:
  assumes "files_open w"
  shows "fd_relay w \<noteq> fd_fan w" "fd_relay w \<noteq> fd_servo w" "fd_relay w \<noteq> fd_humidifier w"
    "fd_fan w \<noteq> fd_servo w" "fd_fan w \<noteq> fd_humidifier w" "fd_servo w \<noteq> fd_humidifier w"
  using assms paths_distinct by (auto simp: files_open_def)

lemma press_whole_log: "released cs \<Longrightarrow> released (cs @ [GpioSet (GPG 15) 0, Sleep n, GpioSet (GPG 15) 1])"
  by (auto simp: released_def gpio_level_append edges_append)

lemma push_released:
  assumes "files w (fd_humidifier w) = Some HUMIDIFIER_PATH" and "released (hw w)"
  shows "released (hw (humidifier_push w))" "files (humidifier_push w) = files w"
    "fd_humidifier (humidifier_push w) = fd_humidifier w"
  using assms press_whole_log by (simp_all add: humidifier_push_log)

lemma usleep_released [simp]:
  "released (hw (usleep n w)) = released (hw w)" "files (usleep n w) = files w" "fd_humidifier (usleep n w) = fd_humidifier w"
  by (simp_all add: usleep_def elsewhere_keeps elsewhere_def)

lemma off_released:
  assumes "files w (fd_humidifier w) = Some HUMIDIFIER_PATH" and "released (hw w)"
  shows "released (hw (humidifier_deinit w))"
  using assms
  by (simp add: humidifier_deinit_def humidifier_off_def humidifier_push_2_def push_released sys_close_def)

text \<open>What is released before the humidifier has nothing to do with its button.\<close>

lemma deinit_humidifier:
  assumes "files_open (dev p)"
  obtains w ds where "dev (devices_deinit p) = humidifier_deinit w" "files w (fd_humidifier w) = Some HUMIDIFIER_PATH"
    "cnt w = cnt (dev p)" "hw w = hw (dev p) @ ds" "list_all elsewhere ds"
proof -
  let ?w = "fan_deinit (servo_deinit (relay_deinit (dev p)))"
  note f = fds_distinct [OF assms] paths_distinct
  have "dev (devices_deinit p) = humidifier_deinit ?w" by (simp add: devices_deinit_def Let_def)
  moreover have "files ?w (fd_humidifier ?w) = Some HUMIDIFIER_PATH" "cnt ?w = cnt (dev p)"
    "\<exists>ds. hw ?w = hw (dev p) @ ds \<and> list_all elsewhere ds"
    using assms [unfolded files_open_def] f f [symmetric]
    by (simp_all add: relay_deinit_def servo_deinit_def fan_deinit_def sys_close_def Let_def
      servo_set_def usleep_def sys_ioctl_def relay_disconnect_def elsewhere_def)
  ultimately show ?thesis using that by blast
qed

lemma deinit_released:
  assumes "files_open (dev p)" and "released (hw (dev p))"
  shows "released (hw (dev (devices_deinit p)))"
  by (rule deinit_humidifier [OF assms(1)]) (use assms(2) off_released in \<open>simp add: elsewhere_keeps\<close>)

text \<open>Interrupted outside a press, the release finds everything in order.\<close>

lemma interrupted_calm:
  assumes "ready (dev p)" and "released (hw (dev p))" and "\<not> pressing (fst (acts_after n (handler_acts c, p)))"
  shows "ready (dev (snd (acts_after n (handler_acts c, p))))" "released (hw (dev (interrupted n c p)))"
proof -
  obtain as q where a: "acts_after n (handler_acts c, p) = (as, q)" by fastforce
  have "in_call (as, q)" using in_call_after [OF in_call_start [OF assms(1,2)], of n c] a by simp
  moreover have "\<not> pressing as" using assms(3) a by simp
  ultimately have r: "ready (dev q)" "released (hw (dev q))" using in_call_calm by blast+
  then show "ready (dev (snd (acts_after n (handler_acts c, p))))" "released (hw (dev (interrupted n c p)))"
    using deinit_released [OF ready_opened] by (simp_all add: interrupted_def a)
qed

text \<open>Inside the first press, the count is ahead of the button, or the button is already down.\<close>

lemma interrupted_press:
  assumes "ready (dev p)" and "released (hw (dev p))" and "presses (hw (dev p)) \<le> 2147483646"
    and "mist (panel_of (dev p)) = 0" and "n \<in> {2, 3, 4}"
  shows "button_edges (hw (dev (interrupted n MQ_CMD_HUMIDIFIER_ON p))) = button_edges (hw (dev p)) + 2"
proof -
  have op: "files_open (dev p)" by (rule ready_opened [OF assms(1)])
  have c: "cnt (dev p) smod 3 = 0" "cnt (dev p) = int (presses (hw (dev p)))" "presses (hw (dev p)) mod 3 = 0"
    using cnt_mode [OF assms(1)] assms(1,3,4) by (simp_all add: ready_def in_i32_def)
  have acts: "handler_acts MQ_CMD_HUMIDIFIER_ON =
      [IfCount 0 push_acts [IfCount 1 [] push_2_acts], Nap 100000, Store MQ_CMD_HUMIDIFIER_ON]"
    by (simp add: handler_acts_def cmd_defs valid_cmd_def)
  define p1 where "p1 = p\<lparr>dev := (dev p)\<lparr>cnt := cnt (dev p) + 1\<rparr>\<rparr>"
  define p2 where "p2 = p1\<lparr>dev := (dev p1)\<lparr>hw := hw (dev p1) @ [GpioSet (GPG 15) 0]\<rparr>\<rparr>"
  have op1: "files_open (dev p1)" using op by (simp add: p1_def files_open_def)
  have count: "exec_act Count p = (p1, [])" using assms(3) c(2) by (simp add: p1_def in_i32_def)
  have low: "exec_act (Button HUMIDIFIER_LOW) p1 = (p2, [])" using duty_log(3) [OF op1] by (simp add: p2_def)
  have few: "acts_after 2 x = acts_after (Suc (Suc 0)) x" "acts_after 3 x = acts_after (Suc (Suc (Suc 0))) x"
    "acts_after 4 x = acts_after (Suc (Suc (Suc (Suc 0)))) x" for x
    by (simp_all add: eval_nat_numeral)
  define q where "q = snd (acts_after n (handler_acts MQ_CMD_HUMIDIFIER_ON, p))"
  have "q = (if n = 2 then p1 else if n = 3 then p2 else p2\<lparr>dev := usleep 200000 (dev p2)\<rparr>)"
    using assms(5) c(1)
    by (elim insertE) (simp_all add: q_def acts push_acts_def few count low del: exec_act.simps(7,8))
  moreover have up: "(int (presses (hw (dev p))) + 1) mod 3 = 1" using c(3) by presburger
  ultimately have q: "files_open (dev q)" "cnt (dev q) smod 3 = 1"
    "hw (dev q) = hw (dev p) @ (if n = 2 then [] else if n = 3 then [GpioSet (GPG 15) 0] else [GpioSet (GPG 15) 0, Sleep 200000])"
    using op1 up assms(3,5) c
    by (simp_all add: p1_def p2_def usleep_def files_open_def signed_modulo_int_def sgn_if)
  show ?thesis
  proof (rule deinit_humidifier [OF q(1)])
    fix w ds
    assume w: "dev (devices_deinit q) = humidifier_deinit w" "files w (fd_humidifier w) = Some HUMIDIFIER_PATH"
      "cnt w = cnt (dev q)" "hw w = hw (dev q) @ ds" "list_all elsewhere ds"
    have "hw (humidifier_deinit w) = hw w @ [GpioSet (GPG 15) 0, Sleep 200000, GpioSet (GPG 15) 1, Sleep 500000,
        GpioSet (GPG 15) 0, Sleep 200000, GpioSet (GPG 15) 1, Sleep 100000]"
      using w(2,3) q(2)
      by (simp add: humidifier_deinit_def humidifier_off_def humidifier_push_2_def humidifier_push_log usleep_def sys_close_def)
    moreover have "gpio_level (GPG 15) (hw w) = gpio_level (GPG 15) (hw (dev q))"
      "button_edges (hw w) = button_edges (hw (dev q))"
      using w(4,5) by (simp_all add: elsewhere_log)
    moreover have "(if gpio_level (GPG 15) (hw (dev q)) = Some 0 then 0 else 1) + button_edges (hw (dev q)) =
        button_edges (hw (dev p)) + 1"
      using assms(2,5) by (auto simp: q(3) edges_append gpio_level_append released_def)
    ultimately show ?thesis
      using w(1) by (simp add: interrupted_def q_def edges_append gpio_level_append split: if_splits)
  qed
qed

section \<open>Every reachable state\<close>

text \<open>Between two calls the devices are ready, the button is up, and no press was lost.\<close>

definition button_up :: "planter \<Rightarrow> bool" where
  "button_up p \<longleftrightarrow> ready (dev p) \<and> released (hw (dev p))"

lemma in_call_run: "in_call (as, p) \<Longrightarrow> in_call ([], run_acts as p)"
proof (induction as p rule: run_acts.induct)
  case (2 a as p)
  then show ?case using in_call_step [of a as p] by (cases "exec_act a p") simp
qed simp

lemma button_up_handler: "button_up p \<Longrightarrow> button_up (message_queue_handler c p)"
  using in_call_calm [OF in_call_run [OF in_call_start [of p c]]]
  by (simp add: button_up_def run_handler)

lemma button_up_mq [simp]: "button_up (p\<lparr>mq := ms\<rparr>) = button_up p"
  by (simp add: button_up_def)

lemma mq_receive_up: "dev (snd (mq_receive p)) = dev p" "button_up (snd (mq_receive p)) = button_up p"
  by (simp_all add: mq_receive_def split: list.split)

interpretation button_up: request_invariant button_up
proof unfold_locales
  show "button_up q" if "button_up p" "receive_boundary_data cmd p c = Some (Inr (q, c'))" for p cmd c q c'
    using that(2) by (rule receive_boundary_only)
      (use that(1) in \<open>simp add: button_up_def new_boundaries_def scan_boundaries_def boundary_update_def Let_def\<close>)
qed (simp_all add: button_up_handler, simp_all add: button_up_def)

interpretation humitemp_button: thread_keeps "humitemp_measure char_signed delivered" humitemp_decisions
  "humitemp_logs stale" "\<lambda>t. button_up (snd t)"
  by (rule thread_keeps_planter)
    (auto simp: humitemp_decisions_def humitemp_measure_def button_up_def case_prod_beta Let_def logs_only(1)
      split: option.split)

interpretation photo_button: thread_keeps "photo_measure v" "[led_auto]" "photo_logs stale" "\<lambda>t. button_up (snd t)"
  by (rule thread_keeps_planter) (auto simp: photo_measure_def button_up_def case_prod_beta Let_def logs_only(2))

interpretation magnetic_button: thread_keeps "magnetic_measure get later" "[valve_auto]" "magnetic_logs stale"
  "\<lambda>t. button_up (snd t)"
  by (rule thread_keeps_planter) (auto simp: magnetic_measure_def button_up_def logs_only(3))

interpretation moisture_button: thread_keeps "moisture_measure get" "[drain_auto]" "moisture_logs stale"
  "\<lambda>t. button_up (snd t)"
  by (rule thread_keeps_planter) (auto simp: moisture_measure_def button_up_def logs_only(4))

lemma main_loop_button: "main_loop rc p = Inr (started, q) \<Longrightarrow> button_up p \<Longrightarrow> button_up q"
  by (auto simp: main_loop_def rbind_eq_Inr mq_poll_def mq_receive_def button_up.keep_handler
      split: option.splits list.splits if_splits)

lemma button_step:
  assumes "button_up (core s)" and "sys_step s s'"
  shows "button_up (core s')"
  using assms(2)
proof (cases rule: sys_stepE [consumes 1, case_names humitemp photo magnetic moisture main request])
  case (humitemp char_signed delivered stale st cmd p)
  then show ?thesis using humitemp_button.step_J [OF humitemp(2)] assms(1) by simp
next
  case (photo wr rd temp stale st cmd p)
  then show ?thesis using photo_button.step_J [OF photo(2)] assms(1) by simp
next
  case (magnetic get later stale st cmd p)
  then show ?thesis using magnetic_button.step_J [OF magnetic(2)] assms(1) by simp
next
  case (moisture get stale st cmd p)
  then show ?thesis using moisture_button.step_J [OF moisture(2)] assms(1) by simp
next
  case (main accept_rc started p)
  then show ?thesis using main_loop_button assms(1) by simp
next
  case (request env c p c')
  then show ?thesis using button_up.socket_handler_J [OF request(2)] assms(1) by simp
qed

interpretation button_system: transition_system sys_step "\<lambda>s. button_up (core s)"
  by unfold_locales (rule button_step)

text \<open>At the start the button has never been pressed.\<close>

lemma init_button:
  assumes "opens openf"
  shows "released (hw (actuators_init (world0 openf cfg)))"
  using assms paths_distinct paths_distinct [symmetric]
  by (simp add: actuators_init_def world0_def relay_init_def servo_init_def fan_init_def
      humidifier_init_def sys_open_def Let_def sys_ioctl_def usleep_def servo_set_def opens_def
      released_def gpio_level_def button_edges_def)

lemma main_init_button:
  assumes "dev p = world0 openf cfg" and "opens openf"
    and "main_init stale rc env dir db_ok mq_rc left p = Some (Inr q)"
  shows "button_up q"
proof -
  have "dev q = actuators_init (world0 openf cfg)"
    using assms(1,3)
    by (auto simp: main_init_def Let_def rbind_eq_Inr message_queue_init_def devices_init_dev
        split: option.splits sum.splits)
  then show ?thesis
    using actuators_init_panel(1) [OF assms(2)] init_button [OF assms(2)] by (simp add: button_up_def)
qed

end
