(* ===== verification/Release.thy ===== *)
theory Release
  imports Shutdown
begin

text \<open>
  The SIGINT handler \<open>resources_deinit\<close>, one release after the other, in the main thread. Until its
  \<open>exit\<close> the sensor threads and the requests go on beside it, on what has been released already.
\<close>

section \<open>The release in steps\<close>

definition release_stages :: "bool \<Rightarrow> (planter \<Rightarrow> planter result) list" where
  "release_stages stale =
     [\<lambda>p. Inr (devices_deinit p),
      \<lambda>p. rbind (music_deinit stale (titles p)) (\<lambda>(freed, m). Inr (p\<lparr>titles := m\<rparr>)),
      \<lambda>p. rbind (database_deinit (db p)) (\<lambda>d. Inr (p\<lparr>db := d\<rparr>)),
      \<lambda>p. Inr (message_queue_deinit p)]"

text \<open>Left alone, the steps are the handler.\<close>

lemma release_stages_handler:
  "resources_deinit stale p = rbind (foldl rbind (Inr p) (release_stages stale)) (\<lambda>p. Inr (p, 1))"
  by (cases "music_deinit stale (titles (devices_deinit p))")
    (auto simp: resources_deinit_def release_stages_def Let_def rbind_assoc split: prod.split)

datatype process = Releasing nat | Exited int   \<comment> \<open>the releases done; the exit status\<close>

text \<open>The other threads: all but that of the main loop.\<close>

inductive side_step :: "system \<Rightarrow> system \<Rightarrow> bool" where
  humitemp: "thread_step (humitemp_measure char_signed delivered) humitemp_decisions
      (humitemp_logs stale) (stage_h s) (cmd_h s, core s) = Inr (st, cmd, p) \<Longrightarrow>
    side_step s (s\<lparr>core := p, stage_h := st, cmd_h := cmd\<rparr>)"
| photo: "thread_step (photo_measure (fst (photo_get_intensity wr rd temp))) [led_auto] (photo_logs stale)
      (stage_p s) (cmd_p s, core s) = Inr (st, cmd, p) \<Longrightarrow>
    side_step s (s\<lparr>core := p, stage_p := st, cmd_p := cmd\<rparr>)"
| magnetic: "thread_step (magnetic_measure get later) [valve_auto] (magnetic_logs stale)
      (stage_g s) (cmd_g s, core s) = Inr (st, cmd, p) \<Longrightarrow>
    side_step s (s\<lparr>core := p, stage_g := st, cmd_g := cmd\<rparr>)"
| moisture: "thread_step (moisture_measure get) [drain_auto] (moisture_logs stale)
      (stage_m s) (cmd_m s, core s) = Inr (st, cmd, p) \<Longrightarrow>
    side_step s (s\<lparr>core := p, stage_m := st, cmd_m := cmd\<rparr>)"
| request: "socket_handler env (core s) c = Some (Inr (p, c')) \<Longrightarrow> length (cmd0 env) = MQ_MSG_SIZE \<Longrightarrow>
    set (snaps env) \<subseteq> {core s} \<Longrightarrow> side_step s (s\<lparr>core := p\<rparr>)"

inductive_cases side_stepE: "side_step s s'"

inductive closing_step :: "process \<times> system \<Rightarrow> process \<times> system \<Rightarrow> bool" where
  release: "n < 4 \<Longrightarrow> (release_stages stale ! n) (core s) = Inr p \<Longrightarrow>
    closing_step (Releasing n, s) (Releasing (Suc n), s\<lparr>core := p\<rparr>)"
| exit: "closing_step (Releasing 4, s) (Exited 1, s)"
| side: "side_step s s' \<Longrightarrow> closing_step (Releasing n, s) (Releasing n, s')"

inductive_cases closing_stepE: "closing_step x y"

text \<open>\<open>exit\<close> ends every thread.\<close>

lemma exited_is_final: "\<not> closing_step (Exited rc, s) y"
  by (auto elim: closing_stepE)

section \<open>What has been released stays released\<close>

definition sensors_closed :: "planter \<Rightarrow> bool" where
  "sensors_closed p \<longleftrightarrow> s_files (sens p) (fd_moisture (sens p)) = None \<and>
     s_files (sens p) (fd_humitemp (sens p)) = None \<and> s_files (sens p) (fd_magnetic (sens p)) = None"

lemma devices_deinit_closed: "sensors_closed (devices_deinit p)"
  by (simp add: sensors_closed_def devices_deinit_def Let_def moisture_deinit_def humitemp_deinit_def photo_deinit_def
      magnetic_deinit_def s_sys_close_def)

lemma closed_log: "\<not> db_live d \<Longrightarrow> database_insert stale table v d = Inr d' \<Longrightarrow> d' = d"
  by (auto simp: database_insert_def sqlite_exec_def rbind_eq_Inr split: option.splits)

lemma closed_transfer:
  "\<not> db_live d \<Longrightarrow> database_data_socket_transfer stale sensor d = Inr (texts, d') \<Longrightarrow> d' = d"
  by (auto simp: database_data_socket_transfer_def split: option.splits)

text \<open>The sensors, and, when it is closed, the database.\<close>

definition gone :: "bool \<Rightarrow> planter \<Rightarrow> bool" where
  "gone database p \<longleftrightarrow> sensors_closed p \<and> (database \<longrightarrow> \<not> db_live (db p))"

lemma closed_log_value: "log_value stale table v p = Inr q \<Longrightarrow> gone b p \<Longrightarrow> gone b q"
  using closed_log [of "db p" stale table v] by (auto simp: log_value_def rbind_eq_Inr gone_def sensors_closed_def)

lemma thread_keeps_gone:
  assumes "\<And>t. gone b (snd t) \<Longrightarrow> gone b (snd (snd (sample t)))"
    and "set decisions \<subseteq> {fan_auto, humidifier_auto, dryer_auto, cooler_auto, led_auto, valve_auto, drain_auto}"
    and "\<And>g. g \<in> set logs \<Longrightarrow> \<exists>stale table v. \<forall>p. g p = log_value stale table (v p) p"
  shows "thread_keeps sample decisions logs (\<lambda>t. gone b (snd t))"
proof
  show "gone b (snd t')" if "f \<in> set decisions" "f t = Inr t'" "gone b (snd t)" for f t t'
  proof -
    have "snd t' = (snd t)\<lparr>mq := mq (snd t')\<rparr>" using decision_only [of f t t'] assms(2) that by blast
    moreover have "gone b ((snd t)\<lparr>mq := mq (snd t')\<rparr>)" using that(3) by (simp add: gone_def sensors_closed_def)
    ultimately show ?thesis by (rule ssubst)
  qed
  show "gone b (snd (cmd, q))" if g: "g \<in> set logs" "g p = Inr q" "gone b (snd (cmd, p))" for cmd g p q
  proof -
    obtain stale table v where "\<forall>p. g p = log_value stale table (v p) p" using assms(3) [OF g(1)] by blast
    then show ?thesis using g(2,3) closed_log_value by auto
  qed
qed (rule assms(1))

lemma logs_log:
  "g \<in> set (humitemp_logs stale) \<Longrightarrow> \<exists>stale table v. \<forall>p. g p = log_value stale table (v p) p"
  "g \<in> set (photo_logs stale) \<Longrightarrow> \<exists>stale table v. \<forall>p. g p = log_value stale table (v p) p"
  "g \<in> set (magnetic_logs stale) \<Longrightarrow> \<exists>stale table v. \<forall>p. g p = log_value stale table (v p) p"
  "g \<in> set (moisture_logs stale) \<Longrightarrow> \<exists>stale table v. \<forall>p. g p = log_value stale table (v p) p"
  unfolding humitemp_logs_def photo_logs_def magnetic_logs_def moisture_logs_def by auto

interpretation humitemp_gone: thread_keeps "humitemp_measure char_signed delivered" humitemp_decisions
  "humitemp_logs stale" "\<lambda>t. gone b (snd t)"
  by (rule thread_keeps_gone [OF _ _ logs_log(1)])
    (auto simp: humitemp_decisions_def humitemp_measure_def humitemp_read_def gone_def sensors_closed_def case_prod_beta Let_def
      split: option.split)

interpretation photo_gone: thread_keeps "photo_measure v" "[led_auto]" "photo_logs stale" "\<lambda>t. gone b (snd t)"
  by (rule thread_keeps_gone [OF _ _ logs_log(2)])
    (auto simp: photo_measure_def gone_def sensors_closed_def case_prod_beta Let_def)

interpretation magnetic_gone: thread_keeps "magnetic_measure get later" "[valve_auto]" "magnetic_logs stale"
  "\<lambda>t. gone b (snd t)"
  by (rule thread_keeps_gone [OF _ _ logs_log(3)]) (auto simp: magnetic_measure_def gone_def sensors_closed_def)

interpretation moisture_gone: thread_keeps "moisture_measure get" "[drain_auto]" "moisture_logs stale"
  "\<lambda>t. gone b (snd t)"
  by (rule thread_keeps_gone [OF _ _ logs_log(4)]) (auto simp: moisture_measure_def gone_def sensors_closed_def)

interpretation gone: request_invariant "gone b"
proof unfold_locales
  show "gone b q" if "gone b p" "receive_boundary_data cmd p c = Some (Inr (q, c'))" for p cmd c q c'
    using that(2) by (rule receive_boundary_only)
      (use that(1) in \<open>simp add: gone_def sensors_closed_def new_boundaries_def scan_boundaries_def boundary_update_def Let_def\<close>)
  show "gone b (p\<lparr>db := d\<rparr>)" if "gone b p" "database_data_socket_transfer stale sensor (db p) = Inr (texts, d)"
    for p d stale sensor texts
    using that closed_transfer [of "db p" stale sensor texts d] by (auto simp: gone_def sensors_closed_def)
qed (simp_all add: gone_def sensors_closed_def)

lemma side_step_gone:
  assumes "side_step s s'" and "gone b (core s)"
  shows "gone b (core s')"
  using assms(1)
proof (cases rule: side_stepE [consumes 1, case_names humitemp photo magnetic moisture request])
  case (humitemp char_signed delivered stale st cmd p)
  then show ?thesis using humitemp_gone.step_J [OF humitemp(2)] assms(2) by simp
next
  case (photo wr rd temp stale st cmd p)
  then show ?thesis using photo_gone.step_J [OF photo(2)] assms(2) by simp
next
  case (magnetic get later stale st cmd p)
  then show ?thesis using magnetic_gone.step_J [OF magnetic(2)] assms(2) by simp
next
  case (moisture get stale st cmd p)
  then show ?thesis using moisture_gone.step_J [OF moisture(2)] assms(2) by simp
next
  case (request env c p c')
  then show ?thesis using gone.socket_handler_J [OF request(2)] assms(2) by simp
qed

definition closing_inv :: "process \<times> system \<Rightarrow> bool" where
  "closing_inv x \<longleftrightarrow>
     (case fst x of Releasing n \<Rightarrow> 0 < n \<longrightarrow> gone (2 < n) (core (snd x)) | Exited rc \<Rightarrow> True)"

lemma release_gone:
  assumes "(release_stages stale ! n) p = Inr q" and "n < 4" and "0 < n \<longrightarrow> gone (2 < n) p"
  shows "gone (2 < Suc n) q"
proof -
  consider "n = 0" | "n = 1" | "n = 2" | "n = 3" using assms(2) by linarith
  then show ?thesis
    using assms(1,3) devices_deinit_closed [of p]
    by cases (auto simp: release_stages_def rbind_eq_Inr gone_def sensors_closed_def database_deinit_def
        message_queue_deinit_def split: if_splits)
qed

lemma closing_inv_step: "closing_inv x \<Longrightarrow> closing_step x y \<Longrightarrow> closing_inv y"
  by (elim closing_stepE) (auto simp: closing_inv_def dest: release_gone intro: side_step_gone)

interpretation closing: transition_system closing_step closing_inv
  by unfold_locales (rule closing_inv_step)

section \<open>The sensor threads, on released resources\<close>

lemma rounds_after_release:
  assumes "gone True q"
  shows "moisture_handler st get (cmd, q) = Inl UseAfterFree"
    "magnetic_handler st get later (cmd, q) = Inl UseAfterFree"
    "\<exists>q'. humitemp_handler cs st delivered (cmd, q) = Inr (cmd, q') \<and> db q' = db q \<and> mq q' = mq q"
proof -
  have c: "\<not> db_live (db q)" "s_files (sens q) (fd_moisture (sens q)) = None"
    "s_files (sens q) (fd_humitemp (sens q)) = None" "s_files (sens q) (fd_magnetic (sens q)) = None"
    using assms by (simp_all add: gone_def sensors_closed_def)
  have log: "log_value st tb 0 r = Inl UseAfterFree" if "1 \<le> tb" "tb \<le> 5" "\<not> db_live (db r)" for tb r
    using that insert_text_Some [of tb 0] by (auto simp: log_value_def database_insert_spec rbind_def)
  show "moisture_handler st get (cmd, q) = Inl UseAfterFree"
    using c by (simp add: moisture_handler_def moisture_is_full_def read_level_def c_not_def drain_auto_def
        MOISTURE_FULL_def Let_def log table_defs)
  show "magnetic_handler st get later (cmd, q) = Inl UseAfterFree"
    using c by (simp add: magnetic_handler_def mag_valid_detectection_def magnetic_is_detected_def read_level_def
        c_not_def valve_auto_def MAGNETIC_DETECTED_def Let_def log table_defs)
  show "\<exists>q'. humitemp_handler cs st delivered (cmd, q) = Inr (cmd, q') \<and> db q' = db q \<and> mq q' = mq q"
    using c by (simp add: humitemp_handler_def humitemp_read_def Let_def)
qed

text \<open>A thread that the release met in the middle of a round goes on to its log.\<close>

lemma log_after_release: "gone True q \<Longrightarrow> 1 \<le> tb \<Longrightarrow> tb \<le> 5 \<Longrightarrow> in_i32 v \<Longrightarrow> log_value st tb v q = Inl UseAfterFree"
  using insert_text_Some [of tb v] by (auto simp: gone_def log_value_def database_insert_spec rbind_def)

lemma logs_after_release:
  assumes "gone True q" and "in_i32 (g_humi q)" "in_i32 (g_temp q)" "in_i32 (g_photo q)" "in_i32 (g_magnet q)"
    "in_i32 (g_moisture q)"
  shows "k < 2 \<Longrightarrow> thread_step m ds (humitemp_logs st) (Log k) (cmd, q) = Inl UseAfterFree"
    "thread_step m ds (photo_logs st) (Log 0) (cmd, q) = Inl UseAfterFree"
    "thread_step m ds (magnetic_logs st) (Log 0) (cmd, q) = Inl UseAfterFree"
    "thread_step m ds (moisture_logs st) (Log 0) (cmd, q) = Inl UseAfterFree"
  using log_after_release [OF assms(1)] assms(2-)
  by (auto simp: thread_step_def humitemp_logs_def photo_logs_def magnetic_logs_def moisture_logs_def table_defs
      less_Suc_eq eval_nat_numeral)

end
