(* ===== verification/Demo.thy ===== *)
theory Demo
  imports Lifecycle Races Boundaries Transfers Release
begin

text \<open>
  A concrete start of the program, on which the witnesses of the properties are evaluated:
  every device file opens, on the descriptors 3 to 10, the database accepts every statement,
  the queue is new, there is no music.
\<close>

definition demo_open :: "string \<Rightarrow> int" where
  "demo_open path =
     (if path = RELAY_DEV_PATH then 3 else if path = MG995_PWM_PATH then 4
      else if path = MOISTURE_DEV_PATH then 5 else if path = HUMITEMP_DEV_PATH then 6
      else if path = PHOTO_PATH then 7 else if path = MAGNETIC_DEV_PATH then 8
      else if path = PWM_FAN_PATH then 9 else if path = HUMIDIFIER_PATH then 10 else -1)"

definition demo_world :: world where
  "demo_world = world0 demo_open (\<lambda>_ _ _. 0)"

definition demo_sensors :: sensors where
  "demo_sensors = \<lparr>s_open = demo_open, s_files = (\<lambda>_. None), fd_moisture = 0, fd_humitemp = 0,
     humitemp_buf = replicate 5 0, fd_magnetic = 0, fd_photo = 0\<rparr>"

definition demo_db :: database where
  "demo_db = \<lparr>db_exec_ok = (\<lambda>_ _. True), db_rows = (\<lambda>_ _. []), db_live = False, db_stmts = []\<rparr>"

definition demo_env :: malloc_env where
  "demo_env = \<lparr>elmt_malloc = (\<lambda>h. if h 0 = None then Some 0 else if h 1 = None then Some 1 else None),
     str_malloc = (\<lambda>_. True)\<rparr>"

definition demo_planter :: planter where
  "demo_planter = \<lparr>dev = demo_world, sens = demo_sensors, db = demo_db,
     titles = (list_init True, (\<lambda>_. None)), current_music = [], disk = (\<lambda>_. None), shell = [],
     mqd_main = 0, mq = [],
     g_state_led = 0, g_state_fan = 0, g_state_solenoid = 0, g_state_drain = 0,
     g_state_humidifier = 0, g_state_dryer = 0, g_temp = 0, g_humi = 0, g_photo = 0, g_magnet = 0,
     g_moisture = 0, g_mode = 0, g_humi_upper_fan = 0, g_humi_under_fan = 0,
     g_humi_upper_humidifier = 0, g_humi_under_humidifier = 0, g_temp_upper_dryer = 0,
     g_temp_under_dryer = 0, g_temp_upper_cooler = 0, g_temp_under_cooler = 0,
     g_photo_upper_led = 0, g_photo_under_led = 0\<rparr>"

text \<open>The state in which \<open>main\<close> enters its loop.\<close>

definition demo_core :: planter where
  "demo_core = message_queue_init 11 []
     ((boundary_init (states_init (devices_init 0 demo_planter)))
        \<lparr>titles := (list_init True, (\<lambda>_. None)),
         db := demo_db\<lparr>db_live := True, db_stmts := [create_tables]\<rparr>\<rparr>)"

text \<open>A request environment: a camera and a display that work, one picture of zeros.\<close>

definition demo_camera :: camera_env where
  "demo_camera = \<lparr>stat_rc = 0, is_chr = True, open_rc = 5, ioctl_rc = (\<lambda>_ _. [(-1, EINTR), (0, 0)]),
     can_capture = True, can_stream = True, s_fmt = (\<lambda>f. f), req_count = 4, calloc_ok = True,
     buf_length = (\<lambda>_. 50688), mmap_ok = (\<lambda>_. True), munmap_rc = (\<lambda>_. 0), close_rc = 0\<rparr>"

definition demo_display :: fb_env where
  "demo_display = \<lparr>fb_open_rc = 3, fscreeninfo_rc = 0, vscreeninfo_rc = 0, fb_mmap_ok = True,
     line_length = 960, xres = 480, yres = 272, xoffset = 0, yoffset = 0, bits_per_pixel = 16\<rparr>"

definition demo_requests :: "planter \<Rightarrow> req_env" where
  "demo_requests p = \<lparr>stale_heap = True, heap_env = demo_env, file_ok = (\<lambda>_. True), snaps = [p],
     cam_env = demo_camera, disp_env = demo_display, cam_events = [Frame [(-1, EINTR), (0, 0)] 2 (\<lambda>_. 0) [(0, 0)], Timeout],
     image0 = replicate 76032 0, cmd0 = replicate 4 nul\<rparr>"

lemma demo_camera_ok: "camera_ok demo_camera" "display_ok demo_display"
  by (simp_all add: camera_ok_def demo_camera_def display_ok_def demo_display_def EINTR_def)

lemma demo_main_init:
  "main_init True 0 demo_env None True 11 [] demo_planter = Some (Inr demo_core)"
  by (simp add: main_init_def music_init_def music_get_from_directory_def database_init_def
      sqlite_exec_def demo_core_def demo_planter_def demo_db_def)

text \<open>The same with messages left in the queue by an earlier run.\<close>

lemma demo_main_init_left:
  "main_init True 0 demo_env None True 11 left demo_planter = Some (Inr (demo_core\<lparr>mq := left\<rparr>))"
  by (simp add: main_init_def music_init_def music_get_from_directory_def database_init_def
      sqlite_exec_def demo_core_def demo_planter_def demo_db_def message_queue_init_def)

declare paths_distinct [simp]

lemma demo_opens: "opens demo_open"
  unfolding opens_def demo_open_def RELAY_DEV_PATH_def PWM_FAN_PATH_def MG995_PWM_PATH_def
    HUMIDIFIER_PATH_def MOISTURE_DEV_PATH_def HUMITEMP_DEV_PATH_def PHOTO_PATH_def MAGNETIC_DEV_PATH_def
  by simp

lemma demo_inv:
  "core_inv demo_core" "agrees demo_core" "boundaries_ok demo_core" "queued demo_core = []"
proof -
  have d: "dev demo_planter = world0 demo_open (\<lambda>_ _ _. 0)" "g_mode demo_planter = 0"
    by (simp_all add: demo_planter_def demo_world_def)
  have l: "leftover_ok []" by (simp add: leftover_ok_def)
  note m = main_init_inv [OF d(1) demo_opens d(2) _ l demo_main_init, simplified]
  show "core_inv demo_core" "agrees demo_core" "boundaries_ok demo_core" "queued demo_core = []"
    using m by simp_all
qed

lemma demo_fields [simp]:
  "g_mode demo_core = 0" "db_healthy (db demo_core)" "titles demo_core = (list_init True, (\<lambda>_. None))"
  "g_state_fan demo_core = 4" "g_state_drain demo_core = 5" "g_humi_upper_fan demo_core = 45"
  "mq demo_core = []" "current_music demo_core = []"
  by (simp_all add: demo_core_def message_queue_init_def db_healthy_def demo_db_def demo_planter_def
      devices_init_def states_init_def boundary_init_def boundary_update_def Let_def cmd_defs boundary_consts)

lemma demo_sys: "sys_inv (sys_start demo_core)"
  by (rule sys_inv_start [OF demo_inv(1)])

lemma demo_thread_ok: "thread_ok (replicate 4 nul, demo_core)"
  using demo_inv(1) by (simp add: thread_ok_def core_inv_def MQ_MSG_SIZE_def)

lemma demo_valid: "states_valid demo_core" "queue_ok demo_core" "ready (dev demo_core)"
  using demo_inv(1,2) by (simp_all add: core_inv_def agrees_def)

lemma demo_presses: "presses (hw (dev demo_core)) = 0"
proof -
  have d: "dev demo_core = actuators_init (world0 demo_open (\<lambda>_ _ _. 0))"
    by (simp add: demo_core_def message_queue_init_def devices_init_dev demo_planter_def demo_world_def)
  have p: "opens demo_open" by (rule demo_opens)
  show ?thesis
    unfolding d using p
    by (simp add: actuators_init_def world0_def relay_init_def servo_init_def fan_init_def
      humidifier_init_def sys_open_def Let_def
      sys_ioctl_def usleep_def servo_set_def opens_def)
qed

lemma demo_sens:
  "s_files (sens demo_core) (fd_humitemp (sens demo_core)) = Some HUMITEMP_DEV_PATH"
  "humitemp_buf (sens demo_core) = replicate 5 0"
proof -
  have s: "sens demo_core = sens (devices_init 0 demo_planter)"
    by (simp add: demo_core_def message_queue_init_def states_init_def boundary_init_def boundary_update_def)
  have o: "demo_open MOISTURE_DEV_PATH = 5" "demo_open HUMITEMP_DEV_PATH = 6"
    "demo_open PHOTO_PATH = 7" "demo_open MAGNETIC_DEV_PATH = 8"
    unfolding demo_open_def RELAY_DEV_PATH_def PWM_FAN_PATH_def MG995_PWM_PATH_def
      HUMIDIFIER_PATH_def MOISTURE_DEV_PATH_def HUMITEMP_DEV_PATH_def PHOTO_PATH_def MAGNETIC_DEV_PATH_def
    by simp_all
  show "s_files (sens demo_core) (fd_humitemp (sens demo_core)) = Some HUMITEMP_DEV_PATH"
    "humitemp_buf (sens demo_core) = replicate 5 0"
    unfolding s devices_init_def Let_def moisture_init_def humitemp_init_def photo_init_def
      magnetic_init_def s_sys_open_def
    by (simp_all add: demo_planter_def demo_sensors_def o)
qed

lemma relay_connect_presses: "presses (hw (snd (relay_connect ch (dev demo_core)))) = presses (hw (dev demo_core))"
  using demo_valid(3) by (simp add: ready_def relay_connect_def sys_ioctl_def)

lemma demo_release:
  assumes "core s = demo_core"
  shows "\<exists>p. closing_step\<^sup>*\<^sup>* (Releasing 0, s) (Releasing 3, s\<lparr>core := p\<rparr>) \<and>
    g_humi p = 0 \<and> g_temp p = 0 \<and> g_photo p = 0 \<and> g_magnet p = 0 \<and> g_moisture p = 0"
proof -
  define p1 where "p1 = devices_deinit demo_core"
  have p1: "titles p1 = (list_init True, (\<lambda>_. None))" "db_live (db p1)"
    using demo_fields(2) by (simp_all add: p1_def devices_deinit_def Let_def db_healthy_def)
  then obtain m where m: "(release_stages True ! 1) p1 = Inr (p1\<lparr>titles := m\<rparr>)"
    by (auto simp: release_stages_def music_deinit_def list_destroy_def list_destroy_loop.simps list_init_def)
  define p2 where "p2 = p1\<lparr>titles := m\<rparr>"
  have d: "(release_stages True ! 2) p2 = Inr (p2\<lparr>db := (db p2)\<lparr>db_live := False\<rparr>\<rparr>)"
    using p1(2) by (simp add: release_stages_def database_deinit_def p2_def)
  have "closing_step (Releasing 0, s) (Releasing 1, s\<lparr>core := p1\<rparr>)"
    using closing_step.release [of 0 True s p1] by (simp add: assms release_stages_def p1_def)
  moreover have "closing_step (Releasing 1, s\<lparr>core := p1\<rparr>) (Releasing 2, s\<lparr>core := p2\<rparr>)"
    using closing_step.release [of 1 True "s\<lparr>core := p1\<rparr>"] m by (simp add: p2_def numeral_2_eq_2)
  moreover have "closing_step (Releasing 2, s\<lparr>core := p2\<rparr>)
      (Releasing 3, s\<lparr>core := p2\<lparr>db := (db p2)\<lparr>db_live := False\<rparr>\<rparr>\<rparr>)"
    using closing_step.release [of 2 True "s\<lparr>core := p2\<rparr>"] d by (simp add: numeral_3_eq_3)
  ultimately have "closing_step\<^sup>*\<^sup>* (Releasing 0, s) (Releasing 3, s\<lparr>core := p2\<lparr>db := (db p2)\<lparr>db_live := False\<rparr>\<rparr>\<rparr>)"
    by (meson converse_rtranclp_into_rtranclp r_into_rtranclp)
  moreover have "g_humi p1 = 0" "g_temp p1 = 0" "g_photo p1 = 0" "g_magnet p1 = 0" "g_moisture p1 = 0"
    by (simp_all add: p1_def devices_deinit_def Let_def demo_core_def message_queue_init_def demo_planter_def
        devices_init_def states_init_def boundary_init_def boundary_update_def)
  ultimately show ?thesis by (intro exI [of _ "p2\<lparr>db := (db p2)\<lparr>db_live := False\<rparr>\<rparr>"]) (simp add: p2_def)
qed

text \<open>A delivery of the sensor: 60 per cent, 25 degrees.\<close>

lemma demo_read:
  assumes "s_files s (fd_humitemp s) = Some HUMITEMP_DEV_PATH"
  shows "humitemp_read False (5, [60, 0, 25, 0, 85]) s =
    (Some (60, 25), s\<lparr>humitemp_buf := [60, 0, 25, 0, 85] @ drop (length [60, 0, 25, 0, 85 :: u8]) (humitemp_buf s)\<rparr>)"
  using assms by (simp add: humitemp_read_def char_value_def Let_def)

text \<open>A server with one request, which holds the lock.\<close>

definition demo_server :: "task \<Rightarrow> conn \<Rightarrow> server" where
  "demo_server tk c = \<lparr>machine = sys_start demo_core, recv_trans_lock = Some 0, tasks = [(tk, c)]\<rparr>"

lemma demo_rep: "music_rep (titles demo_core) []"
  by (simp add: music_rep_def is_list_init)

lemma demo_server_inv: "inside tk \<Longrightarrow> server_inv (demo_server tk c)"
  using demo_sys demo_rep by (auto simp: server_inv_def demo_server_def sys_start_def)

lemma demo_allocator: "allocator_ok demo_env"
  by (auto simp: allocator_ok_def demo_env_def unused_def split: if_splits)

section \<open>A sensor that keeps to its data sheet\<close>

fun pulse_wire :: "nat \<Rightarrow> pulse list \<Rightarrow> signal" where
  "pulse_wire T [] x = False"
| "pulse_wire T ((b, lo, hi) # ps) x =
     (if x < T + lo then False else if x < T + lo + hi then True else pulse_wire (T + lo + hi) ps x)"

lemma carries_pulse_wire:
  "\<forall>p \<in> set ps. good_pulse p \<Longrightarrow> \<forall>x. T \<le> x \<longrightarrow> s x = pulse_wire T ps x \<Longrightarrow> carries s T ps"
proof (induction ps arbitrary: T)
  case (Cons p ps)
  obtain b lo hi where p: "p = (b, lo, hi)" by (cases p)
  have "carries s (T + lo + hi) ps" using Cons.prems p by (intro Cons.IH) auto
  then show ?case using Cons.prems p by (auto simp del: good_pulse.simps)
qed simp

definition nominal_frames :: "u8 list \<Rightarrow> pulse list list" where
  "nominal_frames ws = map (\<lambda>w. map (\<lambda>b. (b, 50, if b then 70 else 27)) (byte_bits w)) ws"

definition nominal_wire :: "u8 list \<Rightarrow> signal" where
  "nominal_wire ws x =
     (if x < 19020 then True else if x < 19100 then False else if x < 19180 then True
      else pulse_wire 19180 (concat (nominal_frames ws)) x)"

lemma nominal_frames_bits: "map (map fst) (nominal_frames ws) = map byte_bits ws"
  by (simp add: nominal_frames_def comp_def)

lemma nominal_wire_reply: "reply (nominal_wire ws) 0 20 80 80 (nominal_frames ws)"
proof -
  have "carries (nominal_wire ws) 19180 (concat (nominal_frames ws))"
    by (rule carries_pulse_wire) (auto simp: nominal_frames_def nominal_wire_def)
  then show ?thesis by (simp add: reply_def nominal_wire_def)
qed

end
