(* ===== verification/Samples.thy ===== *)
theory Samples
  imports Devices Sensors CString
begin

text \<open>
  \<^verbatim>\<open>samples\<close>: one small program per device of the user level library. Those on actuators are
  functions on the \<open>world\<close>; a keystroke awaited by \<open>getchar\<close> changes nothing. Those on sensors
  repeat for ever: the argument lists what the sensor gives in the successive rounds, the
  result is what the program has printed after them.
\<close>

section \<open>Actuators\<close>

definition sample_fan :: "world \<Rightarrow> world" where
  "sample_fan w =
     (let w = snd (relay_init w); w = snd (fan_init w); w = usleep 3000000 w;
          w = usleep 3000000 (snd (fan_rotate FAN_SPEED_NORMAL w));
          w = usleep 3000000 (snd (fan_rotate FAN_SPEED_FAST w));
          w = usleep 3000000 (snd (fan_rotate FAN_SPEED_VERY_FAST w));
          w = fan_deinit w
      in relay_deinit w)"

text \<open>Here a failed initialisation ends the program: \<open>exit(1)\<close>.\<close>

definition sample_humidifier :: "world \<Rightarrow> int \<times> world" where
  "sample_humidifier w =
     (let (rc, w) = humidifier_init w in
      if rc \<noteq> 1 then (1, w)
      else
        (let w = humidifier_on w; w = humidifier_off w; w = humidifier_off w; w = humidifier_on w
         in (0, humidifier_deinit w)))"

definition sample_on_off_devices :: "world \<Rightarrow> world" where
  "sample_on_off_devices w =
     (let w = snd (relay_init w);
          w = led_on w; w = solenoid_open w; w = dryer_on w;
          w = usleep 3000000 w;
          w = led_off w; w = solenoid_close w; w = dryer_off w
      in relay_deinit w)"

definition sample_relay :: "world \<Rightarrow> world" where
  "sample_relay w =
     (let w = snd (relay_init w);
          w = snd (relay_connect 1 w); w = snd (relay_connect 2 w);
          w = snd (relay_connect 3 w); w = snd (relay_connect 4 w);
          w = snd (relay_disconnect 1 w); w = snd (relay_disconnect 2 w);
          w = snd (relay_disconnect 3 w); w = snd (relay_disconnect 4 w)
      in relay_deinit w)"

definition sample_servo :: "world \<Rightarrow> world" where
  "sample_servo w =
     (let w = snd (servo_init w);
          w = usleep 1000000 (snd (servo_rotate SERVO_180_DEGREE w));
          w = usleep 1000000 (snd (servo_rotate SERVO_0_DEGREE w));
          w = usleep 1000000 (snd (servo_rotate SERVO_135_DEGREE w));
          w = usleep 1000000 (snd (servo_rotate SERVO_90_DEGREE w));
          w = usleep 1000000 (snd (servo_rotate SERVO_45_DEGREE w))
      in servo_deinit w)"

section \<open>Sensors\<close>

definition line :: "string \<Rightarrow> string" where
  "line s = s @ [CHR 0x0A]"

fun humitemp_rounds :: "bool \<Rightarrow> (int \<times> u8 list) list \<Rightarrow> sensors \<Rightarrow> string list" where
  "humitemp_rounds cs [] s = []"
| "humitemp_rounds cs (d # ds) s =
     (case humitemp_read cs d s of
        (None, s) \<Rightarrow> line ''humitemp_read() failed'' # humitemp_rounds cs ds s
      | (Some (humi, temp), s) \<Rightarrow>
          line (''humi: '' @ show_int humi @ '', temp: '' @ show_int temp) # humitemp_rounds cs ds s)"

definition sample_humitemp :: "bool \<Rightarrow> (int \<times> u8 list) list \<Rightarrow> sensors \<Rightarrow> string list" where
  "sample_humitemp cs ds s = humitemp_rounds cs ds (snd (humitemp_init s))"

definition sample_magnetic :: "(pin \<Rightarrow> int) list \<Rightarrow> sensors \<Rightarrow> string list" where
  "sample_magnetic gets s =
     (let s = snd (magnetic_init s) in
      concat (map (\<lambda>get. if magnetic_is_detected get s \<noteq> 0 then [line ''Stop Watering''] else []) gets))"

definition sample_moisture :: "(pin \<Rightarrow> int) list \<Rightarrow> sensors \<Rightarrow> string list" where
  "sample_moisture gets s =
     (let s = snd (moisture_init s) in
      concat (map (\<lambda>get. if moisture_is_full get s \<noteq> 0 then [line ''start draining''] else []) gets))"

text \<open>A round of the photo sample: what the five writes and the read return, and the bytes read.\<close>

definition sample_photo :: "int \<Rightarrow> ((nat \<Rightarrow> int) \<times> int \<times> u8 \<times> u8) list \<Rightarrow> sensors \<Rightarrow> string list" where
  "sample_photo ioctl_rc rounds s =
     (let s = snd (photo_init ioctl_rc s) in
      map (\<lambda>(wr, rd, temp). line (''intensity : '' @ show_int (fst (photo_get_intensity wr rd temp)))) rounds)"

section \<open>Facts\<close>

text \<open>
  The humidifier sample presses the button six times: on, off, nothing, on, off. It leaves the
  humidifier as it found it.
\<close>

lemma sample_humidifier_presses:
  assumes "os_open w HUMIDIFIER_PATH = fd" and "0 \<le> fd" and "cnt w = 0"
  shows "fst (sample_humidifier w) = 0 \<and>
    presses (hw (snd (sample_humidifier w))) = presses (hw w) + 6 \<and>
    files (snd (sample_humidifier w)) = (files w)(fd := None)"
proof -
  have r: "(0 :: int) smod 3 = 0" "(1 :: int) smod 3 = 1" "(3 :: int) smod 3 = 0" "(4 :: int) smod 3 = 1"
    by code_simp+
  note d = humidifier_on_def humidifier_off_def humidifier_push_2_def op_logs
  define w1 where "w1 = snd (humidifier_init w)"
  have w1: "humidifier_init w = (1, w1)" "cnt w1 = 0" "files w1 (fd_humidifier w1) = Some HUMIDIFIER_PATH"
    "fd_humidifier w1 = fd" "presses (hw w1) = presses (hw w)" "files w1 = (files w)(fd \<mapsto> HUMIDIFIER_PATH)"
    using assms by (simp_all add: w1_def op_logs)
  define w2 where "w2 = humidifier_off (humidifier_off (humidifier_on w1))"
  have w2: "cnt w2 = 3" "files w2 = files w1" "fd_humidifier w2 = fd" "presses (hw w2) = presses (hw w) + 3"
    using w1 by (simp_all add: w2_def d r in_i32_def)
  define w3 where "w3 = humidifier_off (humidifier_on w2)"
  have w3: "files w3 = files w1" "fd_humidifier w3 = fd" "presses (hw w3) = presses (hw w) + 6"
    using w1 w2 by (simp_all add: w3_def d r in_i32_def)
  have "sample_humidifier w = (0, sys_close fd w3)"
    using w1(1) w3(2) by (simp add: sample_humidifier_def w2_def w3_def humidifier_deinit_def Let_def)
  then show ?thesis using w3 w1 by (simp add: sys_close_def)
qed

text \<open>After the relay and the on-off samples all four relays are open and the file is closed.\<close>

lemma relay_samples_leave_open:
  assumes "os_open w RELAY_DEV_PATH = fd" and "0 \<le> fd" and "ch \<in> {1, 2, 3, 4}"
  shows "\<not> relay_closed ch (sample_relay w)" "files (sample_relay w) fd = None"
    "\<not> relay_closed ch (sample_on_off_devices w)" "files (sample_on_off_devices w) fd = None"
  using assms
  by (auto simp: sample_relay_def sample_on_off_devices_def op_logs led_on_def led_off_def
      solenoid_open_def solenoid_close_def dryer_on_def dryer_off_def relay_closed_def
      relay_pin_def gpio_level_append)

end
