(* ===== verification/TestApps.thy ===== *)
theory TestApps
  imports Samples Video
begin

text \<open>
  \<^verbatim>\<open>drivers/test-app\<close>: one program per driver, which opens the device file and calls the
  driver itself. The file descriptor is a local variable; the exit code of a program that
  ends is the first component of its result. A program that repeats for ever is given its
  inputs round by round and yields what it has printed. The two drivers with a fixed major
  number (servo SG90, on-board LEDs) are reached through the node the program makes with
  \<open>mknod\<close>: they are called directly.
\<close>

section \<open>Actuators\<close>

definition test_humidifier :: "world \<Rightarrow> int \<times> world" where
  "test_humidifier w =
     (let (fd, w) = sys_open HUMIDIFIER_PATH w in
      if fd < 0 then (-1, w)
      else (0, sys_close fd (sys_ioctl fd HUMIDIFIER_HIGH None (sys_ioctl fd HUMIDIFIER_LOW None w))))"

definition test_szh_rlbg_012 :: "world \<Rightarrow> int \<times> world" where
  "test_szh_rlbg_012 w =
     (let (fd, w) = sys_open ''/dev/mds2450_relay'' w in
      if fd < 0 then (-1, w)
      else
        (let w = sys_ioctl fd IN1_LOW None w; w = sys_ioctl fd IN1_HIGH None w;
             w = sys_ioctl fd IN2_LOW None w; w = sys_ioctl fd IN2_HIGH None w;
             w = sys_ioctl fd IN3_LOW None w; w = sys_ioctl fd IN3_HIGH None w;
             w = sys_ioctl fd IN4_LOW None w; w = sys_ioctl fd IN4_HIGH None w
         in (0, sys_close fd w)))"

text \<open>The loop over the speeds: \<open>is\<close> are the values the counter still takes.\<close>

fun fan_sweep :: "int \<Rightarrow> int list \<Rightarrow> world \<Rightarrow> world" where
  "fan_sweep fd [] w = w"
| "fan_sweep fd (i # is) w =
     fan_sweep fd is (usleep 2000000
       (sys_ioctl fd PWM_FAN_DUTYRATE (Some \<lparr>pulse_width = PWM_FAN_SPEED i, period = PWM_FAN_PERIOD\<rparr>) w))"

definition test_leadcool120 :: "world \<Rightarrow> int \<times> world" where
  "test_leadcool120 w =
     (let (fd, w) = sys_open PWM_FAN_PATH w in
      if fd < 0 then (-1, w)
      else
        (let w = usleep 1000000 (sys_ioctl fd PWM_FAN_ENABLE None w);
             w = fan_sweep fd [0..10] w;
             w = fan_sweep fd [0] w
         in (0, sys_close fd (sys_ioctl fd PWM_FAN_DISABLE None w))))"

fun servo_sweep :: "int \<Rightarrow> int list \<Rightarrow> world \<Rightarrow> world" where
  "servo_sweep fd [] w = w"
| "servo_sweep fd (pw # pws) w =
     servo_sweep fd pws (usleep 1000000
       (sys_ioctl fd MG995_PWM_DUTYRATE (Some \<lparr>pulse_width = pw, period = MG995_PWM_PERIOD\<rparr>) w))"

definition test_mg995 :: "world \<Rightarrow> int \<times> world" where
  "test_mg995 w =
     (let (fd, w) = sys_open MG995_PWM_PATH w in
      if fd < 0 then (-1, w)
      else
        (let w = usleep 1000000 (sys_ioctl fd MG995_PWM_ENABLE None w);
             w = servo_sweep fd [MG995_PWM_DEGREE_0, MG995_PWM_DEGREE_45, MG995_PWM_DEGREE_90,
                   MG995_PWM_DEGREE_135, MG995_PWM_DEGREE_180] w
         in (0, sys_close fd (sys_ioctl fd MG995_PWM_DISABLE None w))))"

text \<open>
  The SG90 program does not look at the result of \<open>open\<close>: on a failure (\<open>opened\<close> is false) its
  ioctls reach no driver.
\<close>

definition test_sg90 :: "bool \<Rightarrow> (nat \<Rightarrow> int \<Rightarrow> int \<Rightarrow> int) \<Rightarrow> kcall list" where
  "test_sg90 opened cfg =
     (let ioctl = (\<lambda>cmd duty. if opened then snd (SG90_ioctl cfg 2 cmd duty) else []);
          duty = (\<lambda>pw. Some \<lparr>pulse_width = pw, period = SG90_PWM_PERIOD\<rparr>)
      in (if opened then snd (SG90_open (PwmDevice 2)) else []) @
         ioctl SG90_PWM_ENABLE None @ [Sleep 1000000] @
         ioctl SG90_PWM_DUTYRATE (duty SG90_PWM_DEGREE_90) @ [Sleep 1000000] @
         ioctl SG90_PWM_DUTYRATE (duty SG90_PWM_DEGREE_0) @ [Sleep 1000000] @
         ioctl SG90_PWM_DISABLE None @
         (if opened then snd (SG90_release 2) else []))"

section \<open>The on-board LEDs\<close>

text \<open>
  The timer handler toggles one of the four LEDs, in turn. State: the static variables and the
  log of hardware calls; the level of a pin is what it was driven to.
\<close>

definition GPG4 :: nat where "GPG4 = 4"
definition GPG7 :: nat where "GPG7 = 7"

record chaser =
  tick_count :: int
  cur_led :: nat
  led_log :: "kcall list"
  ticks_printed :: "string list"

definition pin_value :: "kcall list \<Rightarrow> pin \<Rightarrow> int" where
  "pin_value cs p = (case gpio_level p cs of None \<Rightarrow> 0 | Some v \<Rightarrow> v)"

definition test_led_onboard_start :: chaser where
  "test_led_onboard_start =
     \<lparr>tick_count = 0, cur_led = GPG4, led_log = snd mds2450_led_open, ticks_printed = []\<rparr>"

text \<open>The clock is read, in seconds and nanoseconds.\<close>

definition interval_expired :: "int \<times> int \<Rightarrow> chaser \<Rightarrow> chaser" where
  "interval_expired rtclock_time s =
     (let s = s\<lparr>tick_count := wrap32 (tick_count s + 1)\<rparr>;
          at = '' @ '' @ show_int (fst rtclock_time) @ '' sec, '' @ show_int (snd rtclock_time) @ '' nsec'';
          s = s\<lparr>ticks_printed := ticks_printed s @
                [line ((if tick_count s smod 2 \<noteq> 0 then ''tick'' else ''tock'') @ at)]\<rparr>;
          s = s\<lparr>led_log := led_log s @
                snd (mds2450_led_ioctl (pin_value (led_log s)) LED_ONBOARD_TOGGLE (cur_led s))\<rparr>
      in s\<lparr>cur_led := if cur_led s = GPG7 then GPG4 else cur_led s + 1\<rparr>)"

text \<open>
  The program: the timer expires until the program is killed. \<open>stop_handler\<close> is for SIGSTOP,
  for which no handler can be installed: it never runs.
\<close>

definition test_led_onboard :: "int \<Rightarrow> (int \<times> int) list \<Rightarrow> int + chaser" where
  "test_led_onboard fd clock =
     (if fd < 0 then Inl (-1) else Inr (fold interval_expired clock test_led_onboard_start))"

definition stop_handler :: "chaser \<Rightarrow> chaser" where
  "stop_handler s = s\<lparr>led_log := led_log s @ snd mds2450_led_release\<rparr>"

section \<open>Sensors\<close>

text \<open>The two level sensors: a line whenever the reading differs from the one before.\<close>

fun level_rounds :: "string \<Rightarrow> int \<Rightarrow> int list \<Rightarrow> string list" where
  "level_rounds label prevRet [] = []"
| "level_rounds label prevRet (ret # rets) =
     (if ret \<noteq> prevRet then [CHR 0x0A # line (label @ show_int ret)] else []) @ level_rounds label ret rets"

definition test_fc_28 :: "int \<Rightarrow> (pin \<Rightarrow> int) list \<Rightarrow> int \<times> string list" where
  "test_fc_28 fd gets =
     (if fd < 0 then (-1, []) else (0, level_rounds ''Soil Moisture sensor data : '' (-1) (map soil_read gets)))"

definition test_szh_ssbh_040 :: "int \<Rightarrow> (pin \<Rightarrow> int) list \<Rightarrow> int \<times> string list" where
  "test_szh_ssbh_040 fd gets =
     (if fd < 0 then (-1, []) else (0, level_rounds ''Magnetic sensor data : '' (-1) (map MAGNETIC_read gets)))"

text \<open>
  The DHT11 program prints the bytes delivered with \<open>%u\<close>, which shows a negative \<open>char\<close> as a
  large number. A round is the return code of \<open>read\<close> with the bytes copied.
\<close>

definition test_dht11 :: "bool \<Rightarrow> (int \<times> u8 list) list \<Rightarrow> string list" where
  "test_dht11 char_signed rounds =
     map (\<lambda>(count, bytes).
       (if count = -1 then ''read() failed'' else []) @
       concat (map (\<lambda>b. show_int (char_value char_signed b mod 2 ^ 32) @ '' '') (take (nat count) bytes)) @
       [CHR 0x0A]) rounds"

text \<open>
  The BH1750 program ignores the result of every transfer, so that a failed read shows the
  intensity of the round before. \<open>temp\<close> is the buffer, a round the two bytes read, \<open>None\<close> when
  the read fails.
\<close>

fun bh1750_rounds :: "u8 \<times> u8 \<Rightarrow> (u8 \<times> u8) option list \<Rightarrow> string list" where
  "bh1750_rounds temp [] = []"
| "bh1750_rounds temp (r # rs) =
     (let temp = (case r of None \<Rightarrow> temp | Some t \<Rightarrow> t);
          intensity = uint (fst temp) * 256 + uint (snd temp);
          intensity = intensity * 5 div 6
      in line (''intensity : '' @ show_int intensity @ '' lux'') # bh1750_rounds temp rs)"

definition test_bh1750 :: "int \<Rightarrow> int \<Rightarrow> u8 \<times> u8 \<Rightarrow> (u8 \<times> u8) option list \<Rightarrow> int \<times> string list" where
  "test_bh1750 fd i2c_rc temp rounds =
     (if fd < 0 then (-1, []) else if i2c_rc < 0 then (-1, []) else (0, bh1750_rounds temp rounds))"

section \<open>The camera\<close>

text \<open>The size: \<open>argv[0]\<close>, the name of the program, is taken for the width.\<close>

definition c270_size :: "string list \<Rightarrow> int \<times> int" where
  "c270_size argv =
     (let width = (if length argv \<ge> 1 then atoi (argv ! 0) else 0);
          height = (if length argv \<ge> 2 then atoi (argv ! 1) else 0);
          width = (if width = 0 then 176 else width);
          height = (if height = 0 then 144 else height)
      in (width, height))"

fun c270_loop ::
    "fb_env \<Rightarrow> nat \<Rightarrow> nat \<Rightarrow> ready list \<Rightarrow> byte list \<Rightarrow> nat list \<Rightarrow> camera \<Rightarrow>
     (nat list \<times> camera) vresult" where
  "c270_loop v width height [] src_image fbp cam = None"
| "c270_loop v width height (ev # evs) src_image fbp cam =
     vbind (video_capture ev src_image width height cam) (\<lambda>(key, src_image, cam).
     case draw_framebuffer v src_image width height fbp of Inl e \<Rightarrow> Some (Inl (Fault e))
     | Inr fbp \<Rightarrow>
         if key = CHR ''q'' then vok (fbp, cam)
         else c270_loop v width height evs src_image fbp cam)"

text \<open>
  The program, for sizes that are positive: \<open>image\<close> is the uninitialised picture and \<open>fbp\<close> the
  memory behind the display. The result is what the display shows at the end.
\<close>

definition test_c270 ::
    "camera_env \<Rightarrow> fb_env \<Rightarrow> nat \<Rightarrow> nat \<Rightarrow> ready list \<Rightarrow> byte list \<Rightarrow> nat list \<Rightarrow>
     (nat list \<times> camera \<times> display) vresult" where
  "test_c270 env v width height evs src_image fbp =
     vbind (init_framebuffer v display0) (\<lambda>d.
     vbind (init_video_capture env width height camera0) (\<lambda>cam.
     case clear_framebuffer v fbp of Inl e \<Rightarrow> Some (Inl (Fault e))
     | Inr fbp \<Rightarrow>
         vbind (c270_loop v width height evs src_image fbp cam) (\<lambda>(fbp, cam).
         vbind (free_video_capture env cam) (\<lambda>cam. vok (fbp, cam, free_framebuffer d)))))"

section \<open>Facts\<close>

lemma fan_sweep_log:
  assumes "files w fd = Some PWM_FAN_PATH"
  shows "fan_sweep fd is w = w\<lparr>hw := hw w @
    concat (map (\<lambda>i. [PwmConfig 3 (PWM_FAN_SPEED i) PWM_FAN_PERIOD, Sleep 2000000]) is)\<rparr>"
  using assms by (induction "is" arbitrary: w) (simp_all add: sys_ioctl_def usleep_def)

lemma servo_sweep_log:
  assumes "files w fd = Some MG995_PWM_PATH"
  shows "servo_sweep fd pws w = w\<lparr>hw := hw w @
    concat (map (\<lambda>pw. [PwmConfig 2 pw MG995_PWM_PERIOD, Sleep 1000000]) pws)\<rparr>"
  using assms by (induction pws arbitrary: w) (simp_all add: sys_ioctl_def usleep_def)

text \<open>A level sensor's lines are its readings with repetitions dropped.\<close>

lemma level_rounds_remdups:
  "level_rounds label p rets =
   map (\<lambda>r. CHR 0x0A # line (label @ show_int r)) (tl (remdups_adj (p # rets)))"
proof (induction rets arbitrary: p)
  case (Cons r rets)
  let ?f = "\<lambda>r. CHR 0x0A # line (label @ show_int r)"
  have "remdups_adj (r # rets) = r # tl (remdups_adj (r # rets))"
    by (rule remdups_adj_Cons_alt [symmetric])
  then have "map ?f (remdups_adj (r # rets)) = map ?f (r # tl (remdups_adj (r # rets)))"
    by (rule arg_cong)
  then have "map ?f (remdups_adj (r # rets)) = ?f r # map ?f (tl (remdups_adj (r # rets)))"
    by (simp only: list.map)
  then show ?case using Cons.IH [of r] by (cases "r = p") simp_all
qed simp

text \<open>The two level sensor tests print exactly the changes.\<close>

lemma level_tests_print_changes:
  assumes "0 \<le> fd"
  shows "test_fc_28 fd gets = (0, map (\<lambda>r. CHR 0x0A # line (''Soil Moisture sensor data : '' @ show_int r))
      (tl (remdups_adj (- 1 # map (\<lambda>get. get (GPG 2)) gets))))"
    "test_szh_ssbh_040 fd gets = (0, map (\<lambda>r. CHR 0x0A # line (''Magnetic sensor data : '' @ show_int r))
      (tl (remdups_adj (- 1 # map (\<lambda>get. get (GPG 3)) gets))))"
proof -
  have "soil_read = (\<lambda>get. get (GPG 2))" "MAGNETIC_read = (\<lambda>get. get (GPG 3))"
    by (simp_all add: fun_eq_iff soil_read_def MAGNETIC_read_def)
  then show "test_fc_28 fd gets = (0, map (\<lambda>r. CHR 0x0A # line (''Soil Moisture sensor data : '' @ show_int r))
      (tl (remdups_adj (- 1 # map (\<lambda>get. get (GPG 2)) gets))))"
    "test_szh_ssbh_040 fd gets = (0, map (\<lambda>r. CHR 0x0A # line (''Magnetic sensor data : '' @ show_int r))
      (tl (remdups_adj (- 1 # map (\<lambda>get. get (GPG 3)) gets))))"
    using assms by (simp_all add: test_fc_28_def test_szh_ssbh_040_def level_rounds_remdups del: level_rounds.simps)
qed

text \<open>Who gives the program one number gives it the height.\<close>

lemma c270_size_no_width:
  "length argv = 2 \<Longrightarrow> atoi (argv ! 0) = 0 \<Longrightarrow> atoi (argv ! 1) \<noteq> 0 \<Longrightarrow> c270_size argv = (176, atoi (argv ! 1))"
  by (simp add: c270_size_def)

text \<open>
  After \<open>n\<close> ticks LED number \<open>j\<close> of the four was toggled once for every fourth tick from the
  tick \<open>j\<close> on, and shows it: low, that is lit, after an odd number of times.
\<close>

definition toggles :: "nat \<Rightarrow> nat \<Rightarrow> nat" where
  "toggles n j = (n + 3 - j) div 4"

lemma toggles_Suc:
  assumes "j < 4"
  shows "toggles (Suc n) j = toggles n j + (if n mod 4 = j then 1 else 0)"
proof -
  have "j = 0 \<or> j = 1 \<or> j = 2 \<or> j = 3" using assms by auto
  then have "Suc (n + 3 - j) mod 4 = 0 \<longleftrightarrow> n mod 4 = j"
    by (elim disjE; simp; presburger)
  moreover have "Suc n + 3 - j = Suc (n + 3 - j)" using assms by simp
  ultimately show ?thesis by (simp add: toggles_def div_Suc)
qed

lemma led_toggle_cmd [simp]:
  "mds2450_led_ioctl get LED_ONBOARD_TOGGLE k = (0, [GpioSet (GPG k) (xor (get (GPG k)) 1)])"
  by (simp add: mds2450_led_ioctl_def LED_ONBOARD_TOGGLE_def LED_ONBOARD_ON_def LED_ONBOARD_OFF_def
      LED_ONBOARD_MAGIC_def LED_ONBOARD_MAXNR_def io_def)

lemma xor_1_bit: "b = 0 \<or> b = 1 \<Longrightarrow> xor b 1 = (1 - b :: int)"
  by auto

lemma led_chase:
  "cur_led (fold interval_expired clock test_led_onboard_start) = 4 + length clock mod 4 \<and>
   (\<forall>j < 4. gpio_level (GPG (4 + j)) (led_log (fold interval_expired clock test_led_onboard_start)) =
      Some (if odd (toggles (length clock) j) then 0 else 1))"
proof (induction clock rule: rev_induct)
  case Nil
  have "(\<forall>j < 4. P j) \<longleftrightarrow> P 0 \<and> P 1 \<and> P 2 \<and> P (3 :: nat)" for P
    by (auto simp: less_Suc_eq numeral_eq_Suc)
  then show ?case
    by (simp add: test_led_onboard_start_def GPG4_def mds2450_led_open_def gpio_level_def toggles_def)
next
  case (snoc c clock)
  define n where "n = length clock"
  define s where "s = fold interval_expired clock test_led_onboard_start"
  have IH: "cur_led s = 4 + n mod 4"
    "j < 4 \<Longrightarrow> gpio_level (GPG (4 + j)) (led_log s) = Some (if odd (toggles n j) then 0 else 1)" for j
    using snoc.IH by (simp_all add: s_def n_def)
  have cur: "cur_led (interval_expired c s) = 4 + Suc n mod 4"
    using IH(1) by (simp add: interval_expired_def Let_def GPG4_def GPG7_def) presburger
  have log: "led_log (interval_expired c s) = led_log s @
      [GpioSet (GPG (4 + n mod 4)) (xor (pin_value (led_log s) (GPG (4 + n mod 4))) 1)]"
    by (simp add: interval_expired_def Let_def IH(1))
  have "gpio_level (GPG (4 + j)) (led_log (interval_expired c s)) =
      Some (if odd (toggles (Suc n) j) then 0 else 1)" if "j < 4" for j
    using IH(2) [OF that] that
    by (auto simp: log toggles_Suc pin_value_def xor_1_bit)
  then show ?case using cur by (simp add: s_def n_def)
qed

end
