(* ===== verification/PwmDrivers.thy ===== *)
theory PwmDrivers
  imports Modules
begin

text \<open>
  The PWM drivers with the state they keep. The fan and the two servo drivers hold their device in
  a static variable \<open>pwm_dev\<close>, which every \<open>open\<close> overwrites with what \<open>pwm_request\<close> returns. The
  kernel hands a channel out once until it is given back, and may refuse a free one; it refuses
  with an error pointer, as the documentation the drivers refer to says, and they only look for
  NULL. Any number of processes open, use and close the three devices, in any order.
\<close>

section \<open>The drivers\<close>

datatype pwm_module = FanModule | MG995Module | SG90Module

definition module_fops :: "pwm_module \<Rightarrow> file_operations" where
  "module_fops m = (case m of FanModule \<Rightarrow> FAN_fops | MG995Module \<Rightarrow> MG995_fops | SG90Module \<Rightarrow> SG90_fops)"

definition module_channel :: "pwm_module \<Rightarrow> nat" where
  "module_channel m = (case m of FanModule \<Rightarrow> 3 | MG995Module \<Rightarrow> 2 | SG90Module \<Rightarrow> 2)"

record pwm_state =
  pwm_dev :: "pwm_module \<Rightarrow> pwm_ptr"
  open_files :: "pwm_module \<Rightarrow> nat"
  granted :: "nat set"                    \<comment> \<open>the channels the kernel has handed out\<close>

definition pwm_start :: pwm_state where
  "pwm_start = \<lparr>pwm_dev = (\<lambda>_. PwmNull), open_files = (\<lambda>_. 0), granted = {}\<rparr>"

fun grant :: "pwm_ptr \<Rightarrow> nat set \<Rightarrow> nat set" where
  "grant (PwmDevice ch) cs = insert ch cs"
| "grant dev cs = cs"

text \<open>\<open>open\<close>: \<open>dev\<close> is what \<open>pwm_request\<close> returns. A failed \<open>open\<close> leaves no file.\<close>

definition pwm_open :: "pwm_module \<Rightarrow> pwm_ptr \<Rightarrow> pwm_state \<Rightarrow> int \<times> pwm_state" where
  "pwm_open m dev s =
     (case fop_open (module_fops m) of None \<Rightarrow> (0, s)
      | Some h \<Rightarrow>
          (let rc = fst (h dev);
               s = s\<lparr>pwm_dev := (pwm_dev s)(m := dev), granted := grant dev (granted s)\<rparr>
           in (rc, if rc = 0 then s\<lparr>open_files := (open_files s)(m := Suc (open_files s m))\<rparr> else s)))"

text \<open>
  A pointer handed to \<open>pwm_enable\<close>, \<open>pwm_disable\<close>, \<open>pwm_config\<close> or \<open>pwm_free\<close> must be that of a
  device: an error pointer is an address that was never allocated.
\<close>

definition device_behind :: "pwm_ptr \<Rightarrow> nat result" where
  "device_behind dev =
     (case dev of PwmDevice ch \<Rightarrow> Inr ch | PwmNull \<Rightarrow> Inl NullDeref | PwmError e \<Rightarrow> Inl WildPointer)"

text \<open>\<open>ioctl\<close>: a command that reaches the device hands \<open>pwm_dev\<close> to the kernel.\<close>

definition pwm_ioctl ::
    "pwm_module \<Rightarrow> (nat \<Rightarrow> int \<Rightarrow> int \<Rightarrow> int) \<Rightarrow> ioc \<Rightarrow> pwm_duty option \<Rightarrow> pwm_state \<Rightarrow> (int \<times> kcall list) result" where
  "pwm_ioctl m cfg cmd arg s =
     (case fop_ioctl (module_fops m) of
        Some (IoctlPwm h) \<Rightarrow>
          (if snd (h cfg 0 cmd arg) = [] then Inr (h cfg 0 cmd arg)
           else rbind (device_behind (pwm_dev s m)) (\<lambda>dev. Inr (h cfg dev cmd arg)))
      | _ \<Rightarrow> Inr (-1, []))"

text \<open>The last \<open>close\<close> of a file releases the device.\<close>

definition pwm_close :: "pwm_module \<Rightarrow> pwm_state \<Rightarrow> pwm_state result" where
  "pwm_close m s =
     (case fop_release (module_fops m) of None \<Rightarrow> Inr s
      | Some h \<Rightarrow>
          rbind (device_behind (pwm_dev s m)) (\<lambda>dev.
            Inr (s\<lparr>open_files := (open_files s)(m := open_files s m - 1), granted := granted s - {dev}\<rparr>)))"

definition honest :: "pwm_module \<Rightarrow> pwm_ptr \<Rightarrow> pwm_state \<Rightarrow> bool" where
  "honest m dev s \<longleftrightarrow>
     (case dev of PwmDevice ch \<Rightarrow> ch = module_channel m \<and> ch \<notin> granted s | PwmNull \<Rightarrow> False | PwmError e \<Rightarrow> True)"

inductive pwm_step :: "pwm_state \<Rightarrow> pwm_state \<Rightarrow> bool" where
  opens: "honest m dev s \<Longrightarrow> pwm_open m dev s = (rc, s') \<Longrightarrow> pwm_step s s'"
| uses: "0 < open_files s m \<Longrightarrow> pwm_ioctl m cfg cmd arg s = Inr r \<Longrightarrow> pwm_step s s"
| closes: "0 < open_files s m \<Longrightarrow> pwm_close m s = Inr s' \<Longrightarrow> pwm_step s s'"

text \<open>
  Nobody opens a device whose channel is in use, by that device or the other servo, and the
  kernel grants every free channel.
\<close>

inductive polite_step :: "pwm_state \<Rightarrow> pwm_state \<Rightarrow> bool" where
  opens: "\<forall>n. module_channel n = module_channel m \<longrightarrow> open_files s n = 0 \<Longrightarrow> honest m (PwmDevice ch) s \<Longrightarrow>
      pwm_open m (PwmDevice ch) s = (rc, s') \<Longrightarrow> polite_step s s'"
| uses: "0 < open_files s m \<Longrightarrow> pwm_ioctl m cfg cmd arg s = Inr r \<Longrightarrow> polite_step s s"
| closes: "0 < open_files s m \<Longrightarrow> pwm_close m s = Inr s' \<Longrightarrow> polite_step s s'"

inductive_cases pwm_stepE: "pwm_step s s'"
inductive_cases polite_stepE: "polite_step s s'"

lemma polite_pwm: "polite_step s s' \<Longrightarrow> pwm_step s s'"
  by (induction rule: polite_step.induct) (blast intro: pwm_step.intros)+

section \<open>What the three drivers share\<close>

text \<open>The commands that reach the device: switching it on and off, and a duty rate to set.\<close>

definition reaches :: "ioc \<Rightarrow> pwm_duty option \<Rightarrow> bool" where
  "reaches cmd arg \<longleftrightarrow> cmd = io (CHR ''p'') 0 \<or> cmd = io (CHR ''p'') 1 \<or>
     cmd = iow (CHR ''p'') 2 pwm_duty_size \<and> arg \<noteq> None"

locale pwm_channel_driver =
  fixes f :: file_operations and ch :: nat
  assumes open_entry: "\<exists>h. fop_open f = Some h \<and> (\<forall>dev. h dev = (if dev = PwmNull then -1 else 0, [PwmRequest ch]))"
    and release_entry: "\<exists>h. fop_release f = Some h \<and> (\<forall>dev. h dev = (0, [PwmFree dev]))"
    and ioctl_entry: "\<exists>h. fop_ioctl f = Some (IoctlPwm h) \<and>
      (\<forall>cfg dev cmd arg. snd (h cfg dev cmd arg) = [] \<longleftrightarrow> \<not> reaches cmd arg)"
begin

lemma open_rc: "\<exists>h. fop_open f = Some h \<and> fst (h PwmNull) = -1 \<and> (dev \<noteq> PwmNull \<longrightarrow> fst (h dev) = 0)"
  using open_entry by auto

end

interpretation pwm_module: pwm_channel_driver "module_fops m" "module_channel m"
proof unfold_locales
  show "\<exists>h. fop_open (module_fops m) = Some h \<and>
      (\<forall>dev. h dev = (if dev = PwmNull then -1 else 0, [PwmRequest (module_channel m)]))"
    by (cases m) (auto simp: module_fops_def module_channel_def FAN_fops_def MG995_fops_def SG90_fops_def fops0_def
        FAN_open_def MG995_open_def SG90_open_def)
  show "\<exists>h. fop_release (module_fops m) = Some h \<and> (\<forall>dev. h dev = (0, [PwmFree dev]))"
    by (cases m) (simp_all add: module_fops_def FAN_fops_def MG995_fops_def SG90_fops_def fops0_def
        FAN_release_def MG995_release_def SG90_release_def)
  have fan: "snd (FAN_ioctl cfg dev cmd arg) = [] \<longleftrightarrow> \<not> reaches cmd arg" for cfg dev cmd arg
    by (cases arg) (auto simp: FAN_ioctl_def reaches_def pwm_cmds)
  have servo: "snd (MG995_ioctl cfg dev cmd arg) = [] \<longleftrightarrow> \<not> reaches cmd arg" for cfg dev cmd arg
    by (cases arg) (auto simp: MG995_ioctl_def reaches_def pwm_cmds)
  show "\<exists>h. fop_ioctl (module_fops m) = Some (IoctlPwm h) \<and>
      (\<forall>cfg dev cmd arg. snd (h cfg dev cmd arg) = [] \<longleftrightarrow> \<not> reaches cmd arg)"
    by (cases m) (simp_all add: module_fops_def FAN_fops_def MG995_fops_def SG90_fops_def fops0_def fan servo
        MG995_SG90_same)
qed

text \<open>What the operations do, for each of the drivers.\<close>

lemma pwm_open_cases:
  "dev \<noteq> PwmNull \<Longrightarrow> pwm_open m dev s = (0, s\<lparr>pwm_dev := (pwm_dev s)(m := dev), granted := grant dev (granted s),
     open_files := (open_files s)(m := Suc (open_files s m))\<rparr>)"
  using pwm_module.open_rc [of m dev] by (auto simp: pwm_open_def Let_def)

lemma pwm_close_cases:
  "pwm_close m s = rbind (device_behind (pwm_dev s m)) (\<lambda>dev.
     Inr (s\<lparr>open_files := (open_files s)(m := open_files s m - 1), granted := granted s - {dev}\<rparr>))"
  using pwm_module.release_entry [of m] by (auto simp: pwm_close_def)

lemma pwm_ioctl_cases:
  "device_behind (pwm_dev s m) = Inl e \<Longrightarrow> reaches cmd arg \<Longrightarrow> pwm_ioctl m cfg cmd arg s = Inl e"
  "device_behind (pwm_dev s m) = Inr dev \<Longrightarrow> \<exists>r. pwm_ioctl m cfg cmd arg s = Inr r"
  using pwm_module.ioctl_entry [of m] by (auto simp: pwm_ioctl_def)

lemma honest_cases:
  assumes "honest m dev s"
  obtains "dev = PwmDevice (module_channel m)" "module_channel m \<notin> granted s" | e where "dev = PwmError e"
  using assms by (cases dev) (auto simp: honest_def)

section \<open>One opener at a time\<close>

text \<open>Then a process that has a device open has its channel, alone.\<close>

definition polite_inv :: "pwm_state \<Rightarrow> bool" where
  "polite_inv s \<longleftrightarrow>
     (\<forall>m. open_files s m \<le> 1 \<and> (0 < open_files s m \<longrightarrow> pwm_dev s m = PwmDevice (module_channel m))) \<and>
     (\<forall>m n. 0 < open_files s m \<longrightarrow> 0 < open_files s n \<longrightarrow> module_channel m = module_channel n \<longrightarrow> m = n)"

lemma polite_inv_step:
  assumes "polite_inv s" and "polite_step s s'"
  shows "polite_inv s'"
  using assms(2)
proof (cases rule: polite_stepE [consumes 1, case_names opens uses closes])
  case (opens m ch rc)
  then show ?thesis
    using assms(1) by (auto simp: pwm_open_cases honest_def polite_inv_def split: if_splits)
next
  case (closes m)
  then show ?thesis
    using assms(1) by (auto simp: pwm_close_cases polite_inv_def device_behind_def rbind_eq_Inr split: if_splits)
qed (use assms(1) in simp)

interpretation polite_system: transition_system polite_step polite_inv
  by unfold_locales (rule polite_inv_step)

section \<open>One opener too many\<close>

text \<open>A device in every reachable state is that of its driver.\<close>

definition own_channel :: "pwm_state \<Rightarrow> bool" where
  "own_channel s \<longleftrightarrow> (\<forall>m ch. pwm_dev s m = PwmDevice ch \<longrightarrow> ch = module_channel m)"

lemma own_channel_step: "own_channel s \<Longrightarrow> pwm_step s s' \<Longrightarrow> own_channel s'"
  by (elim pwm_stepE)
    (auto simp: own_channel_def pwm_open_cases pwm_close_cases rbind_eq_Inr split: if_splits elim!: honest_cases)

interpretation own_channel: transition_system pwm_step own_channel
  by unfold_locales (rule own_channel_step)

text \<open>
  The driver holds an error pointer, its channel is taken, and no other driver can give it back.
\<close>

definition lost :: "pwm_module \<Rightarrow> pwm_state \<Rightarrow> bool" where
  "lost m s \<longleftrightarrow> own_channel s \<and> (\<exists>e. pwm_dev s m = PwmError e) \<and> module_channel m \<in> granted s \<and>
     (\<forall>n. n \<noteq> m \<longrightarrow> module_channel n = module_channel m \<longrightarrow> 0 < open_files s n \<longrightarrow> (\<exists>e. pwm_dev s n = PwmError e))"

lemma lost_step:
  assumes "lost m s" and "pwm_step s s'"
  shows "lost m s'"
proof -
  have own: "own_channel s" "own_channel s'"
    using assms own_channel_step by (auto simp: lost_def)
  from assms(2) show ?thesis
  proof (cases rule: pwm_stepE [consumes 1, case_names opens uses closes])
    case (opens n dev rc)
    from opens(1) show ?thesis
    proof (cases rule: honest_cases)
      case 1
      then have "n \<noteq> m" "module_channel n \<noteq> module_channel m" using assms(1) by (auto simp: lost_def)
      then show ?thesis using assms(1) own(2) opens(2) 1 by (auto simp: lost_def pwm_open_cases)
    next
      case (2 e)
      then show ?thesis using assms(1) own(2) opens(2) by (auto simp: lost_def pwm_open_cases)
    qed
  next
    case (closes n)
    then obtain dev where dev: "pwm_dev s n = PwmDevice dev"
      "s' = s\<lparr>open_files := (open_files s)(n := open_files s n - 1), granted := granted s - {dev}\<rparr>"
      by (auto simp: pwm_close_cases rbind_eq_Inr device_behind_def split: pwm_ptr.splits)
    then have "dev = module_channel n" "n \<noteq> m" using assms(1) own(1) by (auto simp: lost_def own_channel_def)
    moreover have "dev \<noteq> module_channel m"
      using calculation assms(1) closes(1) dev(1) by (auto simp: lost_def)
    ultimately show ?thesis using assms(1) own(2) dev(2) by (auto simp: lost_def)
  qed (use assms(1) in simp)
qed

interpretation lost_system: transition_system pwm_step "lost m"
  by unfold_locales (rule lost_step)

lemma second_open_succeeds:
  assumes "own_channel s" and "module_channel m \<in> granted s" and "honest m dev s"
    and "\<forall>n. n \<noteq> m \<longrightarrow> module_channel n = module_channel m \<longrightarrow> open_files s n = 0"
  shows "fst (pwm_open m dev s) = 0" "lost m (snd (pwm_open m dev s))"
proof -
  obtain e where dev: "dev = PwmError e" using assms(2,3) by (auto elim: honest_cases)
  then show "fst (pwm_open m dev s) = 0" by (simp add: pwm_open_cases)
  show "lost m (snd (pwm_open m dev s))"
    using assms dev by (auto simp: pwm_open_cases lost_def own_channel_def)
qed

lemma lost_is_dead:
  assumes "lost m s"
  shows "reaches cmd arg \<Longrightarrow> pwm_ioctl m cfg cmd arg s = Inl WildPointer" "pwm_close m s = Inl WildPointer"
    "honest m dev s \<Longrightarrow> fst (pwm_open m dev s) = 0"
  using assms by (auto simp: lost_def pwm_ioctl_cases pwm_close_cases device_behind_def pwm_open_cases honest_def
      split: pwm_ptr.splits)

end
