(* ===== verification/Spec2Isabelle.thy ===== *)
theory Spec2Isabelle
  imports Itoa Demo TestApps PwmDrivers
begin

text \<open>
  Verification development for the smart planter, a program for the S3C2450 board that keeps a
  plant: \<^verbatim>\<open>src/main.c\<close>, the libraries under \<^verbatim>\<open>lib\<close> and \<^verbatim>\<open>drivers/lib\<close>, the kernel drivers
  \<^verbatim>\<open>drivers/kernel-level/mds2450_*\<close>, the programs under \<^verbatim>\<open>samples\<close> and
  \<^verbatim>\<open>drivers/test-app\<close>.

  How the program works. Four threads read the sensors (DHT11 temperature and humidity, light,
  magnet at the water tank, soil moisture), store the values in global variables and the
  database, and in automatic mode send commands to a message queue when a value crosses a
  boundary. The main thread polls a server socket and the queue; \<open>message_queue_handler\<close> carries
  out a command on a device (LED, fan, drain servo, water valve, humidifier, dryer) and records
  the device's state, which the sensor threads look at. Each client connection is served by a
  thread of its own (\<open>socket_handler\<close>), which transfers data, changes mode and boundaries, or
  manages and plays music.

  How the theories follow the code.
  \<^item> \<open>Prelude\<close>, \<open>CString\<close>: undefined behaviour as values (\<open>c_err\<close>), 32-bit integers, C strings,
    \<open>sprintf\<close>, \<open>atoi\<close>, \<open>sscanf\<close>, \<open>strstr\<close>.
  \<^item> \<open>Itoa\<close> (\<^verbatim>\<open>lib/itoa.c\<close>), \<open>LinkedList\<close> (\<^verbatim>\<open>lib/list.c\<close>, on an explicit heap whose cells are
    live or freed), \<open>Music\<close> (\<^verbatim>\<open>lib/music.c\<close>, with the locale \<open>playlist\<close>), \<open>Database\<close>
    (\<^verbatim>\<open>lib/database.c\<close>), \<open>Network\<close> (\<^verbatim>\<open>lib/network.c\<close>).
  \<^item> \<open>Kernel\<close>: the entry points of the drivers; what they do to the hardware is a log of calls.
    \<open>Dht11\<close>: the DHT11 driver on a line sampled every microsecond. \<open>Modules\<close>: the tables the
    drivers hand to the kernel, module loading, and the way from a path to a driver.
    \<open>PwmDrivers\<close>: the static \<open>pwm_dev\<close> of the fan and servo drivers, which may be an error
    pointer, with any number of processes that open, use and close them (\<open>pwm_step\<close>); the locale
    \<open>pwm_channel_driver\<close> is what the three have in common.
  \<^item> \<open>Devices\<close> (\<^verbatim>\<open>relay.c\<close>, \<^verbatim>\<open>led.c\<close>, \<^verbatim>\<open>solenoid.c\<close>, \<^verbatim>\<open>dryer.c\<close>, \<^verbatim>\<open>fan.c\<close>, \<^verbatim>\<open>servo.c\<close>,
    \<^verbatim>\<open>humidifier.c\<close>): the operations on the state \<open>world\<close>, the abstract \<open>panel\<close> read off the
    log, and the locale \<open>switch\<close>, which the LED, the valve, the dryer and the humidifier
    interpret. \<open>Sensors\<close> (\<^verbatim>\<open>moisture.c\<close>, \<^verbatim>\<open>magnetic.c\<close>, \<^verbatim>\<open>humitemp.c\<close>, \<^verbatim>\<open>photo.c\<close>). \<open>Video\<close>
    (\<^verbatim>\<open>video_capture.c\<close>, \<^verbatim>\<open>draw_framebuffer.c\<close>).
  \<^item> \<open>Control\<close>: the globals of \<^verbatim>\<open>main.c\<close> as the record \<open>planter\<close>, the message queue, the
    message handler, one round of each sensor thread, initialisation and release.
  \<^item> \<open>Messages\<close>: the queue as a first-in first-out channel (locale \<open>channel\<close>). \<open>Actuation\<close>: the
    message handler refines the panel; \<open>agrees\<close> ties the state variables to the panel.
    \<open>Polling\<close>: a round sends exactly the commands its measurement demands. \<open>Regulation\<close>: the
    loops settle (locale \<open>two_point\<close>).
  \<^item> \<open>Server\<close>: \<open>socket_handler\<close> and the request functions; \<open>Requests\<close>: what they do.
  \<^item> \<open>System\<close>: \<open>main\<close> and the interleaving of threads, main loop and requests as the step
    relation \<open>sys_step\<close>, in which an iteration of the main loop and a request are one step each.
    \<open>Reachability\<close>: its invariant (locales \<open>sensor_thread\<close> and, from \<open>Prelude\<close>,
    \<open>transition_system\<close>). \<open>Lifecycle\<close>: whole rounds (\<open>humitemp_round\<close> with the driver's \<open>read\<close>),
    runs without clients, the shutdown.
  \<^item> \<open>Locking\<close>: the two requests that hold \<open>recv_trans_lock\<close>, one step at a time (\<open>serve_step\<close>),
    any number of them interleaved with all the rest (\<open>server_step\<close>); the locale
    \<open>critical_thread\<close> for what a thread knows between lock and unlock.
  \<^item> \<open>Typing\<close>: the ranges of the global variables. \<open>Actions\<close>: \<open>message_queue_handler\<close> taken apart
    into system calls and assignments, each of which belongs to one device. \<open>Races\<close>: its calls
    by several threads at once (\<open>race_step\<close>), with what holds under every interleaving
    (\<open>free_inv\<close>) and for a device whose calls do not overlap (\<open>lone_step\<close>). \<open>Boundaries\<close>:
    \<open>receive_boundary_data\<close> one load and store at a time (\<open>bounds_step\<close>). \<open>Transfers\<close>: the state
    and the sensor transfer one variable at a time (\<open>relay_step\<close>). \<open>Shutdown\<close>: SIGINT in the
    middle of a call of the handler (\<open>acts_after\<close>, \<open>interrupted\<close>), with the falling edges of the
    humidifier's button (\<open>button_edges\<close>). \<open>Release\<close>: the signal handler, release by release,
    with the threads that go on beside it until \<open>exit\<close> (\<open>closing_step\<close>). The locales
    \<open>thread_keeps\<close> (theory \<open>System\<close>) and \<open>request_invariant\<close> (theory \<open>Reachability\<close>) say what a
    property must satisfy for threads and requests to keep it; each is interpreted for the
    invariants of these theories.
  \<^item> \<open>Samples\<close> and \<open>TestApps\<close>: the programs for single devices and drivers.
  \<^item> \<open>Demo\<close>: a concrete start of the program, for the witnesses.

  What the properties below show. A state variable agrees with its device as long as calls for
  this device do not overlap, and again from the next undisturbed command on; the main loop
  never reads past a message; the regulation reaches its setpoints and stays quiet; commands are
  neither lost nor reordered; what clients send and receive is what the protocol says; uploads
  and playlist transfers exclude each other; calls of the handler for different devices may
  interleave, and so may boundary requests of which one at a time is updating; the global
  variables keep their types; the shutdown switches everything off wherever it interrupts a
  call, but for a press of the button; the playlist, the database log, \<open>itoa\<close>, the DHT11 packet
  and the picture conversion are right, within their bounds; and, where the code is not right,
  what exactly it does: the faults of \<open>music_remove\<close>, the drain that the automatic mode never
  opens, the missing \<open>break\<close> of command 9, the store before the receive buffer, the endless wait
  of the DHT11 driver, the overflow of \<open>play_music\<close>, the closed database handle, registrations
  left behind or missing unnoticed, the PWM device lost to a second opener, the humidifier left
  on by an interrupted press, overlapping commands and boundary requests, logging between
  release and exit.

  Parameters. The kernel, the C library's calls into it, SQLite, V4L2 and the frame buffer
  device are not in the repository: what they return is an argument of the definitions
  (\<open>os_open\<close>, \<open>pwm_result\<close>, \<open>malloc_env\<close>, \<open>db_exec_ok\<close>, \<open>camera_env\<close>, \<open>fb_env\<close>, \<open>conn\<close>), and the
  properties say what they need of it. \<open>stale\<close> decides whether storage can be read after its
  release; \<open>char_signed\<close> whether \<open>char\<close> is signed.

  Bounds and fuel. The humidifier counts its presses in an \<open>int\<close>: the properties on it hold up
  to 2147483647 presses. A loop that ends is a total function; the loops of the DHT11 driver and
  of the playlist are partial functions, \<open>None\<close> when they do not end. \<open>thread_run\<close> takes fuel;
  nine steps are enough for a round of the temperature and humidity thread once the driver has
  returned, and five for the others (\<open>thread_run_ends\<close>); a driver that does not return is a
  thread that takes no further step in \<open>sys_step\<close>, and \<open>None\<close> in \<open>humitemp_round\<close>. \<open>serve_run\<close>
  takes fuel; how much is enough is in \<open>locked_requests_run_as_a_whole\<close>. A transfer that lasts
  until the client leaves is given the states or pictures it finds, round by round, and is
  \<open>None\<close> when these are used up.

  SIGINT is taken by the main thread, inside or outside a call; the kernel's \<open>pwm_request\<close> hands a
  channel out once until it is given back and refuses with an error pointer, as its documentation
  says (\<open>honest\<close>). In \<open>Devices\<close> the program, which opens each device once, is granted its channels,
  and the panel shows the setting last asked for, whether \<open>pwm_config\<close> accepted it or not.

  Not modelled. Console output, except in \<open>Samples\<close> and \<open>TestApps\<close>, where it is the result; the
  interruption of a request or of the handler in \<open>sys_step\<close>, where they are one step (upload and
  playlist transfer are taken apart in \<open>Locking\<close>, the calls of the handler in \<open>Races\<close>, boundaries in
  \<open>Boundaries\<close>, state and sensor transfers in \<open>Transfers\<close>; what depends on their interleaving is
  proved there);
  deletions beside the steps of \<open>Locking\<close>; \<open>music_lock\<close>, which is never taken;
  real time, except in \<open>Dht11\<close>; the picture conversion that is disabled by \<^verbatim>\<open>#if 0\<close>;
  \<^verbatim>\<open>error.h\<close>, whose macro prints and goes on. The Realtek Wi-Fi driver and SQLite are third-party
  code, used unchanged.
\<close>

section \<open>The whole program\<close>



text \<open>
  C5: in every reachable state the message queue is within its bound and holds only
  well-formed messages of the thirteen commands, and an iteration of the main loop succeeds:
  \<open>atoi\<close> never reads past a message.
\<close>

theorem reachable_main_loop_safe:
  assumes "dev p = world0 openf cfg" and "opens openf" and "g_mode p = 0" and "mq_rc \<noteq> -1"
    and "leftover_ok left"
    and "main_init stale rc env dir db_ok mq_rc left p = Some (Inr q)"
    and "sys_step\<^sup>*\<^sup>* (sys_start q) s"
  shows "length (mq (core s)) \<le> MQ_MAX_MSG \<and>
    (\<forall>m \<in> set (mq (core s)). \<exists>c. 1 \<le> c \<and> c \<le> 13 \<and> length m = MQ_MSG_SIZE \<and> c_str m = Some (show_int c)) \<and>
    (\<exists>started p'. main_loop accept_rc (core s) = Inr (started, p'))"
proof -
  have "sys_inv s"
    using planter_system.inv_reach [OF assms(7)] sys_inv_start main_init_inv(1) [OF assms(1-6)] by blast
  then have inv: "core_inv (core s)" by (simp add: sys_inv_def)
  then have q: "queue_ok (core s)" by (simp add: core_inv_def)
  have "\<exists>started p'. main_loop accept_rc (core s) = Inr (started, p')"
    using mq_poll_total [OF inv] by (auto simp: main_loop_def)
  then show ?thesis using q by (auto simp: queue_ok_def valid_cmd_def msg_for_def)
qed

theorem reachable_main_loop_safe_witness:
  "\<exists>started p'. main_loop (- 1) demo_core = Inr (started, p')"
  using reachable_main_loop_safe [OF _ demo_opens _ _ _ demo_main_init rtranclp.rtrancl_refl, of _ "- 1"]
  by (simp add: demo_planter_def demo_world_def leftover_ok_def sys_start_def)

text \<open>
  C19: a round of the temperature and humidity thread, from the pulses on the wire to the message
  queue: when the sensor answers with five bytes whose checksum is right, the round ends, in
  automatic mode with exactly the commands in the queue that humidity and temperature ask for
  against the boundaries and the states of the devices, in the order of the code, with both
  values in the globals and in the database, and with no device touched.
\<close>

theorem wire_to_commands:
  fixes ws :: "u8 list"
  defines "h \<equiv> uint (ws ! 0)" and "t \<equiv> uint (ws ! 2)"
  assumes "reply wire now up low high fs" and "map (map fst) fs = map byte_bits ws" and "length ws = 5"
    and "DHT11_checksum ws = uint (ws ! 4)" and "h < 128" and "t < 128"
    and "s_files (sens p) (fd_humitemp (sens p)) = Some HUMITEMP_DEV_PATH"
    and "thread_ok (cmd, p)" and "db_healthy (db p)" and "g_mode p = MODE_AUTO"
  shows "\<exists>cmd' q. humitemp_round char_signed stale wire now False (cmd, p) = Some (Inr (cmd', q)) \<and>
    g_humi q = h \<and> g_temp q = t \<and> dev q = dev p \<and>
    queued q = take MQ_MAX_MSG (queued p @
      (if h > g_humi_upper_fan p \<and> g_state_fan p = STATE_FAN_OFF then [MQ_CMD_FAN_ON]
       else if h < g_humi_under_fan p \<and> g_state_fan p = STATE_FAN_ON then [MQ_CMD_FAN_OFF] else []) @
      (if h < g_humi_under_humidifier p \<and> g_state_humidifier p = STATE_HUMIDIFIER_OFF then [MQ_CMD_HUMIDIFIER_ON]
       else if h > g_humi_upper_humidifier p \<and> g_state_humidifier p = STATE_HUMIDIFIER_ON then [MQ_CMD_HUMIDIFIER_OFF] else []) @
      (if t < g_temp_under_dryer p \<and> g_state_dryer p = STATE_DRYER_OFF then [MQ_CMD_DRYER_ON]
       else if t > g_temp_upper_dryer p \<and> g_state_dryer p = STATE_DRYER_ON then [MQ_CMD_DRYER_OFF] else []) @
      (if t > g_temp_upper_cooler p \<and> g_state_fan p \<in> {STATE_FAN_OFF, STATE_FAN_ON} then [MQ_CMD_FAN_VERY_FAST]
       else if t < g_temp_under_cooler p \<and> g_state_fan p = STATE_FAN_VERY_FAST then
         (if h < g_humi_under_fan p then [MQ_CMD_FAN_OFF] else [MQ_CMD_FAN_ON]) else [])) \<and>
    db_stmts (db q) = db_stmts (db p) @
      [''INSERT INTO humi (humi) VALUES ('' @ show_int h @ '');'', ''INSERT INTO temp (temp) VALUES ('' @ show_int t @ '');'']"
proof -
  obtain s where r: "humitemp_read char_signed (5, ws) (sens p) = (Some (h, t), s)"
    using humitemp_read_small [OF assms(9,5)] assms(7,8) by (simp add: h_def t_def)
  have "sends_of (humitemp_demand (measured h t s p)) (cmd, measured h t s p)
      (humitemp_handler char_signed stale (5, ws) (cmd, p))"
    using humitemp_handler_spec [OF assms(10,11) r, of stale] assms(12) by (simp add: by_mode_def)
  then obtain cmd' ms where e: "humitemp_handler char_signed stale (5, ws) (cmd, p) = Inr (cmd', (measured h t s p)\<lparr>mq := ms\<rparr>)"
    "queued ((measured h t s p)\<lparr>mq := ms\<rparr>) = take MQ_MAX_MSG (queued p @ humitemp_demand (measured h t s p))"
    by (auto simp: sends_of_def measured_def queued_def)
  have "humitemp_demand (measured h t s p) =
      (if h > g_humi_upper_fan p \<and> g_state_fan p = STATE_FAN_OFF then [MQ_CMD_FAN_ON]
       else if h < g_humi_under_fan p \<and> g_state_fan p = STATE_FAN_ON then [MQ_CMD_FAN_OFF] else []) @
      (if h < g_humi_under_humidifier p \<and> g_state_humidifier p = STATE_HUMIDIFIER_OFF then [MQ_CMD_HUMIDIFIER_ON]
       else if h > g_humi_upper_humidifier p \<and> g_state_humidifier p = STATE_HUMIDIFIER_ON then [MQ_CMD_HUMIDIFIER_OFF] else []) @
      (if t < g_temp_under_dryer p \<and> g_state_dryer p = STATE_DRYER_OFF then [MQ_CMD_DRYER_ON]
       else if t > g_temp_upper_dryer p \<and> g_state_dryer p = STATE_DRYER_ON then [MQ_CMD_DRYER_OFF] else []) @
      (if t > g_temp_upper_cooler p \<and> g_state_fan p \<in> {STATE_FAN_OFF, STATE_FAN_ON} then [MQ_CMD_FAN_VERY_FAST]
       else if t < g_temp_under_cooler p \<and> g_state_fan p = STATE_FAN_VERY_FAST then
         (if h < g_humi_under_fan p then [MQ_CMD_FAN_OFF] else [MQ_CMD_FAN_ON]) else [])"
    by (simp add: humitemp_demand_def demand_defs measured_def cmd_defs)
  note queue = e(2) [unfolded this]
  have "humitemp_round char_signed stale wire now False (cmd, p) = Some (Inr (cmd', (measured h t s p)\<lparr>mq := ms\<rparr>))"
    using humitemp_round_reply [OF assms(3-6,9)] e(1) by simp
  moreover have "db_stmts (db ((measured h t s p)\<lparr>mq := ms\<rparr>)) = db_stmts (db p) @
      [''INSERT INTO humi (humi) VALUES ('' @ show_int h @ '');'', ''INSERT INTO temp (temp) VALUES ('' @ show_int t @ '');'']"
    by (simp add: measured_def log_entry_def insert_text_def table_defs)
  moreover have "g_humi ((measured h t s p)\<lparr>mq := ms\<rparr>) = h" "g_temp ((measured h t s p)\<lparr>mq := ms\<rparr>) = t"
    "dev ((measured h t s p)\<lparr>mq := ms\<rparr>) = dev p"
    by (simp_all add: measured_def)
  ultimately show ?thesis
    using queue by (intro exI [of _ cmd'] exI [of _ "(measured h t s p)\<lparr>mq := ms\<rparr>"] conjI)
qed

theorem wire_to_commands_witness:
  "\<exists>cmd' q. humitemp_round True True (nominal_wire [60, 0, 25, 0, 85]) 0 False (replicate 4 nul, demo_core) =
     Some (Inr (cmd', q)) \<and> g_humi q = 60 \<and> hd (queued q) = MQ_CMD_FAN_ON"
proof -
  have h: "uint (([60, 0, 25, 0, 85] :: u8 list) ! 0) < 128" "uint (([60, 0, 25, 0, 85] :: u8 list) ! 2) < 128" by simp_all
  have "MQ_MAX_MSG = Suc (MQ_MAX_MSG - 1)" by (simp add: MQ_MAX_MSG_def)
  then show ?thesis
    using wire_to_commands [OF nominal_wire_reply nominal_frames_bits _ _ h demo_sens(1) demo_thread_ok demo_fields(2), of True True]
      demo_inv(4)
    by (auto simp: DHT11_checksum_def MODE_AUTO_def cmd_defs)
qed

text \<open>
  C8: without client requests, and with no command left in the message queue by an earlier run,
  the automatic mode never moves the drain: \<open>states_init\<close> records it as open, \<open>moisture_handler\<close> only opens it from the state closed, and the servo stays at
  0 degrees, the position of the closed drain, however full the soil is.
\<close>

theorem automatic_mode_never_opens_drain:
  assumes "dev p = world0 openf cfg" and "opens openf" and "g_mode p = 0" and "mq_rc \<noteq> -1"
    and "main_init stale rc env dir db_ok mq_rc [] p = Some (Inr q)"
    and "quiet_step\<^sup>*\<^sup>* (sys_start q) s" and "presses (hw (dev (core s))) \<le> 2147483647"
  shows "g_state_drain (core s) = STATE_DRAIN_OPEN \<and>
    drain_pwm (panel_of (dev (core s))) = Some (MG995_PWM_DEGREE_0, MG995_PWM_PERIOD)"
proof -
  have l: "leftover_ok []" by (simp add: leftover_ok_def)
  note m = main_init_inv [OF assms(1-4) l assms(5)]
  have "drain_idle q" by (rule main_init_drain [OF assms(1,2,4,5)])
  then have "quiet_inv (sys_start q)"
    using sys_inv_start [OF m(1)] by (simp add: quiet_inv_def sys_start_def)
  then have "drain_idle (core s)"
    using quiet_system.inv_reach [OF assms(6)] by (simp add: quiet_inv_def)
  then show ?thesis using assms(7) by (simp add: drain_idle_def cmd_defs)
qed

theorem automatic_mode_never_opens_drain_witness:
  "g_state_drain demo_core = STATE_DRAIN_OPEN \<and>
   drain_pwm (panel_of (dev demo_core)) = Some (MG995_PWM_DEGREE_0, MG995_PWM_PERIOD)"
  using automatic_mode_never_opens_drain [OF _ demo_opens _ _ demo_main_init rtranclp.rtrancl_refl]
    demo_presses
  by (simp add: demo_planter_def demo_world_def sys_start_def)

section \<open>Shutdown\<close>



text \<open>
  C17: when SIGINT arrives while \<open>humidifier_on\<close> presses the button of a humidifier that is off,
  anywhere between \<open>cnt++\<close> and the release of the button, the release takes the press for done and
  presses twice; the button makes two falling edges in all instead of three or none, and the
  humidifier is left in its continuous mode.
\<close>

theorem interrupted_press_keeps_misting:
  assumes "dev p = world0 openf cfg" and "opens openf"
    and "main_init stale rc env dir db_ok mq_rc left p = Some (Inr q)"
    and "sys_step\<^sup>*\<^sup>* (sys_start q) s" and "r = snd (mq_receive (core s))"
    and "mist (panel_of (dev r)) = 0" and "presses (hw (dev r)) \<le> 2147483646" and "n \<in> {2, 3, 4}"
  shows "button_edges (hw (dev (interrupted n MQ_CMD_HUMIDIFIER_ON r))) mod 3 = 2"
proof -
  have "button_up (core s)" using button_system.inv_reach [OF assms(4)] main_init_button [OF assms(1-3)]
    by (simp add: sys_start_def)
  then have up: "ready (dev r)" "released (hw (dev r))"
    by (simp_all add: assms(5) mq_receive_up button_up_def)
  have "button_edges (hw (dev r)) mod 3 = 0" using up(2) assms(6) by (simp add: released_def)
  then show ?thesis
    using interrupted_press [OF up assms(7,6,8)] by presburger
qed

theorem interrupted_press_keeps_misting_witness:
  "button_edges (hw (dev (interrupted 4 MQ_CMD_HUMIDIFIER_ON demo_core))) mod 3 = 2"
proof -
  have r: "demo_core = snd (mq_receive (core (sys_start demo_core)))"
    by (simp add: mq_receive_def sys_start_def)
  show ?thesis
    using interrupted_press_keeps_misting [OF _ demo_opens demo_main_init rtranclp.rtrancl_refl r, where n = 4] demo_presses
    by (simp add: demo_planter_def demo_world_def)
qed

text \<open>
  C39: the signal handler runs in the main thread, and until its \<open>exit\<close> the sensor threads and the
  requests go on beside it. In every state between the closing of the database and \<open>exit\<close>, whatever
  they have done meanwhile, a round of the moisture or the magnet thread that begins there takes
  the failed \<open>read\<close> of the closed descriptor for a level and hands it to the closed database, a use
  after release; the temperature and humidity thread notices the failure and does nothing. A thread
  of the four that is in the middle of a round there and has a value left to log does the same in
  its next step.
\<close>

theorem sensor_rounds_before_exit:
  assumes "closing_step\<^sup>*\<^sup>* (Releasing 0, s) (Releasing n, s')" and "3 \<le> n"
  shows "moisture_handler st get (cmd, core s') = Inl UseAfterFree \<and>
    magnetic_handler st get later (cmd, core s') = Inl UseAfterFree \<and>
    (\<exists>q. humitemp_handler cs st delivered (cmd, core s') = Inr (cmd, q) \<and> db q = db (core s') \<and> mq q = mq (core s')) \<and>
    ((\<forall>v \<in> {g_humi (core s'), g_temp (core s'), g_photo (core s'), g_magnet (core s'), g_moisture (core s')}. in_i32 v) \<longrightarrow>
      (stage_h s' \<in> {Log 0, Log 1} \<longrightarrow> thread_step (humitemp_measure cs delivered) humitemp_decisions (humitemp_logs st)
         (stage_h s') (cmd_h s', core s') = Inl UseAfterFree) \<and>
      (stage_p s' = Log 0 \<longrightarrow> thread_step (photo_measure light) [led_auto] (photo_logs st)
         (stage_p s') (cmd_p s', core s') = Inl UseAfterFree) \<and>
      (stage_g s' = Log 0 \<longrightarrow> thread_step (magnetic_measure get later) [valve_auto] (magnetic_logs st)
         (stage_g s') (cmd_g s', core s') = Inl UseAfterFree) \<and>
      (stage_m s' = Log 0 \<longrightarrow> thread_step (moisture_measure get) [drain_auto] (moisture_logs st)
         (stage_m s') (cmd_m s', core s') = Inl UseAfterFree))"
proof -
  have "closing_inv (Releasing n, s')"
    by (rule closing.inv_reach [OF assms(1)]) (simp add: closing_inv_def)
  then have g: "gone True (core s')" using assms(2) by (simp add: closing_inv_def)
  show ?thesis
    using rounds_after_release [OF g] logs_after_release [OF g]
    by (intro conjI impI) auto
qed

theorem sensor_rounds_before_exit_witness:
  "\<exists>p. let s = (sys_start demo_core)\<lparr>stage_m := Log 0, core := p\<rparr> in
     closing_step\<^sup>*\<^sup>* (Releasing 0, (sys_start demo_core)\<lparr>stage_m := Log 0\<rparr>) (Releasing 3, s) \<and>
     moisture_handler True (\<lambda>_. 0) ([], core s) = Inl UseAfterFree \<and>
     thread_step (moisture_measure (\<lambda>_. 0)) [drain_auto] (moisture_logs True) (stage_m s) (cmd_m s, core s) = Inl UseAfterFree"
proof -
  let ?s = "(sys_start demo_core)\<lparr>stage_m := Log 0\<rparr>"
  have "core ?s = demo_core" by (simp add: sys_start_def)
  from demo_release [OF this] obtain p where r: "closing_step\<^sup>*\<^sup>* (Releasing 0, ?s) (Releasing 3, ?s\<lparr>core := p\<rparr>)"
    "g_humi p = 0" "g_temp p = 0" "g_photo p = 0" "g_magnet p = 0" "g_moisture p = 0"
    by blast
  show ?thesis
    using sensor_rounds_before_exit [OF r(1) order_refl, of True "\<lambda>_. 0" "[]"] r by (intro exI [of _ p]) (simp add: in_i32_def)
qed

section \<open>Regulation\<close>

text \<open>
  C3: one round of the temperature and humidity thread in automatic mode, after which the
  main loop runs four times, brings fan, humidifier and dryer to their setpoints; a second
  round with the same measurement sends no command, so that the regulation does not chatter.
\<close>

theorem humitemp_regulation_settles:
  assumes "thread_ok (cmd, p)" and "queued p = []" and "db_healthy (db p)" and "g_mode p = MODE_AUTO"
    and "states_valid p" and "boundaries_ok p" and "4 \<le> n"
    and "humitemp_read cs d1 (sens p) = (Some (h, t), s1)"
    and "humitemp_read cs d2 s1 = (Some (h, t), s2)"
  shows "\<exists>cmd1 p1 p2 cmd2 p3.
    humitemp_handler cs stale d1 (cmd, p) = Inr (cmd1, p1) \<and> mq_polls n p1 = Inr p2 \<and>
    g_state_fan p2 = fan_target h t p \<and> g_state_humidifier p2 = humidifier_target h p \<and>
    g_state_dryer p2 = dryer_target t p \<and>
    humitemp_handler cs stale d2 (cmd1, p2) = Inr (cmd2, p3) \<and> queued p3 = []"
  by (rule humitemp_settles [OF assms])

theorem humitemp_regulation_settles_witness:
  "\<exists>cmd1 p1 p2. humitemp_handler False True (5, [60, 0, 25, 0, 85]) (replicate 4 nul, demo_core) =
     Inr (cmd1, p1) \<and> mq_polls 4 p1 = Inr p2 \<and> g_state_fan p2 = STATE_FAN_ON"
proof -
  note s = demo_sens(1)
  have t: "fan_target 60 25 demo_core = STATE_FAN_ON"
    by (simp add: fan_target_def cmd_defs) (simp add: demo_core_def message_queue_init_def
      boundary_init_def boundary_update_def boundary_consts in_i32_def)
  show ?thesis
    using humitemp_regulation_settles [OF demo_thread_ok demo_inv(4) demo_fields(2) _ demo_valid(1)
        demo_inv(3) _ demo_read [OF s] demo_read, of 4 True] s t
    by (auto simp: MODE_AUTO_def)
qed

text \<open>
  C23: one round of the light thread in automatic mode and one iteration of the main loop
  switch the LED as the light asks, and a second round with the same light sends no command.
\<close>

theorem photo_regulation_settles:
  assumes "thread_ok (cmd, p)" and "queued p = []" and "db_healthy (db p)" and "g_mode p = MODE_AUTO"
    and "states_valid p" and "boundaries_ok p" and "1 \<le> n" and "in_i32 v" and "v \<noteq> -1"
  shows "\<exists>cmd1 p1 p2 cmd2 p3.
    photo_handler stale v (cmd, p) = Inr (cmd1, p1) \<and> mq_polls n p1 = Inr p2 \<and>
    g_state_led p2 = (if v < g_photo_under_led p then STATE_LED_ON
      else if v > g_photo_upper_led p then STATE_LED_OFF else g_state_led p) \<and>
    photo_handler stale v (cmd1, p2) = Inr (cmd2, p3) \<and> queued p3 = []"
  by (rule photo_settles [OF assms])

theorem photo_regulation_settles_witness:
  "\<exists>cmd1 p1 p2. photo_handler True 100 (replicate 4 nul, demo_core) = Inr (cmd1, p1) \<and>
     mq_polls 1 p1 = Inr p2 \<and> g_state_led p2 = STATE_LED_ON"
proof -
  have "g_photo_under_led demo_core = 500"
    by (simp add: demo_core_def message_queue_init_def boundary_init_def boundary_update_def boundary_consts)
  then show ?thesis
    using photo_regulation_settles [OF demo_thread_ok demo_inv(4) demo_fields(2) _ demo_valid(1)
        demo_inv(3), of 1 100 True]
    by (auto simp: MODE_AUTO_def in_i32_def)
qed

text \<open>
  C37: a client can set the light boundary so high that adding the bias to it overflows; the
  upper threshold is then negative, and with every light intensity the sensor can report the
  regulation switches the LED in each round, whatever its state.
\<close>

theorem overflowing_boundary_chatters:
  assumes "2147483447 < g_photo_under_led p" and "g_photo_under_led p \<le> 2147483647"
    and "0 \<le> g_photo p" and "g_photo p \<le> 54612"
    and "g_state_led p = STATE_LED_ON \<or> g_state_led p = STATE_LED_OFF"
  shows "led_demand (boundary_update p) \<noteq> [] \<and>
    led_demand (handle_all (led_demand (boundary_update p)) (boundary_update p)) \<noteq> []"
proof -
  have "wrap32 (g_photo_under_led p + 200) = g_photo_under_led p + 200 - 4294967296"
    using wrap32_over [of "g_photo_under_led p + 200"] assms(1,2) by simp
  then show ?thesis
    using light.chatter [of "boundary_update p"] assms
    by (simp add: light.settle_def handle_all_def cmd_defs boundary_update_def BIAS_PHOTO_def)
qed

theorem overflowing_boundary_chatters_witness:
  "led_demand (handle_all (led_demand (boundary_update (demo_core\<lparr>g_photo := 5, g_photo_under_led := 2147483647\<rparr>)))
     (boundary_update (demo_core\<lparr>g_photo := 5, g_photo_under_led := 2147483647\<rparr>))) \<noteq> []"
  using overflowing_boundary_chatters [of "demo_core\<lparr>g_photo := 5, g_photo_under_led := 2147483647\<rparr>"]
    demo_valid(1) by (simp add: states_valid_def cmd_defs)

text \<open>
  C33: in manual mode no sensor thread sends a command or touches a device; they only measure
  and log.
\<close>

theorem manual_mode_is_quiet:
  assumes "g_mode p = MODE_MANUAL"
    and "humitemp_handler cs stale d (cmd, p) = Inr (cmd1, p1)"
    and "photo_handler stale v (cmd, p) = Inr (cmd2, p2)"
    and "magnetic_handler stale get later (cmd, p) = Inr (cmd3, p3)"
    and "moisture_handler stale get (cmd, p) = Inr (cmd4, p4)"
  shows "mq p1 = mq p \<and> dev p1 = dev p \<and> mq p2 = mq p \<and> dev p2 = dev p \<and>
    mq p3 = mq p \<and> dev p3 = dev p \<and> mq p4 = mq p \<and> dev p4 = dev p"
  using assms
  by (auto simp: humitemp_handler_def photo_handler_def magnetic_handler_def moisture_handler_def
      log_value_def rbind_eq_Inr MODE_AUTO_def MODE_MANUAL_def Let_def
      split: prod.splits option.splits if_splits)

theorem manual_mode_is_quiet_witness:
  "\<exists>cmd2 p2. photo_handler True 100 ([], demo_core\<lparr>g_mode := 1\<rparr>) = Inr (cmd2, p2) \<and>
     mq p2 = mq demo_core \<and> dev p2 = dev demo_core"
proof -
  let ?p = "demo_core\<lparr>g_mode := 1\<rparr>"
  have m: "g_mode ?p = MODE_MANUAL" "g_mode ?p \<noteq> MODE_AUTO" by (simp_all add: MODE_MANUAL_def MODE_AUTO_def)
  have db: "db_healthy (db q)" if "db q = db demo_core" for q using that by simp
  have l: "\<exists>d. log_value True t v q = Inr (q\<lparr>db := d\<rparr>)"
    if "db q = db demo_core" "in_i32 v" "1 \<le> t" "t \<le> 5" for t v q
    using log_value_ok [OF db [OF that(1)] that(2-4), of True] by blast
  have h: "humitemp_handler False True (0, []) ([], ?p) = Inr ([], ?p\<lparr>sens := (sens ?p)\<rparr>)"
    using demo_sens by (simp add: humitemp_handler_def humitemp_read_def)
  obtain p2 where p2: "photo_handler True 100 ([], ?p) = Inr ([], p2)"
    using m l [of "?p\<lparr>g_photo := 100\<rparr>" 100 DATABASE_PHOTO]
    by (auto simp: photo_handler_def in_i32_def table_defs)
  obtain p3 where p3: "magnetic_handler True (\<lambda>_. 1) (\<lambda>_. 1) ([], ?p) = Inr ([], p3)"
    using m l [of "?p\<lparr>g_magnet := mag_valid_detectection (\<lambda>_. 1) (\<lambda>_. 1) (sens ?p)\<rparr>"
        "mag_valid_detectection (\<lambda>_. 1) (\<lambda>_. 1) (sens ?p)" DATABASE_MAGNET]
      mag_valid_range [of "\<lambda>_. 1" "\<lambda>_. 1" "sens ?p"]
    by (auto simp: magnetic_handler_def table_defs)
  obtain p4 where p4: "moisture_handler True (\<lambda>_. 1) ([], ?p) = Inr ([], p4)"
    using m l [of "?p\<lparr>g_moisture := moisture_is_full (\<lambda>_. 1) (sens ?p)\<rparr>"
        "moisture_is_full (\<lambda>_. 1) (sens ?p)" DATABASE_MOISTURE] moisture_range [of "\<lambda>_. 1" "sens ?p"]
    by (auto simp: moisture_handler_def table_defs)
  show ?thesis
    using manual_mode_is_quiet [OF m(1) h p2 p3 p4] p2 by auto
qed

text \<open>
  C11: the global variables keep the types the program gives them. In every reachable state the
  sensor values are what the sensors can deliver, the boundaries are 32-bit integers, the mode
  is one of the two, the title playing is a C string, and each of the four texts built from
  them fits the buffer it is printed to.
\<close>

theorem globals_fit_reachable:
  assumes "dev p = world0 openf cfg" and "opens openf" and "globals_zero p" and "mq_rc \<noteq> -1"
    and "leftover_ok left"
    and "main_init stale rc env dir db_ok mq_rc left p = Some (Inr q)"
    and "sys_step\<^sup>*\<^sup>* (sys_start q) s"
  shows "g_humi (core s) \<in> {-128..255} \<and> g_temp (core s) \<in> {-128..255} \<and> g_photo (core s) \<in> {-1..54612} \<and>
    g_magnet (core s) \<in> {0, 1} \<and> g_moisture (core s) \<in> {0, 1} \<and> g_mode (core s) \<in> {0, 1} \<and>
    list_all in_i32 [g_humi_upper_fan (core s), g_humi_under_fan (core s), g_humi_upper_humidifier (core s),
      g_humi_under_humidifier (core s), g_temp_upper_dryer (core s), g_temp_under_dryer (core s),
      g_temp_upper_cooler (core s), g_temp_under_cooler (core s), g_photo_upper_led (core s),
      g_photo_under_led (core s)] \<and>
    no_nul (current_music (core s)) \<and> length (current_music (core s)) < NETWORK_BUFSIZE \<and>
    (\<forall>text. text = state_text (core s) \<or> text = sensor_text (core s) \<or>
       text = lines_of (boundary_values (core s)) \<or> text = lines_of [g_mode (core s)] \<longrightarrow>
       sprintf_buf text = Inr text)"
proof -
  have "g_mode p = 0" using assms(3) by (simp add: globals_zero_def)
  then have "sys_inv s"
    using planter_system.inv_reach [OF assms(7)] sys_inv_start main_init_inv(1) [OF assms(1,2) _ assms(4-6)] by blast
  then have inv: "states_valid (core s)" "g_mode (core s) = 0 \<or> g_mode (core s) = 1"
    by (simp_all add: sys_inv_def core_inv_def)
  have fit: "globals_fit (core s)"
    using fits.inv_reach [OF assms(7)] main_init_fits [OF assms(3,6)] by (simp add: sys_start_def)
  show ?thesis using fit inv(2) texts_fit [OF fit inv] by (auto simp: globals_fit_def)
qed

theorem globals_fit_reachable_witness:
  "g_humi demo_core \<in> {-128..255} \<and> sprintf_buf (state_text demo_core) = Inr (state_text demo_core)"
  using globals_fit_reachable [OF _ demo_opens _ _ _ demo_main_init rtranclp.rtrancl_refl]
  by (simp add: demo_planter_def demo_world_def leftover_ok_def sys_start_def globals_zero_def)



text \<open>
  C35: two calls for one device may not interleave. When a client in manual mode switches the
  lamp off while the main loop carries out a command that switches it on, all calls can end with
  the lamp off and \<open>g_state_led\<close> on; the automatic mode then leaves the lamp off however dark it
  is, because it believes it to be on.
\<close>

theorem handler_race:
  assumes "core_inv p" and "agrees p" and "g_mode p = MODE_MANUAL" and "queued p = MQ_CMD_LED_ON # cs"
    and "recv_str c = Inr (buf, c')" and "atoi buf = MQ_CMD_LED_OFF"
  shows "\<exists>w q. race_step\<^sup>*\<^sup>* (race_start p) w \<and> core (planter_sys w) = q \<and> calls w = [] \<and> admitted w = [] \<and>
    queued q = cs \<and> g_state_led q = STATE_LED_ON \<and> \<not> led_lit (panel_of (dev q)) \<and>
    (\<forall>cmd v. v \<le> g_photo_upper_led p \<longrightarrow> led_auto (cmd, q\<lparr>g_mode := MODE_AUTO, g_photo := v\<rparr>) =
       Inr (cmd, q\<lparr>g_mode := MODE_AUTO, g_photo := v\<rparr>))"
proof -
  obtain m ms where m: "mq p = m # ms" "msg_value m = 1" using assms(4) by (auto simp: queued_def cmd_defs)
  then have s: "c_str m = Some (show_int 1)" "mqd_main p \<noteq> -1"
    using assms(1) by (auto simp: core_inv_def queue_ok_def msg_for_def)
  have one: "atoi (show_int 1) = 1" by code_simp
  let ?q = "p\<lparr>mq := ms, dev := led_off (led_on (dev p)), g_state_led := STATE_LED_ON\<rparr>"
  have r: "mq_receive p = (Some m, p\<lparr>mq := ms\<rparr>)" using m(1) s(2) by (simp add: mq_receive_def)
  have "race_step\<^sup>*\<^sup>* (race_start p) (with_core ?q (race_start p))"
    using lamp_race [of "race_start p" m "p\<lparr>mq := ms\<rparr>" "show_int 1" c buf c'] assms(3,5,6) r s(1) one
    by (simp add: race_start_def sys_start_def cmd_defs)
  moreover have "ready (dev p)" using assms(2) by (simp add: agrees_def)
  then have "\<not> led_lit (panel_of (dev ?q))"
    using relay_disconnect_panel(2) switch_ready(1) by simp
  moreover have "queued ?q = cs" using m assms(4) by (simp add: queued_def)
  ultimately show ?thesis
    by (intro exI [of _ "with_core ?q (race_start p)"] exI [of _ ?q])
      (auto simp: with_core_def race_start_def led_auto_def Let_def cmd_defs)
qed

theorem handler_race_witness:
  "\<exists>w. race_step\<^sup>*\<^sup>* (race_start (demo_core\<lparr>g_mode := 1, mq := [message 1 (replicate 4 nul)]\<rparr>)) w \<and> calls w = [] \<and>
     g_state_led (core (planter_sys w)) = STATE_LED_ON \<and> \<not> led_lit (panel_of (dev (core (planter_sys w))))"
proof -
  let ?p = "demo_core\<lparr>g_mode := 1, mq := [message 1 (replicate 4 nul)]\<rparr>"
  have m: "msg_for 1 (message 1 (replicate 4 nul))" "msg_value (message 1 (replicate 4 nul)) = 1"
    using message_for [of 1 "replicate 4 nul"] by (simp_all add: valid_cmd_def MQ_MSG_SIZE_def)
  have "agrees ?p" using demo_inv(2) by simp
  moreover have "core_inv ?p"
    using demo_inv(1) m by (simp add: core_inv_def queue_ok_def valid_cmd_def MQ_MAX_MSG_def)
  moreover have "recv_str \<lparr>inbox = [Data ''2''], sends_left = 0, sent = []\<rparr> =
      Inr (''2'', \<lparr>inbox = [], sends_left = 0, sent = []\<rparr>)"
    using recv_str_Data [of "\<lparr>inbox = [Data ''2''], sends_left = 0, sent = []\<rparr>" "''2''" "[]"]
    by (simp add: nul_def NETWORK_BUFSIZE_def)
  moreover have "atoi ''2'' = 2" by code_simp
  ultimately show ?thesis
    using handler_race [of ?p "[]" "\<lparr>inbox = [Data ''2''], sends_left = 0, sent = []\<rparr>" "''2''"
        "\<lparr>inbox = [], sends_left = 0, sent = []\<rparr>"] m
    by (auto simp: queued_def cmd_defs MODE_MANUAL_def)
qed

text \<open>
  C13: boundary requests of any number of clients, taken memory access by memory access, interleave
  with each other and with the rest of the program, and the main loop stays safe. Whatever they
  have done to each other before: from the moment at which a request is alone between the
  reception of its text and the end of its \<open>boundary_update\<close> and has not left its \<open>sscanf\<close>, as long
  as no second one enters this part, a derived boundary differs from what its source demands only
  while the request has not ended the statement that derives it; when none is in this part, the
  five derived boundaries follow from the five others. The same holds from the start.
\<close>

theorem boundary_requests_interleave:
  assumes "dev p = world0 openf cfg" and "opens openf" and "g_mode p = 0" and "mq_rc \<noteq> -1"
    and "leftover_ok left"
    and "main_init stale rc env dir db_ok mq_rc left p = Some (Inr q)"
    and "bounds_step\<^sup>*\<^sup>* (bounds_start q) w"
    and "w = bounds_start q \<or> (\<exists>vs k cmd. (Scan vs k, cmd) \<in> set (requests w))"
    and "single (requests w)" and "single_step\<^sup>*\<^sup>* w w'"
  shows "(\<exists>started p'. main_loop accept_rc (core (around w')) = Inr (started, p')) \<and>
    (\<forall>j < 5. tied j (core (around w')) \<or> (\<exists>(pr, cmd) \<in> set (requests w'). owes j pr)) \<and>
    ((\<forall>(pr, cmd) \<in> set (requests w'). \<exists>cs. pr = Send cs) \<longrightarrow>
      g_humi_under_fan (core (around w')) = wrap32 (g_humi_upper_fan (core (around w')) - 5) \<and>
      g_humi_upper_humidifier (core (around w')) = wrap32 (g_humi_under_humidifier (core (around w')) + 5) \<and>
      g_temp_upper_dryer (core (around w')) = wrap32 (g_temp_under_dryer (core (around w')) + 5) \<and>
      g_temp_under_cooler (core (around w')) = wrap32 (g_temp_upper_cooler (core (around w')) - 5) \<and>
      g_photo_upper_led (core (around w')) = wrap32 (g_photo_under_led (core (around w')) + 200))"
proof -
  have "bounds_inv w"
    using bounds.inv_reach [OF assms(7)] bounds_inv_start main_init_inv(1) [OF assms(1-6)] by blast
  moreover have "single_inv w"
    using assms(8) new_request_settles [OF assms(9)] single_inv_start [of q] main_init_tied [OF assms(6)] by blast
  ultimately have inv: "bounds_inv w'" "single_inv w'" using single.inv_reach [OF assms(10)] assms(9) by blast+
  then have core: "core_inv (core (around w'))"
    and ties: "\<And>j. j < 5 \<Longrightarrow> tied j (core (around w')) \<or> (\<exists>(pr, cmd) \<in> set (requests w'). owes j pr)"
    by (simp_all add: bounds_inv_def sys_inv_def single_inv_def)
  have "tied j (core (around w'))" if "\<forall>(pr, cmd) \<in> set (requests w'). \<exists>cs. pr = Send cs" "j < 5" for j
    using ties [OF that(2)] that(1) by fastforce
  note ends = this [unfolded tied_cases boundary_consts]
  have "\<exists>started p'. main_loop accept_rc (core (around w')) = Inr (started, p')"
    using mq_poll_total [OF core] by (auto simp: main_loop_def)
  then show ?thesis using ties ends [of 0] ends [of 1] ends [of 2] ends [of 3] ends [of 4] by simp
qed

theorem boundary_requests_interleave_witness:
  "\<exists>w w'. bounds_step\<^sup>*\<^sup>* (bounds_start demo_core) w \<and> requests w = [(Scan [50] 0, replicate 4 nul)] \<and>
     single_step\<^sup>*\<^sup>* w w' \<and> g_humi_under_humidifier (core (around w')) = 50 \<and>
     (\<forall>(pr, cmd) \<in> set (requests w'). pr = Send []) \<and> g_humi_upper_humidifier (core (around w')) = 55"
proof -
  let ?w = "(bounds_start demo_core)\<lparr>requests := [(Scan [50] 0, replicate 4 nul)]\<rparr>"
  have v: "scan_ints 5 ''50'' = [50]" by code_simp
  have r: "recv_str \<lparr>inbox = [Data ''50''], sends_left = 0, sent = []\<rparr> =
      Inr (''50'', \<lparr>inbox = [], sends_left = 0, sent = []\<rparr>)"
    using recv_str_Data [of "\<lparr>inbox = [Data ''50''], sends_left = 0, sent = []\<rparr>" "''50''" "[]"]
    by (simp add: nul_def NETWORK_BUFSIZE_def)
  have reach: "bounds_step\<^sup>*\<^sup>* (bounds_start demo_core) ?w"
    using bounds_step.accept [OF r, of "replicate 4 nul" "bounds_start demo_core"]
    by (simp add: v bounds_start_def MQ_MSG_SIZE_def)
  let ?p = "scan_assign 0 50 demo_core"
  have "thread_ok (replicate 4 nul, ?p)" using demo_thread_ok by (simp add: thread_ok_def queue_ok_def)
  from run_from_update [OF this, of 0 5] obtain m cmd ms where
    "boundary_run m (Update 0, replicate 4 nul, ?p) = Inr (Send [], cmd, (boundary_update ?p)\<lparr>mq := ms\<rparr>)"
    by (auto simp: update_from_all)
  then have "boundary_run (2 + m) (Scan [50] 0, replicate 4 nul, demo_core) =
      Inr (Send [], cmd, (boundary_update ?p)\<lparr>mq := ms\<rparr>)"
    by (simp add: eval_nat_numeral)
  then obtain w' where w': "single_step\<^sup>*\<^sup>* ?w w'" "requests w' = [(Send [], cmd)]"
      "core (around w') = (boundary_update ?p)\<lparr>mq := ms\<rparr>"
    using alone_run [of ?w "Scan [50] 0" "replicate 4 nul" "2 + m"] by (auto simp: bounds_start_def sys_start_def)
  have d: "dev demo_planter = world0 demo_open (\<lambda>_ _ _. 0)" "g_mode demo_planter = 0" "leftover_ok []"
    by (simp_all add: demo_planter_def demo_world_def leftover_ok_def)
  note facts = boundary_requests_interleave [OF d(1) demo_opens d(2) _ d(3) demo_main_init reach _ _ w'(1)]
  have "g_humi_under_humidifier (core (around w')) = 50"
    by (simp add: w'(3) boundary_update_def scan_assign_def)
  moreover have "g_humi_upper_humidifier (core (around w')) = wrap32 (g_humi_under_humidifier (core (around w')) + 5)"
    using facts [THEN conjunct2, THEN conjunct2] w'(2) by (auto simp: single_def)
  ultimately have "g_humi_upper_humidifier (core (around w')) = 55" by (simp add: in_i32_def)
  then show ?thesis
    using reach w' \<open>g_humi_under_humidifier (core (around w')) = 50\<close> by (intro exI [of _ ?w] exI [of _ w']) simp
qed

text \<open>
  C20: two boundary requests at once can leave the boundaries inconsistent for good: the first has
  computed the lower boundary of the fan from its own upper one when the second sets all five
  boundaries, derives the others and ends, and then stores it. When no request has anything left
  to do the boundaries are those of the second client, but for the lower one of the fan, which is
  that of the first and may lie above the upper one; with a humidity between the two the
  automatic mode switches the fan in every round, whatever its state.
\<close>

theorem boundary_race_chatters:
  assumes "queue_ok p" and "recv_str c1 = Inr (b1, c1')" and "recv_str c2 = Inr (b2, c2')"
    and "scan_ints 5 b1 = [x0, x1, x2, x3, x4]" and "scan_ints 5 b2 = [y0, y1, y2, y3, y4]"
    and "y1 < h" and "h < x1 - 5"
  shows "\<exists>w q. bounds_step\<^sup>*\<^sup>* (bounds_start p) w \<and> core (around w) = q \<and>
    (\<forall>(pr, cmd) \<in> set (requests w). pr = Send []) \<and>
    boundary_values q = [y0, y1, y2, y3, y4] \<and> g_humi_under_fan q = x1 - 5 \<and>
    (\<forall>cmd. fan_auto (cmd, q\<lparr>g_humi := h, g_state_fan := STATE_FAN_OFF\<rparr>) =
       send_cmd MQ_CMD_FAN_ON (cmd, q\<lparr>g_humi := h, g_state_fan := STATE_FAN_OFF\<rparr>)) \<and>
    (\<forall>cmd. fan_auto (cmd, q\<lparr>g_humi := h, g_state_fan := STATE_FAN_ON\<rparr>) =
       send_cmd MQ_CMD_FAN_OFF (cmd, q\<lparr>g_humi := h, g_state_fan := STATE_FAN_ON\<rparr>))"
proof -
  have n: "length (replicate MQ_MSG_SIZE nul) = MQ_MSG_SIZE" by simp
  obtain w ms where w: "bounds_step\<^sup>*\<^sup>* (bounds_start p) w" "\<forall>(pr, cmd) \<in> set (requests w). pr = Send []"
    "core (around w) = (boundary_update (scan_boundaries b2 p))\<lparr>g_humi_under_fan := wrap32 (x1 - BIAS_HUMI), mq := ms\<rparr>"
    using boundary_race [OF assms(1) n assms(2,4,3,5)] by blast
  have "in_i32 x1" "in_i32 y1" using scan_ints_i32 [of _ 5 b1] scan_ints_i32 [of _ 5 b2] assms(4,5) by simp_all
  then have u: "wrap32 (x1 - 5) = x1 - 5" using assms(6,7) by (simp add: in_i32_def)
  have b: "boundary_values (core (around w)) = [y0, y1, y2, y3, y4]"
    using assms(5) by (simp add: w(3) boundary_values_def scan_boundaries_def boundary_update_def eval_nat_numeral)
  have f: "g_humi_upper_fan (core (around w)) = y1" "g_humi_under_fan (core (around w)) = x1 - 5"
    using b u by (simp_all add: w(3) boundary_values_def BIAS_HUMI_def)
  show ?thesis
    using w(1,2) b f assms(6,7) by (intro exI [of _ w]) (auto simp: fan_auto_def Let_def cmd_defs)
qed

theorem boundary_race_chatters_witness:
  "\<exists>w. bounds_step\<^sup>*\<^sup>* (bounds_start demo_core) w \<and> boundary_values (core (around w)) = [30, 40, 20, 35, 500] \<and>
     g_humi_under_fan (core (around w)) = 75"
proof -
  let ?c = "\<lambda>msg. \<lparr>inbox = [Data msg], sends_left = 0, sent = []\<rparr>"
  have r: "recv_str (?c msg) = Inr (msg, (?c msg)\<lparr>inbox := []\<rparr>)" if "no_nul msg" "length msg < 20" for msg
    using recv_str_Data [of "?c msg" msg "[]"] that by (simp add: NETWORK_BUFSIZE_def)
  have a: "recv_str (?c ''30 80 20 35 500'') = Inr (''30 80 20 35 500'', (?c ''30 80 20 35 500'')\<lparr>inbox := []\<rparr>)"
    by (rule r) (simp_all add: nul_def no_nul_def)
  have b: "recv_str (?c ''30 40 20 35 500'') = Inr (''30 40 20 35 500'', (?c ''30 40 20 35 500'')\<lparr>inbox := []\<rparr>)"
    by (rule r) (simp_all add: nul_def no_nul_def)
  have "scan_ints 5 ''30 80 20 35 500'' = [30, 80, 20, 35, 500]" "scan_ints 5 ''30 40 20 35 500'' = [30, 40, 20, 35, 500]"
    by code_simp+
  note race = boundary_race_chatters [OF demo_valid(2) a b this, of 60]
  have h: "(40 :: int) < 60" "(60 :: int) < 80 - 5" by simp_all
  obtain w q where "bounds_step\<^sup>*\<^sup>* (bounds_start demo_core) w" "core (around w) = q"
    "boundary_values q = [30, 40, 20, 35, 500]" "g_humi_under_fan q = 80 - 5"
    using race [OF h] by (elim exE conjE) metis
  then show ?thesis by auto
qed

text \<open>
  C14: state and sensor transfers of any number of clients, which read the global variables one
  by one, interleave with each other and with the rest of the program. In every reachable state
  whatever a client has been sent are whole lines: six states, each one of its device, or five
  sensor values within what the sensors deliver; and the next step of every transfer succeeds.
\<close>

theorem transfers_send_lines:
  assumes "dev p = world0 openf cfg" and "opens openf" and "globals_zero p" and "mq_rc \<noteq> -1"
    and "leftover_ok left"
    and "main_init stale rc env dir db_ok mq_rc left p = Some (Inr q)"
    and "relay_step\<^sup>*\<^sup>* (relay_start q) w" and "(t, c) \<in> set (transfers w)"
  shows "(\<exists>x. transfer_step (core (host w)) (t, c) = Inr x) \<and>
    ((\<forall>text \<in> set (sent c). \<exists>led \<in> {1, 2}. \<exists>fan \<in> {3, 4, 13}. \<exists>valve \<in> {7, 8}. \<exists>drain \<in> {5, 6}.
        \<exists>mist \<in> {9, 10}. \<exists>dryer \<in> {11, 12}. text = lines_of [led, fan, valve, drain, mist, dryer]) \<or>
     (\<forall>text \<in> set (sent c). \<exists>humi \<in> {-128..255}. \<exists>temp \<in> {-128..255}. \<exists>photo \<in> {-1..54612}.
        \<exists>magnet \<in> {0, 1}. \<exists>moisture \<in> {0, 1}. text = lines_of [humi, temp, photo, magnet, moisture]))"
proof -
  have "g_mode p = 0" using assms(3) by (simp add: globals_zero_def)
  then have "relay_inv (relay_start q)"
    using main_init_inv(1) [OF assms(1,2) _ assms(4-6)] main_init_fits [OF assms(3,6)] by (intro relay_inv_start)
  then have inv: "relay_inv w" using relay.inv_reach [OF assms(7)] by blast
  then have ok: "transfer_ok (t, c)" "states_valid (core (host w))" "globals_fit (core (host w))"
    using assms(8) by (auto simp: relay_inv_def sys_inv_def core_inv_def)
  show ?thesis using transfer_step_ok [OF ok] transfer_lines [OF ok(1)] unfolding line_values by blast
qed

theorem transfers_send_lines_witness:
  "\<exists>w c. relay_step\<^sup>*\<^sup>* (relay_start demo_core) w \<and> transfers w = [(StateRead [], c)] \<and> sent c = [state_text demo_core] \<and>
     (\<exists>x. transfer_step (core (host w)) (StateRead [], c) = Inr x)"
proof -
  let ?c = "\<lparr>inbox = [], sends_left = 2, sent = []\<rparr>" and ?d = "\<lparr>inbox = [], sends_left = 1, sent = [state_text demo_core]\<rparr>"
  let ?w = "(relay_start demo_core)\<lparr>transfers := [(StateRead [], ?c)]\<rparr>"
  let ?v = "?w\<lparr>transfers := [(StateRead [], ?d)]\<rparr>"
  have nine: "atoi ''9'' = 9" by code_simp
  have r: "recv_str (?c\<lparr>inbox := [Data ''9'']\<rparr>) = Inr (''9'', ?c)"
    using recv_str_Data [of "?c\<lparr>inbox := [Data ''9'']\<rparr>" "''9''" "[]"] by (simp add: nul_def NETWORK_BUFSIZE_def)
  have "relay_step (relay_start demo_core) ?w"
    using relay_step.accept_state [OF r, of "relay_start demo_core"] nine
    by (simp add: relay_start_def NETWORK_CMD_STATE_SERVER_TO_CLIENT_def)
  moreover have core: "core (host ?w) = demo_core" by (simp add: relay_start_def sys_start_def)
  have "sprintf_buf (state_text demo_core) = Inr (state_text demo_core)"
    using texts_fit(1) [OF main_init_fits [OF _ demo_main_init] demo_valid(1)]
    by (simp add: globals_zero_def demo_planter_def)
  then have "transfer_steps 8 (core (host ?w)) (transfers ?w ! 0) = Inr (StateRead [], ?d)"
    unfolding core using round_is_text(1) [of demo_core ?c] by (simp add: network_send_def state_text_def lines_of_def)
  then have "relay_step\<^sup>*\<^sup>* ?w ?v" using relay_run [of 0 ?w 8] by simp
  ultimately have run: "relay_step\<^sup>*\<^sup>* (relay_start demo_core) ?v" by (simp add: converse_rtranclp_into_rtranclp)
  show ?thesis
    using run transfers_send_lines [OF _ demo_opens _ _ _ demo_main_init run, where t = "StateRead []" and c = ?d]
    by (intro exI [of _ ?v] exI [of _ ?d])
      (auto simp: demo_planter_def demo_world_def leftover_ok_def globals_zero_def)
qed

section \<open>Commands and devices\<close>

text \<open>
  C22: commands leave the message queue in the order in which they were sent, none lost, none
  altered by the way through the four byte text buffers, as long as there is room for them.
\<close>

theorem message_queue_fifo:
  assumes "thread_ok t" and "\<forall>c \<in> set cs. valid_cmd c"
    and "length (queued (snd t)) + length cs \<le> MQ_MAX_MSG"
    and "length (queued (snd t)) + length cs \<le> n"
  shows "\<exists>t'. mainq.sends cs t = Inr t' \<and> mainq.recvs n t' = queued (snd t) @ cs"
  by (rule mainq.fifo [OF assms])

theorem message_queue_fifo_witness:
  "\<exists>t'. mainq.sends [3, 10, 13] (replicate 4 nul, demo_core) = Inr t' \<and> mainq.recvs 5 t' = [3, 10, 13]"
  using message_queue_fifo [OF demo_thread_ok, of "[3, 10, 13]" 5] demo_inv(4) by (simp add: MQ_MAX_MSG_def)

text \<open>
  C2: the message handler implements the abstract panel of actuators: through the library,
  the ioctl commands and the drivers, each of the thirteen commands changes its device and
  nothing else, and an invalid command changes nothing.
\<close>

theorem handler_refines_panel:
  assumes "ready (dev p)" and "presses (hw (dev p)) \<le> 2147483647"
  shows "panel_of (dev (message_queue_handler c p)) = panel_cmd c (panel_of (dev p)) \<and>
    ready (dev (message_queue_handler c p))"
  using handler_panel [OF assms] by simp

theorem handler_refines_panel_witness:
  "panel_of (dev (message_queue_handler MQ_CMD_FAN_ON demo_core)) =
     (panel_of (dev demo_core))\<lparr>fan_powered := True, fan_pwm := Some (24000, PWM_FAN_PERIOD)\<rparr>"
  using handler_refines_panel [OF demo_valid(3), of MQ_CMD_FAN_ON] demo_presses
  by (simp add: panel_cmd_def cmd_defs)

text \<open>
  C15: as many iterations of the main loop as there are messages empty the queue; each device's
  state is then the last command sent to it, or what it was.
\<close>

theorem main_loop_drains_queue:
  assumes "queue_ok p" and "length (mq p) \<le> n"
  shows "\<exists>q. mq_polls n p = Inr q \<and> mq q = [] \<and>
    g_state_led q = last_cmd {MQ_CMD_LED_ON, MQ_CMD_LED_OFF} (queued p) (g_state_led p) \<and>
    g_state_fan q = last_cmd {MQ_CMD_FAN_ON, MQ_CMD_FAN_OFF, MQ_CMD_FAN_VERY_FAST} (queued p) (g_state_fan p) \<and>
    g_state_drain q = last_cmd {MQ_CMD_DRAIN_OPEN, MQ_CMD_DRAIN_CLOSE} (queued p) (g_state_drain p) \<and>
    g_state_solenoid q = last_cmd {MQ_CMD_SOLENOID_OPEN, MQ_CMD_SOLENOID_CLOSE} (queued p) (g_state_solenoid p) \<and>
    g_state_humidifier q = last_cmd {MQ_CMD_HUMIDIFIER_ON, MQ_CMD_HUMIDIFIER_OFF} (queued p) (g_state_humidifier p) \<and>
    g_state_dryer q = last_cmd {MQ_CMD_DRYER_ON, MQ_CMD_DRYER_OFF} (queued p) (g_state_dryer p)"
  using mq_polls_drain [OF assms(1), of n] assms(2) handle_all_states [of "queued p" p]
  by (simp add: queued_def cmd_defs)

theorem main_loop_drains_queue_witness:
  "\<exists>q. mq_polls 1 (demo_core\<lparr>mq := [message MQ_CMD_FAN_ON (replicate 4 nul)]\<rparr>) = Inr q \<and> mq q = [] \<and>
     g_state_fan q = STATE_FAN_ON"
proof -
  let ?m = "message MQ_CMD_FAN_ON (replicate 4 nul)"
  note m = message_for [of MQ_CMD_FAN_ON "replicate 4 nul"]
  have "queue_ok (demo_core\<lparr>mq := [?m]\<rparr>)"
    using demo_valid(2) m by (simp add: queue_ok_def MQ_MAX_MSG_def MQ_MSG_SIZE_def cmd_defs)
  then show ?thesis
    using main_loop_drains_queue [of "demo_core\<lparr>mq := [?m]\<rparr>" 1] m
    by (auto simp: queued_def cmd_defs MQ_MSG_SIZE_def)
qed

section \<open>Client requests\<close>

text \<open>
  C4: the boundaries a server transfers to a client are read back unchanged when the client
  sends the same text to a server, which installs them, with the dependent thresholds in
  order, and queues the commands that switch the regulated devices off.
\<close>

theorem boundary_roundtrip:
  assumes "\<And>x. x \<in> set (boundary_values p) \<Longrightarrow> -2147483643 \<le> x \<and> x \<le> 2147483447"
    and "transfer_boundary_data p c = vok c1" and "sends_left c = Suc k"
    and "inbox c2 = [Data (last (sent c1))]"
    and "length cmd = MQ_MSG_SIZE" and "queue_ok q"
  shows "\<exists>q'. receive_boundary_data cmd q c2 = vok (q', c2\<lparr>inbox := []\<rparr>) \<and>
    boundary_values q' = boundary_values p \<and> boundaries_ok q' \<and>
    queued q' = take MQ_MAX_MSG (queued q @ [MQ_CMD_FAN_OFF, MQ_CMD_DRYER_OFF, MQ_CMD_LED_OFF, MQ_CMD_HUMIDIFIER_OFF])"
proof -
  let ?t = "lines_of (boundary_values p)"
  have i32: "in_i32 x" if "x \<in> set (boundary_values p)" for x
    using assms(1) [OF that] by (simp add: in_i32_def)
  have len: "length (boundary_values p) = 5" by (simp add: boundary_values_def)
  have "length ?t < NETWORK_BUFSIZE"
    using lines_of_length [of "boundary_values p"] i32 len by (simp add: NETWORK_BUFSIZE_def)
  moreover have "last (sent c1) = ?t"
    using assms(2,3) sprintf_lines [of "boundary_values p"] i32 len
    by (auto simp: transfer_boundary_data_def vok_def)
  ultimately have r: "recv_str c2 = Inr (?t, c2\<lparr>inbox := []\<rparr>)"
    using assms(4) no_nul_lines_of by (intro recv_str_Data) simp_all
  obtain ms where 1: "receive_boundary_data cmd q c2 = vok ((new_boundaries ?t q)\<lparr>mq := ms\<rparr>, c2\<lparr>inbox := []\<rparr>)"
    "queued ((new_boundaries ?t q)\<lparr>mq := ms\<rparr>) = take MQ_MAX_MSG (queued q @ [4, 12, 2, 10])"
    using receive_boundary_data_spec [OF r assms(5,6)] by blast
  have v: "boundary_values (scan_boundaries ?t q) = boundary_values p"
    by (rule scan_boundaries_values [OF i32])
  then have "boundaries_moderate (scan_boundaries ?t q)"
    using assms(1) unfolding boundaries_moderate_def boundary_values_def by auto
  then have b: "boundaries_ok (new_boundaries ?t q)"
    unfolding new_boundaries_def by (rule boundary_update_ok)
  have v2: "boundary_values ((new_boundaries ?t q)\<lparr>mq := ms\<rparr>) = boundary_values p"
    using v boundary_update_values [of "scan_boundaries ?t q"] by (simp add: new_boundaries_def boundary_values_def)
  have b2: "boundaries_ok ((new_boundaries ?t q)\<lparr>mq := ms\<rparr>)" using b by (simp add: boundaries_ok_def)
  show ?thesis
    using 1 v2 b2 by (intro exI [of _ "(new_boundaries ?t q)\<lparr>mq := ms\<rparr>"]) (simp add: cmd_defs)
qed

theorem boundary_roundtrip_witness:
  "\<exists>q'. receive_boundary_data (replicate 4 nul) demo_core
     \<lparr>inbox = [Data (lines_of [30, 45, 20, 35, 500])], sends_left = 0, sent = []\<rparr> =
       vok (q', \<lparr>inbox = [], sends_left = 0, sent = []\<rparr>) \<and>
     boundary_values q' = [30, 45, 20, 35, 500]"
proof -
  let ?c = "\<lparr>inbox = [], sends_left = 1, sent = []\<rparr>"
  have v: "boundary_values demo_core = [30, 45, 20, 35, 500]"
    by (simp add: boundary_values_def demo_core_def message_queue_init_def boundary_init_def
      boundary_update_def boundary_consts)
  have i: "sprintf_buf (lines_of [30, 45, 20, 35, 500]) = Inr (lines_of [30, 45, 20, 35, 500])"
    by (rule sprintf_lines) (auto simp: in_i32_def)
  have t: "transfer_boundary_data demo_core ?c =
      vok \<lparr>inbox = [], sends_left = 0, sent = [lines_of [30, 45, 20, 35, 500]]\<rparr>"
    using i by (simp add: transfer_boundary_data_def v network_send_def vok_def)
  have rng: "\<And>x. x \<in> set (boundary_values demo_core) \<Longrightarrow> -2147483643 \<le> x \<and> x \<le> 2147483447"
    by (auto simp: v)
  show ?thesis
    using boundary_roundtrip [OF rng t, of 0
        "\<lparr>inbox = [Data (lines_of [30, 45, 20, 35, 500])], sends_left = 0, sent = []\<rparr>"
        "replicate 4 nul" demo_core] demo_valid(2)
    by (auto simp: v MQ_MSG_SIZE_def)
qed

text \<open>
  C34: command 9, the transfer of the states, goes on into the handling of command 10: when the
  client disconnects its sending side in manual mode, what it still sent is taken as a device
  command and executed.
\<close>

theorem command_9_falls_through:
  assumes "inbox c = Data ''9'' # Data text # rest" and "no_nul text" and "length text < NETWORK_BUFSIZE"
    and "sends_left c = 0" and "snaps env = [p]" and "g_mode p = MODE_MANUAL" and "states_valid p"
  shows "socket_handler env p c = vok (message_queue_handler (atoi text) p, c\<lparr>inbox := rest\<rparr>)"
proof -
  have r: "recv_str c = Inr (''9'', c\<lparr>inbox := Data text # rest\<rparr>)"
    using assms(1) by (intro recv_str_Data) (simp_all add: NETWORK_BUFSIZE_def nul_def)
  have nine: "atoi ''9'' = 9" by code_simp
  have "sprintf_buf (state_text p) = Inr (state_text p)"
    using assms(7) unfolding state_text_def by (intro sprintf_lines) (auto simp: states_valid_i32 [OF assms(7)])
  then have t: "transfer_state_data [p] (c\<lparr>inbox := Data text # rest\<rparr>) = vok (p, c\<lparr>inbox := Data text # rest\<rparr>)"
    using assms(4) by (simp add: network_send_def)
  show ?thesis
    using recv_str_Data [of "c\<lparr>inbox := Data text # rest\<rparr>" "text" rest] assms(2,3,5,6)
    by (simp add: socket_handler_def r nine t net_cmds state_change_def del: transfer_state_data.simps)
qed

theorem command_9_falls_through_witness:
  "socket_handler (demo_requests (demo_core\<lparr>g_mode := 1\<rparr>)) (demo_core\<lparr>g_mode := 1\<rparr>)
     \<lparr>inbox = [Data ''9'', Data ''1''], sends_left = 0, sent = []\<rparr> =
   vok (message_queue_handler (atoi ''1'') (demo_core\<lparr>g_mode := 1\<rparr>), \<lparr>inbox = [], sends_left = 0, sent = []\<rparr>)"
  using command_9_falls_through [of "\<lparr>inbox = [Data ''9'', Data ''1''], sends_left = 0, sent = []\<rparr>" "''1''" "[]"]
    demo_valid(1)
  by (simp add: demo_requests_def NETWORK_BUFSIZE_def nul_def MODE_MANUAL_def)

text \<open>
  C6: an upload is stored as the client sent it, however the network splits it, followed by
  what a longer file of the same name had behind that length (the file is not truncated); the
  title is in the playlist once, and the end of the command is reported.
\<close>

theorem upload_is_stored:
  assumes "inbox c = Data name # parts" and "no_nul name" and "length name < NETWORK_BUFSIZE"
    and "Broken \<notin> set parts" and "Data [] \<notin> set parts" and "openable name"
    and "music_rep (titles p) ts" and "music_ready env name (titles p)"
  shows "\<exists>q c'. receive_file stale env openable p c = vok (q, c') \<and>
    disk q name = Some (pending parts @ drop (length (pending parts)) (case disk p name of None \<Rightarrow> [] | Some s \<Rightarrow> s)) \<and>
    music_rep (titles q) (if name \<in> set ts then ts else ts @ [name]) \<and>
    sent c' = sent c @ (if sends_left c = 0 then [] else [lines_of [NETWORK_CMD_END]])"
proof -
  let ?c = "c\<lparr>inbox := parts\<rparr>"
  let ?old = "case disk p name of None \<Rightarrow> [] | Some s \<Rightarrow> s"
  have r: "recv_str c = Inr (name, ?c)" by (rule recv_str_Data [OF assms(1-3)])
  obtain content c1 where l: "receive_loop True ?c 0 ?old = (content, c1)" by fastforce
  have "whole ?c" using assms(4,5) by (simp add: whole_def)
  then have content: "content = pending parts @ drop (length (pending parts)) ?old"
    using receive_loop_whole [of ?c "[]" ?old] l by simp
  have sent: "sent c1 = sent c" "sends_left c1 = sends_left c"
    using receive_loop_sent [of True ?c 0 ?old] l by simp_all
  obtain m where m: "music_add stale env name (titles p) = Some (Inr m)"
    "music_rep m (if name \<in> set ts then ts else ts @ [name])"
  proof (cases "name \<in> set ts")
    case True
    then show ?thesis using that [OF music_add_old [OF assms(7) True]] assms(7) by simp
  next
    case False
    from music_add_new [OF assms(7) this assms(8)] show ?thesis using that False by metis
  qed
  show ?thesis
    using m content sent assms(6) music_print_rep [OF m(2), of stale]
    by (auto simp: receive_file_def r l vok_def network_send_cmd_end_def network_send_def lines_of_def)
qed

theorem upload_is_stored_witness:
  "\<exists>q c'. receive_file True demo_env (\<lambda>_. True) demo_core
     \<lparr>inbox = [Data ''a.mp3'', Data ''xy'', Data ''z''], sends_left = 1, sent = []\<rparr> = vok (q, c') \<and>
     disk q ''a.mp3'' = Some ''xyz'' \<and> music_rep (titles q) [''a.mp3'']"
proof -
  have d: "disk demo_core ''a.mp3'' = None"
    by (simp add: demo_core_def message_queue_init_def boundary_init_def boundary_update_def states_init_def
      devices_init_def demo_planter_def Let_def)
  have m: "music_rep (titles demo_core) []"
    by (simp add: music_rep_def is_list_init)
  have rd: "music_ready demo_env ''a.mp3'' (titles demo_core)"
    by (simp add: music_ready_def demo_env_def unused_def)
  show ?thesis
    using upload_is_stored [of "\<lparr>inbox = [Data ''a.mp3'', Data ''xy'', Data ''z''], sends_left = 1, sent = []\<rparr>"
        "''a.mp3''" "[Data ''xy'', Data ''z'']" "\<lambda>_. True" demo_core "[]" demo_env True] m rd d
    by (auto simp: NETWORK_BUFSIZE_def nul_def)
qed

text \<open>
  C36: playing a title that the receive buffer holds overflows the 1024 byte command buffer
  exactly when the title has 997 or more characters; a shorter one is played, and played
  again it stops the music.
\<close>

theorem play_music_outcomes:
  assumes "inbox c = Data name # rest" and "no_nul name" and "length name < NETWORK_BUFSIZE"
  shows "play_music p c =
    (if current_music p = name then
       vok (p\<lparr>shell := shell p @ [''killall madplay''], current_music := []\<rparr>, c\<lparr>inbox := rest\<rparr>)
     else if length name < 997 then
       vok (p\<lparr>shell := shell p @ [''killall madplay'', play_command name], current_music := name\<rparr>, c\<lparr>inbox := rest\<rparr>)
     else Some (Inl (Fault BufferOverflow)))"
  using recv_str_Data [OF assms] by (auto simp: play_music_def play_command_def sprintf_buf_def NETWORK_BUFSIZE_def vok_def)

theorem play_music_outcomes_witness:
  "play_music demo_core \<lparr>inbox = [Data (replicate 1000 (CHR ''a''))], sends_left = 0, sent = []\<rparr> =
     Some (Inl (Fault BufferOverflow))"
proof -
  have "current_music demo_core = []"
    by (simp add: demo_core_def message_queue_init_def boundary_init_def boundary_update_def states_init_def
      devices_init_def demo_planter_def Let_def)
  moreover have "replicate 1000 (CHR ''a'') \<noteq> []" by (simp del: replicate.simps)
  ultimately show ?thesis
    using play_music_outcomes [of "\<lparr>inbox = [Data (replicate 1000 (CHR ''a''))], sends_left = 0, sent = []\<rparr>"
        "replicate 1000 (CHR ''a'')" "[]" demo_core]
    by (simp add: NETWORK_BUFSIZE_def no_nul_def nul_def)
qed

section \<open>Requests under the lock\<close>

text \<open>
  C24: in every reachable state of the server, with any number of uploads and playlist transfers
  beside the sensor threads, the main loop and the other requests, at most one request is
  between lock and unlock, the one that holds the lock; it can go on; and the playlist is a
  well-formed list without duplicates.
\<close>

theorem lock_is_exclusive:
  assumes "dev p = world0 openf cfg" and "opens openf" and "g_mode p = 0" and "mq_rc \<noteq> -1"
    and "leftover_ok left" and "allocator_ok env0"
    and "main_init stale rc env0 dir db_ok mq_rc left p = Some (Inr q)"
    and "server_step\<^sup>*\<^sup>* (server_start q) w"
    and "i < length (tasks w)" and "inside (fst (tasks w ! i))" and "allocator_ok env"
  shows "recv_trans_lock w = Some i \<and>
    (\<forall>j < length (tasks w). inside (fst (tasks w ! j)) \<longrightarrow> j = i) \<and>
    (\<exists>ts. music_rep (titles (core (machine w))) ts) \<and>
    serve_step stale env openable i (recv_trans_lock w, core (machine w), tasks w ! i) \<noteq> None"
proof -
  have "core_inv q" by (rule main_init_inv(1) [OF assms(1-5,7)])
  moreover obtain us where "music_rep (titles q) us" using main_init_rep [OF assms(6,7)] by blast
  ultimately have "server_inv w" using server.inv_reach [OF assms(8)] server_inv_start by blast
  then obtain ts where ts: "music_rep (titles (core (machine w))) ts"
    and lock: "\<And>j. recv_trans_lock w = Some j \<longleftrightarrow> j < length (tasks w) \<and> inside (fst (tasks w ! j))"
    by (auto simp: server_inv_def)
  have "serve_step stale env openable i
      (recv_trans_lock w, core (machine w), fst (tasks w ! i), snd (tasks w ! i)) \<noteq> None"
    by (rule inside_not_stuck [OF assms(10) ts assms(11)])
  moreover have l: "recv_trans_lock w = Some i" using lock [of i] assms(9,10) by simp
  moreover have "\<forall>j < length (tasks w). inside (fst (tasks w ! j)) \<longrightarrow> j = i" using lock l by fastforce
  ultimately show ?thesis using ts by simp blast
qed

theorem lock_is_exclusive_witness:
  "\<exists>w. server_step\<^sup>*\<^sup>* (server_start demo_core) w \<and> recv_trans_lock w = Some 0 \<and>
     serve_step True demo_env (\<lambda>_. True) 0 (recv_trans_lock w, core (machine w), tasks w ! 0) \<noteq> None"
proof -
  let ?c = "\<lparr>inbox = [Data ''1''], sends_left = 3, sent = []\<rparr>"
  have r: "recv_str ?c = Inr (''1'', ?c\<lparr>inbox := []\<rparr>)"
    by (rule recv_str_Data) (simp_all add: nul_def NETWORK_BUFSIZE_def)
  have one: "atoi ''1'' = 1" by code_simp
  let ?w1 = "(server_start demo_core)\<lparr>tasks := tasks (server_start demo_core) @ [(Listing, ?c\<lparr>inbox := []\<rparr>)]\<rparr>"
  let ?w2 = "?w1\<lparr>machine := (machine ?w1)\<lparr>core := demo_core\<rparr>, recv_trans_lock := Some 0,
    tasks := (tasks ?w1)[0 := (LsHead, ?c\<lparr>inbox := []\<rparr>)]\<rparr>"
  have "server_step (server_start demo_core) ?w1"
    by (rule server_step.accept [OF r]) (simp_all add: one net_cmds)
  moreover have "server_step ?w1 ?w2"
    by (rule server_step.serve [OF _ _ demo_allocator, where tk = Listing and c = "?c\<lparr>inbox := []\<rparr>" and stale = True])
      (simp_all add: server_start_def vok_def sys_start_def)
  ultimately have reach: "server_step\<^sup>*\<^sup>* (server_start demo_core) ?w2" by auto
  have l: "leftover_ok []" by (simp add: leftover_ok_def)
  have "recv_trans_lock ?w2 = Some 0 \<and>
     serve_step True demo_env (\<lambda>_. True) 0 (recv_trans_lock ?w2, core (machine ?w2), tasks ?w2 ! 0) \<noteq> None"
    using lock_is_exclusive [OF _ demo_opens _ _ l demo_allocator demo_main_init reach, of _ 0 demo_env "\<lambda>_. True"]
      demo_allocator
    by (simp add: demo_planter_def demo_world_def server_start_def)
  with reach show ?thesis by blast
qed

text \<open>
  C25: a playlist transfer sends exactly the titles the list had when it took the lock, in order,
  whatever the other threads do meanwhile; at most one title more, the one playing, stands
  between the two end marks.
\<close>

theorem listing_is_a_snapshot:
  assumes "server_inv w" and "i < length (tasks w)" and "tasks w ! i = (LsHead, c)"
    and "music_rep (titles (core (machine w))) ts"
    and "server_step\<^sup>*\<^sup>* w w'" and "tasks w' ! i = (Returned, c')"
  shows "\<exists>cm. length cm \<le> 1 \<and> c' = send_all (map title_line
    (ts @ [show_int NETWORK_CMD_END] @ cm @ [show_int NETWORK_CMD_END])) c"
  using listing.reached(2) [OF assms(5,1-3), of ts c] assms(4,6) by (simp add: listing_at_def)

theorem listing_is_a_snapshot_witness:
  "\<exists>w' c'. server_step\<^sup>*\<^sup>* (demo_server LsHead \<lparr>inbox = [], sends_left = 3, sent = []\<rparr>) w' \<and>
     tasks w' ! 0 = (Returned, c') \<and>
     (\<exists>cm. length cm \<le> 1 \<and> c' = send_all (map title_line
        ([show_int NETWORK_CMD_END] @ cm @ [show_int NETWORK_CMD_END])) \<lparr>inbox = [], sends_left = 3, sent = []\<rparr>)"
proof -
  let ?c = "\<lparr>inbox = [], sends_left = 3, sent = []\<rparr>"
  let ?w = "demo_server LsHead ?c"
  have w: "i = 0 \<Longrightarrow> i < length (tasks ?w)" "tasks ?w ! 0 = (LsHead, ?c)" "music_rep (titles (core (machine ?w))) []" for i
    using demo_rep by (simp_all add: demo_server_def sys_start_def)
  obtain c' where "serve_run True demo_env (\<lambda>_. True) 0 5
      (recv_trans_lock ?w, core (machine ?w), LsHead, ?c) = Some (Inr (None, demo_core, Returned, c'))"
    by (simp add: numeral_eq_Suc demo_server_def sys_start_def vok_def list_init_def)
  from run_reaches [OF this w(1) [OF refl] w(2) demo_allocator]
  obtain w' where w': "server_step\<^sup>*\<^sup>* ?w w'" "tasks w' ! 0 = (Returned, c')" by blast
  have "server_inv ?w" by (rule demo_server_inv) simp
  from listing_is_a_snapshot [OF this w(1) [OF refl] w(2,3) w'] w' show ?thesis by auto
qed

text \<open>
  C26: an upload stores its own bytes only, however it is interleaved with other uploads, of the
  same file or of others: when its loop ends, the files are those it found, with its file
  overwritten from the front by all the client sent.
\<close>

theorem uploads_do_not_mix:
  assumes "server_inv w" and "i < length (tasks w)" and "tasks w ! i = (UpName, c)"
    and "inbox c = Data name # parts" and "no_nul name" and "length name < NETWORK_BUFSIZE"
    and "Broken \<notin> set parts" and "Data [] \<notin> set parts"
    and "server_step\<^sup>*\<^sup>* w w'" and "tasks w' ! i = (UpAdd f opened, c')"
  shows "f = name \<and> disk (core (machine w')) =
    (if opened then (disk (core (machine w)))(name \<mapsto> pending parts @ drop (length (pending parts))
       (case disk (core (machine w)) name of None \<Rightarrow> [] | Some s \<Rightarrow> s))
     else disk (core (machine w)))"
proof -
  have "recv_str c = Inr (name, c\<lparr>inbox := parts\<rparr>)" "whole (c\<lparr>inbox := parts\<rparr>)"
    using recv_str_Data [OF assms(4-6)] assms(7,8) by (simp_all add: whole_def)
  then show ?thesis
    using upload.reached(2) [OF assms(9,1-3), of name parts "disk (core (machine w))" c] assms(10)
    by (simp add: upload_at_def Let_def)
qed

theorem uploads_do_not_mix_witness:
  "\<exists>w' c'. server_step\<^sup>*\<^sup>*
     (demo_server UpName \<lparr>inbox = [Data ''a.mp3'', Data ''xyz''], sends_left = 1, sent = []\<rparr>) w' \<and>
     tasks w' ! 0 = (UpAdd ''a.mp3'' True, c') \<and> disk (core (machine w')) ''a.mp3'' = Some ''xyz''"
proof -
  let ?c = "\<lparr>inbox = [Data ''a.mp3'', Data ''xyz''], sends_left = 1, sent = []\<rparr>"
  let ?w = "demo_server UpName ?c"
  have w: "0 < length (tasks ?w)" "tasks ?w ! 0 = (UpName, ?c)" by (simp_all add: demo_server_def)
  have "recv_str ?c = Inr (''a.mp3'', ?c\<lparr>inbox := [Data ''xyz'']\<rparr>)"
    by (rule recv_str_Data) (simp_all add: nul_def NETWORK_BUFSIZE_def)
  then obtain p1 c1 where "serve_step True demo_env (\<lambda>_. True) 0 (recv_trans_lock ?w, core (machine ?w), UpName, ?c) =
      Some (Inr (Some 0, p1, UpLoop ''a.mp3'' True 0, c1))" and c1: "c1 = ?c\<lparr>inbox := [Data ''xyz'']\<rparr>"
    by (simp add: demo_server_def vok_def)
  from serve_reaches [OF this(1) w demo_allocator] obtain w1 where w1: "server_step ?w w1"
    "core (machine w1) = p1" "recv_trans_lock w1 = Some 0" "0 < length (tasks w1)"
    "tasks w1 ! 0 = (UpLoop ''a.mp3'' True 0, c1)" by blast
  obtain p2 c2 where "serve_step True demo_env (\<lambda>_. True) 0
      (recv_trans_lock w1, core (machine w1), UpLoop ''a.mp3'' True 0, c1) =
      Some (Inr (Some 0, p2, UpLoop ''a.mp3'' True 3, c2))" and c2: "inbox c2 = []"
    by (simp add: c1 w1 vok_def NETWORK_BUFSIZE_def)
  from serve_reaches [OF this(1) w1(4,5) demo_allocator] obtain w2 where w2: "server_step w1 w2"
    "core (machine w2) = p2" "recv_trans_lock w2 = Some 0" "0 < length (tasks w2)"
    "tasks w2 ! 0 = (UpLoop ''a.mp3'' True 3, c2)" by blast
  have "serve_step True demo_env (\<lambda>_. True) 0
      (recv_trans_lock w2, core (machine w2), UpLoop ''a.mp3'' True 3, c2) =
      Some (Inr (Some 0, p2, UpAdd ''a.mp3'' True, c2))"
    using c2 by (simp add: w2 vok_def)
  from serve_reaches [OF this w2(4,5) demo_allocator] obtain w3 where w3: "server_step w2 w3"
    "tasks w3 ! 0 = (UpAdd ''a.mp3'' True, c2)" by blast
  have reach: "server_step\<^sup>*\<^sup>* ?w w3" 
    by (rule rtranclp.rtrancl_into_rtrancl [OF rtranclp.rtrancl_into_rtrancl [OF r_into_rtranclp [of server_step, OF w1(1)] w2(1)] w3(1)])
  have d: "disk demo_core ''a.mp3'' = None"
    by (simp add: demo_core_def message_queue_init_def boundary_init_def boundary_update_def states_init_def
      devices_init_def demo_planter_def Let_def)
  have "server_inv ?w" by (rule demo_server_inv) simp
  from uploads_do_not_mix [OF this w(1,2) _ _ _ _ _ reach w3(2), of "''a.mp3''" "[Data ''xyz'']"] d
  have "disk (core (machine w3)) ''a.mp3'' = Some ''xyz''"
    by (simp add: nul_def NETWORK_BUFSIZE_def demo_server_def sys_start_def)
  then show ?thesis using reach w3(2) by blast
qed

text \<open>
  C27: a request thread that is not interrupted does what the request function does: with steps
  enough, one for each byte and portion still to come and six more, or two for each title and
  six more, it returns with the same state, connection and faults as \<open>receive_file\<close> and
  \<open>transfer_list\<close>, and the lock is free.
\<close>

theorem locked_requests_run_as_a_whole:
  "(inbox_size (inbox c) + 6 \<le> n \<longrightarrow> serve_run stale env openable i n (None, p, Upload, c) =
      vbind (receive_file stale env openable p c) (\<lambda>(p, c). vok (None, p, Returned, c))) \<and>
   (music_rep (titles p) ts \<and> 2 * length ts + 6 \<le> n \<longrightarrow>
      serve_run stale env openable i n (None, p, Listing, c) =
      vbind (transfer_list stale p c) (\<lambda>c. vok (None, p, Returned, c)))"
  using run_upload [of c n] run_listing [of p ts n] by blast

theorem locked_requests_run_as_a_whole_witness:
  "serve_run True demo_env (\<lambda>_. True) 0 6 (None, demo_core, Listing, \<lparr>inbox = [], sends_left = 0, sent = []\<rparr>) =
     vok (None, demo_core, Returned, \<lparr>inbox = [], sends_left = 0, sent = []\<rparr>)"
proof -
  let ?c = "\<lparr>inbox = [], sends_left = 0, sent = []\<rparr>"
  have "transfer_list True demo_core ?c = vok ?c"
    using transfer_list_eq [OF demo_rep, of True ?c] by (simp add: NETWORK_BUFSIZE_def network_send_def)
  moreover have "music_rep (titles demo_core) [] \<and> 2 * length ([] :: string list) + 6 \<le> 6"
    using demo_rep by simp
  from locked_requests_run_as_a_whole [THEN conjunct2, rule_format, OF this, of True demo_env "\<lambda>_. True" 0 ?c]
  have "serve_run True demo_env (\<lambda>_. True) 0 6 (None, demo_core, Listing, ?c) =
      vbind (transfer_list True demo_core ?c) (\<lambda>c. vok (None, demo_core, Returned, c))" .
  ultimately show ?thesis by simp
qed

section \<open>Sensors\<close>

text \<open>
  C7: from the pulses on the wire to the measured pair: when the DHT11 answers with five bytes
  whose checksum is right, the driver delivers them and \<open>humitemp_read\<close> returns the first as
  humidity and the third as temperature.
\<close>

theorem dht11_to_humitemp:
  assumes "reply wire t up low high fs" and "map (map fst) fs = map byte_bits ws" and "length ws = 5"
    and "DHT11_checksum ws = uint (ws ! 4)"
    and "s_files s (fd_humitemp s) = Some HUMITEMP_DEV_PATH"
    and "uint (ws ! 0) < 128" and "uint (ws ! 2) < 128"
  shows "\<exists>calls. DHT11_read wire 5 False t = Some (Inr (5, ws, calls)) \<and>
    fst (humitemp_read char_signed (5, ws) s) = Some (uint (ws ! 0), uint (ws ! 2))"
proof -
  have c: "char_value char_signed b = uint b" if "uint b < 128" for b
  proof -
    have "- (2 ^ 7) \<le> uint b" by (rule order_trans [OF _ uint_ge_0]) simp
    then have "signed_take_bit 7 (uint b) = uint b" by (rule signed_take_bit_int_eq_self) (simp add: that)
    then show ?thesis by (simp add: char_value_def sint_uint)
  qed
  have ge: "uint b \<noteq> -1" for b :: u8 using uint_ge_0 [of b] by linarith
  have n: "(ws @ zs) ! 0 = ws ! 0" "(ws @ zs) ! 2 = ws ! 2" for zs using assms(3) by (simp_all add: nth_append)
  have "fst (humitemp_read char_signed (5, ws) s) = Some (uint (ws ! 0), uint (ws ! 2))"
    using assms(5) c [OF assms(6)] c [OF assms(7)] ge by (simp add: humitemp_read_def Let_def n)
  then show ?thesis
    using DHT11_read_reply [OF assms(1-3), of 5 False] assms(3,4) by simp
qed

theorem dht11_to_humitemp_witness:
  "\<exists>calls. DHT11_read (nominal_wire [60, 0, 25, 0, 85]) 5 False 0 = Some (Inr (5, [60, 0, 25, 0, 85], calls)) \<and>
    fst (humitemp_read True (5, [60, 0, 25, 0, 85]) (sens demo_core)) = Some (60, 25)"
  using dht11_to_humitemp [OF nominal_wire_reply nominal_frames_bits _ _ demo_sens(1), of "[60, 0, 25, 0, 85]" True]
  by (simp add: DHT11_checksum_def)

text \<open>
  C32: a sensor that keeps the line low after the start signal hangs the driver: the response
  loop notes the timeout but does not leave, \<open>DHT11_read\<close> never returns.
\<close>

theorem dht11_stuck_line_hangs:
  assumes "wait_while wire True 15 (t + 19000) = (False, t1)" and "\<And>k. \<not> wire (t1 + 2 * k)"
  shows "DHT11_read wire n copy_fails t = None"
  using wait_response_stuck [of wire t1 False 45 False] assms by (simp add: DHT11_read_def)

theorem dht11_stuck_line_hangs_witness:
  "DHT11_read (\<lambda>_. False) 5 False 0 = None"
  using dht11_stuck_line_hangs [of "\<lambda>_. False" 0 19000 5 False]
    wait_while.simps(2) [of "\<lambda>_. False" True 14 19000] by simp

section \<open>Playlist\<close>

text \<open>
  C9: inserting after an element of a well-formed list puts the new data there and nowhere
  else, and removing the element after it again gives the data back and restores the list.
\<close>

theorem list_insert_remove:
  assumes "is_list l h (xs @ (b, c) # ys)" and "unused h a"
  shows "\<exists>l1 h1 l2 h2. list_ins_next stale (Some a) l (Some b) d h = Inr (0, l1, h1) \<and>
    is_list l1 h1 (xs @ (b, c) # (a, d) # ys) \<and>
    list_rem_next stale l1 (Some b) h1 = Inr (0, Some d, l2, h2) \<and> is_list l2 h2 (xs @ (b, c) # ys)"
proof -
  obtain l1 h1 where 1: "list_ins_next stale (Some a) l (Some b) d h = Inr (0, l1, h1)"
    "is_list l1 h1 (xs @ (b, c) # (a, d) # ys)"
    using list_ins_next_after [OF assms] by blast
  then show ?thesis using list_rem_next_after [OF 1(2), of stale] by blast
qed

theorem list_insert_remove_witness:
  "\<exists>l1 h1 l2 h2. list_ins_next False (Some 1) \<lparr>list_size = 1, list_has_destroy = True, list_head = Some 0, list_tail = Some 0\<rparr>
      (Some 0) ''b'' [0 \<mapsto> Live \<lparr>list_data = ''a'', list_next = None\<rparr>] = Inr (0, l1, h1) \<and>
    list_rem_next False l1 (Some 0) h1 = Inr (0, Some ''b'', l2, h2) \<and> is_list l2 h2 [(0, ''a'')]"
proof -
  have "is_list \<lparr>list_size = 1, list_has_destroy = True, list_head = Some 0, list_tail = Some 0\<rparr>
      [0 \<mapsto> Live \<lparr>list_data = ''a'', list_next = None\<rparr>] ([] @ (0, ''a'') # [])"
    by (simp add: is_list_def)
  from list_insert_remove [OF this, of 1 False "''b''"] show ?thesis
    by (simp add: unused_def) blast
qed

text \<open>
  C18: no removal of a title stays within the language: too long a name overflows the path, an
  absent title frees an uninitialised pointer, a listed one reads the element just released.
\<close>

theorem music_remove_always_faults:
  assumes "music_rep m ts"
  shows "music_remove False name m = Some (Inl
    (if 252 \<le> length name then BufferOverflow else if name \<notin> set ts then UninitFree else UseAfterFree))"
  using music_remove_spec [OF assms, of name False]
  by (auto simp: path_fits_def split: if_splits)

theorem music_remove_always_faults_witness:
  "music_remove False ''a'' (list_init True, (\<lambda>_. None)) = Some (Inl UninitFree)"
  using music_remove_always_faults [of "(list_init True, (\<lambda>_. None))" "[]" "''a''"]
  by (simp add: music_rep_def is_list_init)

text \<open>
  C21: the shutdown hands every title of the playlist to \<open>free\<close>, once and in order, releases
  every element it touches, and leaves an empty list.
\<close>

theorem playlist_is_released:
  assumes "music_rep m ts" and "list_has_destroy (fst m)"
  shows "\<exists>h. music_deinit stale m = Inr (ts, list_init False, h) \<and>
    (\<forall>a. snd m a \<noteq> h a \<longrightarrow> unused h a) \<and> music_rep (list_init False, h) []"
  by (rule music_deinit_spec [OF assms])

theorem playlist_is_released_witness:
  "\<exists>h. music_deinit False (\<lparr>list_size = 1, list_has_destroy = True, list_head = Some 0, list_tail = Some 0\<rparr>,
      [0 \<mapsto> Live \<lparr>list_data = ''a'', list_next = None\<rparr>]) = Inr ([''a''], list_init False, h)"
proof -
  let ?m = "(\<lparr>list_size = 1, list_has_destroy = True, list_head = Some 0, list_tail = Some 0\<rparr>,
      [0 :: nat \<mapsto> Live \<lparr>list_data = ''a'', list_next = None\<rparr>])"
  have "is_list (fst ?m) (snd ?m) [(0, ''a'')]" by (simp add: is_list_def)
  then have "music_rep ?m [''a'']"
    unfolding music_rep_def by (intro conjI exI [of _ "[(0, ''a'')]"]) simp_all
  from playlist_is_released [OF this, of False] show ?thesis by auto
qed

section \<open>Database\<close>

text \<open>
  C31: on a working database an insertion executes exactly one statement, which fits its buffer,
  and different values give different statements, so that the log determines what was
  measured.
\<close>

theorem database_insert_logs:
  assumes "db_healthy d" and "in_i32 x" and "in_i32 y" and "1 \<le> table" and "table \<le> 5"
  shows "\<exists>d1 d2. database_insert stale table x d = Inr d1 \<and> database_insert stale table y d = Inr d2 \<and>
    length (db_stmts d1) = Suc (length (db_stmts d)) \<and>
    length (last (db_stmts d1)) < DATABASE_SQL_SIZE \<and> (db_stmts d1 = db_stmts d2 \<longleftrightarrow> x = y)"
proof -
  have "length (log_entry table x) < DATABASE_SQL_SIZE"
    using insert_text_Some [OF assms(4,5), of x] insert_text_ok(2) [OF _ assms(2)] by (auto simp: log_entry_def)
  then show ?thesis
    using database_insert_healthy [OF assms(1) assms(2) assms(4,5), of stale]
      database_insert_healthy [OF assms(1) assms(3) assms(4,5), of stale] log_entry_inj [OF assms(2-5)]
    by auto
qed

theorem database_insert_logs_witness:
  "\<exists>d1 d2. database_insert True DATABASE_HUMI 60 (db demo_core) = Inr d1 \<and>
     database_insert True DATABASE_HUMI 61 (db demo_core) = Inr d2 \<and> db_stmts d1 \<noteq> db_stmts d2"
  using database_insert_logs [OF demo_fields(2), of 60 61 DATABASE_HUMI True]
  by (auto simp: in_i32_def DATABASE_HUMI_def)

section \<open>Camera and display\<close>

text \<open>
  C10: a frame of an even number of pixels is converted pixel by pixel, each pixel with its own
  luminance and the chrominance of its pair, within both buffers; bytes behind the image are
  left alone.
\<close>

theorem frame_conversion:
  assumes "even (width * height)" and "2 * (width * height) \<le> length frame"
    and "3 * (width * height) \<le> length dst"
  shows "\<exists>img. parse_im frame dst width height = Inr img \<and> length img = length dst \<and>
    drop (3 * (width * height)) img = drop (3 * (width * height)) dst \<and>
    (\<forall>k < width * height. take 3 (drop (3 * k) img) =
       yuv2rgb (uint (frame ! (2 * k))) (uint (frame ! (4 * (k div 2) + 1))) (uint (frame ! (4 * (k div 2) + 3))))"
  by (rule parse_im_pixels [OF assms])

theorem frame_conversion_witness:
  "\<exists>img. parse_im [16, 128, 235, 128] (replicate 7 9) 2 1 = Inr img \<and> length img = 7 \<and>
     take 3 (drop 3 img) = yuv2rgb 235 128 128"
proof -
  have "\<exists>img. parse_im [16, 128, 235, 128] (replicate 7 9) 2 1 = Inr img \<and> length img = 7 \<and>
    (\<forall>k < (2 :: nat). take 3 (drop (3 * k) img) = yuv2rgb (uint ([16, 128, 235, 128 :: byte] ! (2 * k)))
      (uint ([16, 128, 235, 128 :: byte] ! (4 * (k div 2) + 1))) (uint ([16, 128, 235, 128 :: byte] ! (4 * (k div 2) + 3))))"
    using frame_conversion [of 2 1 "[16, 128, 235, 128]" "replicate 7 9"] by auto
  then obtain img where i: "parse_im [16, 128, 235, 128] (replicate 7 9) 2 1 = Inr img" "length img = 7"
    "\<And>k. k < 2 \<Longrightarrow> take 3 (drop (3 * k) img) = yuv2rgb (uint ([16, 128, 235, 128 :: byte] ! (2 * k)))
      (uint ([16, 128, 235, 128 :: byte] ! (4 * (k div 2) + 1))) (uint ([16, 128, 235, 128 :: byte] ! (4 * (k div 2) + 3)))"
    by blast
  show ?thesis using i(1,2) i(3) [of 1] by (intro exI [of _ img]) simp
qed

text \<open>
  C29: on a display of 16 bits per pixel an image that fits the screen is drawn inside the
  mapped memory, thanks to the doubling of \<open>screensize\<close>: the offset counts bytes and indexes
  16-bit units.
\<close>

theorem drawing_stays_in_framebuffer:
  assumes "fb_plain v" and "width + xoffset v \<le> xres v" and "height + yoffset v \<le> yres v"
    and "3 * (width * height) \<le> length src" and "length fbp = fb_screensize v div 2"
  shows "\<exists>fbp'. draw_framebuffer v src width height fbp = Inr fbp' \<and> length fbp' = length fbp"
  unfolding draw_framebuffer_def
proof (rule draw_pixels_ok, rule ballI)
  fix i assume "i \<in> set [0..<width * height]"
  then have i: "i < width * height" by simp
  then have w: "0 < width" by (cases width) auto
  have "i div width < height" using i w by (simp add: less_mult_imp_div_less mult.commute)
  moreover have "i mod width < width" using w by simp
  ultimately have "fb_location v (i mod width) (i div width) < 2 * (xres v * yres v)"
    using fb_location_bound(2) [OF assms(1), of "i mod width" "i div width"] assms(2,3) by linarith
  then show "3 * i + 3 \<le> length src \<and> fb_location v (i mod width) (i div width) < length fbp"
    using i assms(4,5) fb_screensize_plain [OF assms(1)] by simp
qed

theorem drawing_stays_in_framebuffer_witness:
  "\<exists>fbp'. draw_framebuffer \<lparr>fb_open_rc = 3, fscreeninfo_rc = 0, vscreeninfo_rc = 0, fb_mmap_ok = True,
      line_length = 8, xres = 4, yres = 2, xoffset = 0, yoffset = 0, bits_per_pixel = 16\<rparr>
      (replicate 12 7) 2 2 (replicate 16 0) = Inr fbp' \<and> length fbp' = 16"
  using drawing_stays_in_framebuffer [of "\<lparr>fb_open_rc = 3, fscreeninfo_rc = 0, vscreeninfo_rc = 0, fb_mmap_ok = True,
      line_length = 8, xres = 4, yres = 2, xoffset = 0, yoffset = 0, bits_per_pixel = 16\<rparr>" 2 2 "replicate 12 7" "replicate 16 0"]
  by (simp add: fb_plain_def fb_screensize_def)

text \<open>
  C28: a client that stays for \<open>k\<close> pictures from a working camera gets exactly \<open>k\<close> messages of
  the size of a picture: after each event, key, frame or timeout, the last frame converted so
  far, which before the first frame is the uninitialised image. The request then returns, and
  with it the buffers, the camera and the display.
\<close>

theorem camera_session:
  assumes "camera_ok (cam_env env)" and "display_ok (disp_env env)" and "length (image0 env) = 76032"
    and "\<forall>ev \<in> set (cam_events env). frame_ok (cam_env env) ev" and "sends_left c < length (cam_events env)"
  shows "\<exists>cam c' pics. transfer_camera_data env c = vok (cam, display0, c') \<and>
    cam_fd cam = -1 \<and> buffers cam = [] \<and> incoming cam = [] \<and> \<not> streaming cam \<and>
    sent c' = sent c @ pics \<and> (\<forall>p \<in> set pics. length p = 76032) \<and>
    pics = map (\<lambda>k. bytes_str (foldl (picture (cam_env env)) (image0 env) (take (Suc k) (cam_events env))))
      [0..<sends_left c] \<and>
    inbox c' = inbox c \<and> sends_left c' = 0"
proof -
  obtain fmt where i: "init_video_capture (cam_env env) 176 144 camera0 =
      vok \<lparr>cam_fd = open_rc (cam_env env), buffers = map (buf_length (cam_env env)) [0..<req_count (cam_env env)],
        incoming = [0..<req_count (cam_env env)], streaming = True, cam_format = fmt\<rparr>" (is "_ = vok ?cam")
    using init_video_capture_ok [OF assms(1)] by blast
  let ?pics = "map (\<lambda>k. bytes_str (foldl (picture (cam_env env)) (image0 env) (take (Suc k) (cam_events env))))
      [0..<sends_left c]"
  have "streams (req_count (cam_env env)) ?cam" by (simp add: streams_def)
  then obtain cam' c' where l: "camera_loop (cam_events env) (image0 env) ?cam c = vok (cam', c')"
    "sent c' = sent c @ ?pics" "inbox c' = inbox c" "sends_left c' = 0"
    using camera_loop_session [OF assms(4,5), of ?cam "image0 env" "req_count (cam_env env)"] assms(3)
    by auto
  have "\<forall>p \<in> set ?pics. length p = 76032"
    using length_pictures [of "take (Suc k) (cam_events env)" "cam_env env" "image0 env" for k] assms(3,4)
    by (auto simp: bytes_str_def dest: in_set_takeD)
  then show ?thesis
    using assms(2) i l free_video_capture_ok [OF assms(1)]
    by (simp add: transfer_camera_data_def init_framebuffer_def display_ok_def free_framebuffer_def display0_def)
qed

theorem camera_session_witness:
  "\<exists>cam c' pic. transfer_camera_data (demo_requests demo_core) \<lparr>inbox = [], sends_left = 1, sent = []\<rparr> =
     vok (cam, display0, c') \<and> sent c' = [pic] \<and> length pic = 76032"
  using camera_session [of "demo_requests demo_core" "\<lparr>inbox = [], sends_left = 1, sent = []\<rparr>"] demo_camera_ok
  by (auto simp: demo_requests_def frame_ok_def demo_camera_def)

section \<open>Drivers\<close>

text \<open>
  C40: a module that could be loaded has its misc device, driver and platform device registered,
  and unloading it removes what is registered. No module looks at the result of \<open>misc_register\<close>:
  when only that fails, every module reports success without a device file, and unloading it
  deregisters a misc device that was never registered. When another registration fails, the misc
  device stays registered in every module, and the three of the servo and the level sensors
  report success nevertheless.
\<close>

theorem module_registrations:
  assumes "m \<in> set modules"
  shows "registered (misc_name (mod_misc m)) (snd (mod_init m 0 0 0)) = (True, True, True) \<and>
    registered (misc_name (mod_misc m)) (snd (mod_init m rmisc rdrv rdev) @ mod_exit m) = (False, False, False) \<and>
    fst (mod_init m rmisc 0 0) = 0 \<and>
    (rmisc \<noteq> 0 \<longrightarrow> registered (misc_name (mod_misc m)) (snd (mod_init m rmisc 0 0)) = (False, True, True) \<and>
       MiscDeregister (misc_name (mod_misc m)) \<in> set (mod_exit m)) \<and>
    (rdrv \<noteq> 0 \<or> rdev \<noteq> 0 \<longrightarrow>
       registered (misc_name (mod_misc m)) (snd (mod_init m 0 rdrv rdev)) = (True, False, False) \<and>
       (fst (mod_init m rmisc rdrv rdev) = 0 \<longleftrightarrow>
          misc_name (mod_misc m) \<in> {MG995_DEVICE_NAME, SOIL_DEVICE_NAME, MAGNETIC_DEVICE_NAME}))"
proof -
  have "fst (mod_init m rmisc rdrv rdev) = 0 \<longleftrightarrow>
      misc_name (mod_misc m) \<in> {MG995_DEVICE_NAME, SOIL_DEVICE_NAME, MAGNETIC_DEVICE_NAME}"
    if "rdrv \<noteq> 0 \<or> rdev \<noteq> 0"
    using bspec [OF modules_init_rc assms, of rmisc rdrv rdev] that by (simp split: if_splits)
  moreover have "fst (mod_init m rmisc 0 0) = 0" using bspec [OF modules_init_rc assms, of rmisc 0 0] by simp
  moreover have "MiscDeregister (misc_name (mod_misc m)) \<in> set (mod_exit m)"
    using bspec [OF modules_exit assms] by (simp add: platform_exit_def)
  ultimately show ?thesis using modules_loaded [OF assms] by auto
qed

theorem module_registrations_witness:
  "registered DHT11_DEVICE_NAME (snd (DHT11_init 0 0 (- 12))) = (True, False, False) \<and>
   fst (DHT11_init 0 0 (- 12)) \<noteq> 0 \<and> fst (DHT11_init (- 16) 0 0) = 0 \<and>
   registered DHT11_DEVICE_NAME (snd (DHT11_init (- 16) 0 0)) = (False, True, True)"
proof -
  let ?m = "\<lparr>mod_misc = dht11_misc, mod_driver = DHT11_device_driver, mod_pdev = dht11_pdev,
       mod_init = DHT11_init, mod_exit = DHT11_exit\<rparr>"
  have "?m \<in> set modules" by (simp add: modules_def)
  from module_registrations [OF this, of 0 0 "- 12"] module_registrations [OF this, of "- 16" 0 0] show ?thesis
    by (simp add: misc_defs device_names)
qed

text \<open>
  C38: the PWM drivers keep their device in a static variable that every \<open>open\<close> overwrites, and only
  look for NULL. \<open>pwm_request\<close> hands a channel out once and refuses with an error pointer: in
  every reachable state of the fan and the servo drivers, a second \<open>open\<close> of a device that is in use
  succeeds and takes the device away from the process that has it. From then on, whatever
  happens, every command and every \<open>close\<close> hands the error pointer to the kernel, and every further
  \<open>open\<close> succeeds as well. For a servo this supposes that the driver of the other one, which has the
  same channel, has no open file at that moment.
\<close>

theorem second_open_breaks_pwm:
  assumes "pwm_step\<^sup>*\<^sup>* pwm_start s" and "0 < open_files s m"
    and "pwm_dev s m = PwmDevice (module_channel m)" and "module_channel m \<in> granted s"
    and "\<forall>n. n \<noteq> m \<longrightarrow> module_channel n = module_channel m \<longrightarrow> open_files s n = 0"
    and "honest m got s" and "pwm_open m got s = (rc, s1)" and "pwm_step\<^sup>*\<^sup>* s1 s2"
    and "reaches cmd arg" and "honest m got' s2"
  shows "rc = 0 \<and> open_files s1 m = Suc (open_files s m) \<and> pwm_ioctl m cfg cmd arg s2 = Inl WildPointer \<and>
    pwm_close m s2 = Inl WildPointer \<and> fst (pwm_open m got' s2) = 0"
proof -
  have "own_channel s"
    by (rule own_channel.inv_reach [OF assms(1)]) (simp add: own_channel_def pwm_start_def)
  note b = second_open_succeeds [OF this assms(4,6,5)]
  have "lost m s2" using lost_system.inv_reach [OF assms(8)] b(2) assms(7) by simp
  moreover have "got \<noteq> PwmNull" using assms(6) by (auto simp: honest_def)
  then have "open_files s1 m = Suc (open_files s m)" using assms(7) by (auto simp: pwm_open_cases)
  ultimately show ?thesis using b(1) assms(7,9,10) lost_is_dead [of m s2] by simp
qed

theorem second_open_breaks_pwm_witness:
  "\<exists>s. pwm_step\<^sup>*\<^sup>* pwm_start s \<and> open_files s FanModule = 1 \<and> fst (pwm_open FanModule (PwmError 16) s) = 0 \<and>
     pwm_ioctl FanModule (\<lambda>_ _ _. 0) PWM_FAN_ENABLE None (snd (pwm_open FanModule (PwmError 16) s)) = Inl WildPointer"
proof -
  let ?s = "snd (pwm_open FanModule (PwmDevice 3) pwm_start)"
  have "pwm_step pwm_start ?s"
    by (rule pwm_step.opens [of FanModule "PwmDevice 3" _ 0])
      (simp_all add: honest_def module_channel_def pwm_start_def pwm_open_cases)
  then have r: "pwm_step\<^sup>*\<^sup>* pwm_start ?s" by blast
  have u: "open_files ?s FanModule = 1" "pwm_dev ?s FanModule = PwmDevice (module_channel FanModule)"
    "module_channel FanModule \<in> granted ?s"
    "\<forall>n. n \<noteq> FanModule \<longrightarrow> module_channel n = module_channel FanModule \<longrightarrow> open_files ?s n = 0"
    by (simp_all add: pwm_open_cases pwm_start_def module_channel_def)
  have u1: "0 < open_files ?s FanModule" using u(1) by simp
  have h: "honest m (PwmError 16) t" for m t by (simp add: honest_def)
  have "reaches PWM_FAN_ENABLE None" by (simp add: reaches_def PWM_FAN_ENABLE_def PWM_FAN_IOCTL_MAGIC_def)
  from second_open_breaks_pwm [OF r u1 u(2-4) h surjective_pairing rtranclp.rtrancl_refl this h]
  show ?thesis using r u(1) by blast
qed

section \<open>Further facts of the components\<close>

text \<open>
  as long as nobody opens a PWM device whose channel is in use and the kernel grants the free ones,
  every command and the \<open>close\<close> of a process that has a device succeed.
\<close>

lemma single_open_keeps_pwm:
  assumes "polite_step\<^sup>*\<^sup>* pwm_start s" and "0 < open_files s m"
  shows "(\<exists>r. pwm_ioctl m cfg cmd arg s = Inr r) \<and> (\<exists>s'. pwm_close m s = Inr s')"
proof -
  have "polite_inv s"
    by (rule polite_system.inv_reach [OF assms(1)]) (simp add: polite_inv_def pwm_start_def)
  then have "device_behind (pwm_dev s m) = Inr (module_channel m)"
    using assms(2) by (simp add: polite_inv_def device_behind_def)
  then show ?thesis using pwm_ioctl_cases(2) by (simp add: pwm_close_cases)
qed

text \<open>
  a sensor that keeps the line low stops the round of its thread for good: the driver does not
  return.
\<close>

lemma stuck_sensor_stops_round:
  assumes "s_files (sens p) (fd_humitemp (sens p)) = Some HUMITEMP_DEV_PATH"
    and "wait_while wire True 15 (now + 19000) = (False, t1)" and "\<And>k. \<not> wire (t1 + 2 * k)"
  shows "humitemp_round char_signed stale wire now copy_fails (cmd, p) = None"
  using wait_response_stuck [of wire t1 False 45 False] assms by (simp add: humitemp_round_def DHT11_read_def)

text \<open>
  the shutdown on SIGINT leaves every actuator off, the relays open and both PWM channels
  released, the humidifier switched off by as many presses as it takes.
\<close>

lemma shutdown_switches_everything_off:
  assumes "ready (dev p)" and "presses (hw (dev p)) \<le> 2147483647"
  shows "panel_of (dev (devices_deinit p)) =
    \<lparr>led_lit = False, valve_open = False, fan_powered = False, dryer_powered = False,
     fan_pwm = None, drain_pwm = None, mist = 0\<rparr>"
  by (rule shutdown_panel [OF assms])

lemma shutdown_switches_everything_off_witness:
  "mist (panel_of (dev (devices_deinit demo_core))) = 0 \<and>
   drain_pwm (panel_of (dev (devices_deinit demo_core))) = None"
  using shutdown_switches_everything_off [of demo_core] demo_valid(3) demo_presses by simp

text \<open>
  on a machine whose \<open>char\<close> is unsigned, such as ARM, the error mark -1 is never found in
  the buffer: every delivery of five bytes is taken for a measurement, 255 included.
\<close>

lemma unsigned_char_accepts_every_delivery:
  assumes "s_files s (fd_humitemp s) = Some HUMITEMP_DEV_PATH" and "length bytes = 5"
  shows "fst (humitemp_read False (5, bytes) s) = Some (uint (bytes ! 0), uint (bytes ! 2))"
proof -
  have ge: "uint b \<noteq> -1" for b :: u8 using uint_ge_0 [of b] by linarith
  have "(bytes @ zs) ! 0 = bytes ! 0" "(bytes @ zs) ! 2 = bytes ! 2" for zs
    using assms(2) by (simp_all add: nth_append)
  then show ?thesis using assms(1) ge by (simp add: humitemp_read_def char_value_def Let_def)
qed

lemma unsigned_char_accepts_every_delivery_witness:
  "fst (humitemp_read False (5, [255, 0, 255, 0, 0]) (sens demo_core)) = Some (255, 255) \<and>
   fst (humitemp_read True (5, [255, 0, 255, 0, 0]) (sens demo_core)) = None"
  using unsigned_char_accepts_every_delivery [OF demo_sens(1), of "[255, 0, 255, 0, 0]"]
    demo_sens(1)
  by (simp add: humitemp_read_def char_value_def Let_def)

text \<open>
  when a statement fails, the error path prints the message it has released and closes the
  handle that every later insertion and transfer uses.
\<close>

lemma failed_statement_poisons_database:
  assumes "in_i32 v" and "1 \<le> table" and "table \<le> 5" and "db_live d" and "\<And>h s. \<not> db_exec_ok d h s"
  shows "database_insert False table v d = Inl UseAfterFree \<and>
    (\<exists>d'. database_insert True table v d = Inr d' \<and> database_insert True table v d' = Inl UseAfterFree)"
  using insert_text_Some [OF assms(2,3), of v] assms(1,4,5) by (auto simp: database_insert_spec)

lemma failed_statement_poisons_database_witness:
  "database_insert False DATABASE_TEMP 25 (demo_db\<lparr>db_exec_ok := \<lambda>_ _. False, db_live := True\<rparr>) = Inl UseAfterFree"
  using failed_statement_poisons_database [of 25 DATABASE_TEMP "demo_db\<lparr>db_exec_ok := \<lambda>_ _. False, db_live := True\<rparr>"]
  by (simp add: in_i32_def DATABASE_TEMP_def)

text \<open>
  the timer of the on-board LED test lights the four LEDs one after the other and switches
  them off again in the same order: after \<open>n\<close> ticks it is at LED \<open>n mod 4\<close>, and LED \<open>j\<close> is lit,
  its pin low, when the ticks \<open>j\<close>, \<open>j + 4\<close>, ... among them are odd in number.
\<close>

lemma led_chase_position:
  assumes "test_led_onboard fd clock = Inr s"
  shows "cur_led s = GPG4 + length clock mod 4 \<and>
   (j < 4 \<longrightarrow> gpio_level (GPG (GPG4 + j)) (led_log s) =
      Some (if odd ((length clock + 3 - j) div 4) then 0 else 1))"
  using assms led_chase [of clock]
  by (auto simp: test_led_onboard_def GPG4_def toggles_def split: if_splits)

lemma led_chase_position_witness:
  "\<exists>s. test_led_onboard 3 [(7, 1), (7, 2)] = Inr s \<and> gpio_level (GPG 5) (led_log s) = Some 0"
  using led_chase_position [of 3 "[(7, 1), (7, 2)]" _ 1] by (simp add: GPG4_def test_led_onboard_def)

text \<open>
  the light intensity is between 0 and 54612 when every transfer on the bus succeeded, and
  -1 otherwise: the thread's test for -1 finds exactly the failures.
\<close>

lemma photo_intensity_or_error:
  "fst (photo_get_intensity wr rd temp) = -1 \<and> (rd = -1 \<or> wr 0 = -1 \<or> wr 1 = -1 \<or> wr 2 = -1 \<or> wr 3 = -1 \<or> wr 4 = -1) \<or>
   0 \<le> fst (photo_get_intensity wr rd temp) \<and> fst (photo_get_intensity wr rd temp) \<le> 54612 \<and>
     rd \<noteq> -1 \<and> wr 0 \<noteq> -1 \<and> wr 1 \<noteq> -1 \<and> wr 2 \<noteq> -1 \<and> wr 3 \<noteq> -1 \<and> wr 4 \<noteq> -1"
proof -
  have ex: "(\<exists>i < 5. P i) \<longleftrightarrow> P 0 \<or> P 1 \<or> P 2 \<or> P 3 \<or> P (4 :: nat)" for P
    by (auto simp: less_Suc_eq numeral_eq_Suc)
  have all: "(\<forall>i < 5. P i) \<longleftrightarrow> P 0 \<and> P 1 \<and> P 2 \<and> P 3 \<and> P (4 :: nat)" for P
    by (auto simp: less_Suc_eq numeral_eq_Suc)
  show ?thesis using photo_intensity_range [of wr rd temp] unfolding ex all by argo
qed

text \<open>
  the list a client receives is every title on its own line, the end mark, the title
  playing if there is one, and the end mark again.
\<close>

lemma list_transfer_protocol:
  assumes "music_rep (titles p) ts" and "\<forall>t \<in> set ts. length t + 1 < NETWORK_BUFSIZE"
    and "length (current_music p) + 1 < NETWORK_BUFSIZE" and "length ts + 3 \<le> sends_left c"
  shows "\<exists>c'. transfer_list stale p c = vok c' \<and>
    sent c' = sent c @ map (\<lambda>t. t @ [CHR 0x0A]) (ts @ [show_int NETWORK_CMD_END] @
      (if current_music p = [] then [] else [current_music p]) @ [show_int NETWORK_CMD_END])"
  unfolding transfer_list_eq [OF assms(1-3)] by (subst send_all_sent) (use assms(4) in auto)

lemma list_transfer_protocol_witness:
  "\<exists>c'. transfer_list True (demo_core\<lparr>current_music := ''m''\<rparr>) \<lparr>inbox = [], sends_left = 9, sent = []\<rparr> = vok c' \<and>
     sent c' = map (\<lambda>t. t @ [CHR 0x0A]) [show_int (- 1), ''m'', show_int (- 1)]"
proof -
  have "music_rep (titles (demo_core\<lparr>current_music := ''m''\<rparr>)) []"
    by (simp add: music_rep_def is_list_init)
  then show ?thesis
    using list_transfer_protocol [of "demo_core\<lparr>current_music := ''m''\<rparr>" "[]" "\<lparr>inbox = [], sends_left = 9, sent = []\<rparr>" True]
    by (simp add: NETWORK_BUFSIZE_def NETWORK_CMD_END_def)
qed

text \<open>
  adding a title that is not in the playlist appends it, and the traversal that serves the
  clients lists it; adding one that is there changes nothing.
\<close>

lemma music_add_lists_title:
  assumes "music_rep m ts" and "music_ready env name m"
  shows "\<exists>m'. music_add True env name m = Some (Inr m') \<and>
    music_print True m' = Some (Inr (if name \<in> set ts then ts else ts @ [name]))"
  using pl.add_total [OF assms] pl.titles_rep by blast

lemma music_add_lists_title_witness:
  "\<exists>m'. music_add True demo_env ''a.mp3'' (list_init True, (\<lambda>_. None)) = Some (Inr m') \<and>
     music_print True m' = Some (Inr [''a.mp3''])"
  using music_add_lists_title [of "(list_init True, (\<lambda>_. None))" "[]" demo_env "''a.mp3''"]
  by (simp add: music_rep_def is_list_init music_ready_def demo_env_def unused_def)

text \<open>
  a frame of an odd number of pixels, in a buffer of its exact size, is read past its end.
\<close>

lemma odd_frame_overreads:
  assumes "odd (width * height)" and "length frame = 2 * (width * height)"
    and "3 * (width * height) \<le> length dst"
  shows "parse_im frame dst width height = Inl BufferOverread"
proof -
  obtain n where n: "width * height = 2 * n + 1" using assms(1) by (elim oddE)
  then have "length frame div 4 = n" using assms(2) by simp
  then show ?thesis
    using parse_im_loop_short [of frame "2 * (width * height)" dst 0] assms(3)
    by (simp add: parse_im_def n)
qed

lemma odd_frame_overreads_witness:
  "parse_im [1, 2] [0, 0, 0] 1 1 = Inl BufferOverread"
  using odd_frame_overreads [of 1 1 "[1, 2]" "[0, 0, 0]"] by simp

text \<open>
  the fan test drives the fan through all eleven speeds in order and back to 0, each duty
  cycle within the period, and closes the device; the channel is released.
\<close>

lemma fan_test_sweeps_all_speeds:
  assumes "os_open w PWM_FAN_PATH = fd" and "0 \<le> fd"
  shows "fst (test_leadcool120 w) = 0 \<and> files (snd (test_leadcool120 w)) fd = None \<and>
    pwm_setting 3 (hw (snd (test_leadcool120 w))) = None \<and>
    (\<exists>cs. hw (snd (test_leadcool120 w)) = hw w @ cs \<and>
      [d. PwmConfig ch d per \<leftarrow> cs] = map ((*) 4000) ([0..10] @ [0]) \<and>
      (\<forall>ch d per. PwmConfig ch d per \<in> set cs \<longrightarrow> ch = 3 \<and> per = PWM_FAN_PERIOD \<and> 0 \<le> d \<and> d \<le> per))"
proof -
  have u: "[0..10] = [0, 1, 2, 3, 4, 5, 6, 7, 8, 9, 10 :: int]" by code_simp
  have "hw (snd (test_leadcool120 w)) = hw w @
      [PwmRequest 3, PwmEnable 3, Sleep 1000000] @
      concat (map (\<lambda>i. [PwmConfig 3 (PWM_FAN_SPEED i) PWM_FAN_PERIOD, Sleep 2000000]) ([0..10] @ [0])) @
      [PwmDisable 3, PwmFree 3]"
    "fst (test_leadcool120 w) = 0" "files (snd (test_leadcool120 w)) fd = None"
    using assms
    by (simp_all add: test_leadcool120_def sys_open_def sys_ioctl_def sys_close_def usleep_def
        fan_sweep_log del: fan_sweep.simps)
  then show ?thesis
    by (simp add: u PWM_FAN_SPEED_def PWM_FAN_PERIOD_def pwm_setting_append)
qed

lemma fan_test_sweeps_all_speeds_witness:
  "pwm_setting 3 (hw (snd (test_leadcool120 demo_world))) = None \<and>
   (\<exists>cs. hw (snd (test_leadcool120 demo_world)) = cs \<and> length [d. PwmConfig ch d per \<leftarrow> cs] = 12)"
proof -
  have o: "os_open demo_world PWM_FAN_PATH = 9" "hw demo_world = []"
    by (simp_all add: demo_world_def world0_def demo_open_def paths_distinct [symmetric] PWM_FAN_PATH_def
        RELAY_DEV_PATH_def MG995_PWM_PATH_def MOISTURE_DEV_PATH_def HUMITEMP_DEV_PATH_def PHOTO_PATH_def
        MAGNETIC_DEV_PATH_def)
  have "length (map ((*) 4000) ([0..10] @ [0 :: int])) = 12" by simp
  then show ?thesis using fan_test_sweeps_all_speeds [OF o(1)] o(2) by auto
qed

end
